(* ===== verification/Prelude.thy ===== *)
theory Prelude
  imports Main
begin

text \<open>
  Shared vocabulary of the development: the outcome of a piece of effectful code (a value and the
  state it leaves, or an error and the state it leaves), the errors the package raises, decimal
  numerals as Lua prints and reads them, and the neighbours of an element in a list, which is what
  the linked list in Redis stores.
\<close>

section \<open>Collections of facts\<close>

named_theorems redis_simps \<open>effects of the Redis commands on the key space\<close>
named_theorems key_simps \<open>the Redis keys of one allocator are pairwise different\<close>
named_theorems pool_simps \<open>effects of the Lua helper functions on the allocator's view\<close>
named_theorems link_simps \<open>neighbours in the free list after an update of the list\<close>

section \<open>Outcomes\<close>

datatype error =
    ValueError            \<comment> \<open>Python's ValueError\<close>
  | KeyError              \<comment> \<open>Python's KeyError\<close>
  | AssertionError        \<comment> \<open>Python's AssertionError\<close>
  | LuaAssert string      \<comment> \<open>a failed assert of a Lua script, with its message\<close>
  | LuaBadArgument        \<comment> \<open>redis.call with a nil argument\<close>
  | RedisError string     \<comment> \<open>an error reply of the Redis server\<close>
  | RuntimeError          \<comment> \<open>Python's RuntimeError\<close>
  | TimeoutError          \<comment> \<open>Python's TimeoutError\<close>
  | TypeError             \<comment> \<open>Python's TypeError\<close>
  | AttributeError        \<comment> \<open>Python's AttributeError\<close>
  | Raised string         \<comment> \<open>an exception of the caller's own code, by name\<close>
  | OutOfFuel             \<comment> \<open>a loop of the model ran out of fuel; shown never to happen\<close>

text \<open>
  An aborted Lua script is not rolled back: \<open>Abort\<close> carries the state as the writes before the
  error left it.
\<close>

datatype ('a, 's) outcome = Done 'a 's | Abort error 's

fun then_do :: "('a, 's) outcome \<Rightarrow> ('a \<Rightarrow> 's \<Rightarrow> ('b, 's) outcome) \<Rightarrow> ('b, 's) outcome" where
  "then_do (Done x s) f = f x s"
| "then_do (Abort e s) f = Abort e s"

fun final_state :: "('a, 's) outcome \<Rightarrow> 's" where
  "final_state (Done x s) = s"
| "final_state (Abort e s) = s"

fun succeeds :: "('a, 's) outcome \<Rightarrow> bool" where
  "succeeds (Done x s) = True"
| "succeeds (Abort e s) = False"

text \<open>A \<open>for\<close> loop over a list: it stops at the first error.\<close>

fun for_each :: "('x \<Rightarrow> 's \<Rightarrow> (unit, 's) outcome) \<Rightarrow> 'x list \<Rightarrow> 's \<Rightarrow> (unit, 's) outcome" where
  "for_each f [] s = Done () s"
| "for_each f (x # xs) s = then_do (f x s) (\<lambda>_. for_each f xs)"

lemma then_do_Done_iff:
  "then_do m f = Done y t \<longleftrightarrow> (\<exists>x s. m = Done x s \<and> f x s = Done y t)"
  by (cases m) auto

text \<open>
  The rule every script with a loop is verified by: a simulation relation that each iteration
  keeps is kept by the loop, and the abstract side folds the abstract iteration.
\<close>

lemma for_each_simulation:
  assumes step: "\<And>x s p. x \<in> set xs \<Longrightarrow> Q s p \<Longrightarrow> \<exists>s'. f x s = Done () s' \<and> Q s' (g x p)"
    and "Q s p"
  shows "\<exists>s'. for_each f xs s = Done () s' \<and> Q s' (fold g xs p)"
  using assms
proof (induction xs arbitrary: s p)
  case Nil
  then show ?case by simp
next
  case (Cons x xs)
  from Cons.prems obtain s1 where s1: "f x s = Done () s1" and "Q s1 (g x p)"
    by (meson list.set_intros(1))
  with Cons.IH [of s1 "g x p"] Cons.prems(1) obtain s' where
    "for_each f xs s1 = Done () s'" and "Q s' (fold g xs (g x p))" by auto
  with s1 show ?case by auto
qed

text \<open>The same for a loop whose iterations may abort: the invariant holds wherever it stops.\<close>

lemma for_each_invariant:
  assumes "\<And>x s. x \<in> set xs \<Longrightarrow> I s \<Longrightarrow> I (final_state (f x s))" and "I s"
  shows "I (final_state (for_each f xs s))"
  using assms
proof (induction xs arbitrary: s)
  case Nil
  then show ?case by simp
next
  case (Cons x xs)
  then have "I (final_state (f x s))" by simp
  with Cons show ?case by (cases "f x s") auto
qed

section \<open>Decimal numerals\<close>

text \<open>
  Lua's \<open>tostring\<close> and \<open>tonumber\<close> on the integers the scripts store (Unix seconds and \<open>-1\<close>).
  Lua numbers are doubles printed with 14 digits; the integers here stay far below that bound.
\<close>

definition digit_char :: "nat \<Rightarrow> char" where
  "digit_char d = char_of (48 + d)"

definition char_digit :: "char \<Rightarrow> nat option" where
  "char_digit c = (let n = (of_char c :: nat) in if 48 \<le> n \<and> n < 58 then Some (n - 48) else None)"

fun nat_string :: "nat \<Rightarrow> string" where
  "nat_string n = (if n < 10 then [digit_char n] else nat_string (n div 10) @ [digit_char (n mod 10)])"

declare nat_string.simps [simp del]

definition tostring :: "int \<Rightarrow> string" where
  "tostring i = (if i < 0 then CHR ''-'' # nat_string (nat (- i)) else nat_string (nat i))"

fun read_digits :: "nat \<Rightarrow> string \<Rightarrow> nat option" where
  "read_digits n [] = Some n"
| "read_digits n (c # cs) =
     (case char_digit c of None \<Rightarrow> None | Some d \<Rightarrow> read_digits (10 * n + d) cs)"

definition tonumber :: "string \<Rightarrow> int option" where
  "tonumber cs =
     (case cs of
        [] \<Rightarrow> None
      | c # ds \<Rightarrow>
          if c = CHR ''-'' then (if ds = [] then None else map_option (\<lambda>n. - int n) (read_digits 0 ds))
          else map_option int (read_digits 0 (c # ds)))"

lemma char_digit_digit_char: "d < 10 \<Longrightarrow> char_digit (digit_char d) = Some d"
  by (simp add: char_digit_def digit_char_def)

lemma read_digits_append:
  "read_digits n (xs @ ys) = (case read_digits n xs of None \<Rightarrow> None | Some m \<Rightarrow> read_digits m ys)"
  by (induction xs arbitrary: n) (auto split: option.splits)

lemma read_digits_nat_string: "read_digits 0 (nat_string n) = Some n"
proof (induction n rule: nat_string.induct)
  case (1 n)
  show ?case
  proof (cases "n < 10")
    case True
    then show ?thesis by (simp add: nat_string.simps [of n] char_digit_digit_char)
  next
    case False
    with 1 show ?thesis
      by (simp add: nat_string.simps [of n] read_digits_append char_digit_digit_char)
  qed
qed

lemma nat_string_nonempty: "nat_string n \<noteq> []"
  by (simp add: nat_string.simps [of n])

lemma digit_char_neq: "d < 10 \<Longrightarrow> digit_char d \<noteq> CHR ''-''" "d < 10 \<Longrightarrow> digit_char d \<noteq> CHR ''|''"
proof -
  have "of_char (digit_char d) = 48 + d" if "d < 10"
    using that by (simp add: digit_char_def)
  then show "d < 10 \<Longrightarrow> digit_char d \<noteq> CHR ''-''" and "d < 10 \<Longrightarrow> digit_char d \<noteq> CHR ''|''"
    by fastforce+
qed

lemma nat_string_chars: "CHR ''-'' \<notin> set (nat_string n)" "CHR ''|'' \<notin> set (nat_string n)"
proof (induction n rule: nat_string.induct)
  case (1 n)
  { case 1 then show ?case
      using "1.IH"(1) digit_char_neq(1) [of n] digit_char_neq(1) [of "n mod 10"]
      by (auto simp: nat_string.simps [of n])
  next
    case 2 then show ?case
      using "1.IH"(2) digit_char_neq(2) [of n] digit_char_neq(2) [of "n mod 10"]
      by (auto simp: nat_string.simps [of n]) }
qed

theorem tonumber_tostring [simp]: "tonumber (tostring i) = Some i"
proof -
  obtain c cs where cs: "nat_string (nat i) = c # cs"
    by (meson nat_string_nonempty neq_Nil_conv)
  moreover from this nat_string_chars(1) [of "nat i"] have "c \<noteq> CHR ''-''" by auto
  ultimately show ?thesis
    using read_digits_nat_string [of "nat i"] read_digits_nat_string [of "nat (- i)"]
    by (auto simp: tonumber_def tostring_def nat_string_nonempty split: list.split)
qed

lemma tostring_no_bar: "CHR ''|'' \<notin> set (tostring i)"
  by (simp add: tostring_def nat_string_chars)

end
