(* ===== verification/Redis_API.thy ===== *)
theory Redis_API
  imports Prelude
begin

text \<open>
  The Redis server as the package uses it. The server is not part of the repository: it is a
  parameter, a record of the commands the code issues over an abstract server state \<open>'s\<close>. What the
  code relies on is the locale \<open>redis_server\<close>: a view of the state as a typed key space, and for each
  command its documented effect on that view. Every component of the model takes the record as its
  first argument, and every property of a component holds for every server with these laws.
\<close>

section \<open>The key space a client can observe\<close>

text \<open>
  The clock counts milliseconds. A string key carries its expiry deadline, if it has one; a key whose
  deadline has passed is not in the view. An empty hash, set or list is an absent key, as in Redis.
\<close>

record keyspace =
  now_ms :: int
  strs :: "string \<rightharpoonup> string \<times> int option"
  hashes :: "string \<Rightarrow> (string \<rightharpoonup> string)"
  rsets :: "string \<Rightarrow> string set"
  rlists :: "string \<Rightarrow> string list"

definition str_key :: "keyspace \<Rightarrow> string \<Rightarrow> bool" where
  "str_key V k \<longleftrightarrow> hashes V k = Map.empty \<and> rsets V k = {} \<and> rlists V k = []"

definition hash_key :: "keyspace \<Rightarrow> string \<Rightarrow> bool" where
  "hash_key V k \<longleftrightarrow> strs V k = None \<and> rsets V k = {} \<and> rlists V k = []"

definition set_key :: "keyspace \<Rightarrow> string \<Rightarrow> bool" where
  "set_key V k \<longleftrightarrow> strs V k = None \<and> hashes V k = Map.empty \<and> rlists V k = []"

definition list_key :: "keyspace \<Rightarrow> string \<Rightarrow> bool" where
  "list_key V k \<longleftrightarrow> strs V k = None \<and> hashes V k = Map.empty \<and> rsets V k = {}"

definition present :: "keyspace \<Rightarrow> string \<Rightarrow> bool" where
  "present V k \<longleftrightarrow> strs V k \<noteq> None \<or> hashes V k \<noteq> Map.empty \<or> rsets V k \<noteq> {} \<or> rlists V k \<noteq> []"

definition erase :: "string \<Rightarrow> keyspace \<Rightarrow> keyspace" where
  "erase k V = V\<lparr>strs := (strs V)(k := None), hashes := (hashes V)(k := Map.empty),
     rsets := (rsets V)(k := {}), rlists := (rlists V)(k := [])\<rparr>"

definition deadline :: "keyspace \<Rightarrow> int option \<Rightarrow> int option" where
  "deadline V ex = map_option (\<lambda>n. now_ms V + 1000 * n) ex"

definition put_str :: "string \<Rightarrow> string \<Rightarrow> int option \<Rightarrow> keyspace \<Rightarrow> keyspace" where
  "put_str k v ex V = (erase k V)\<lparr>strs := (strs V)(k \<mapsto> (v, deadline V ex))\<rparr>"

definition put_hash :: "string \<Rightarrow> (string \<rightharpoonup> string) \<Rightarrow> keyspace \<Rightarrow> keyspace" where
  "put_hash k h V = V\<lparr>hashes := (hashes V)(k := h)\<rparr>"

definition put_set :: "string \<Rightarrow> string set \<Rightarrow> keyspace \<Rightarrow> keyspace" where
  "put_set k S V = V\<lparr>rsets := (rsets V)(k := S)\<rparr>"

definition put_list :: "string \<Rightarrow> string list \<Rightarrow> keyspace \<Rightarrow> keyspace" where
  "put_list k xs V = V\<lparr>rlists := (rlists V)(k := xs)\<rparr>"

text \<open>An expiry argument the server accepts: none, or a positive number of seconds.\<close>

fun ex_ok :: "int option \<Rightarrow> bool" where
  "ex_ok None = True"
| "ex_ok (Some n) = (0 < n)"

text \<open>Time passes: the clock moves and the keys whose deadline is reached disappear.\<close>

definition live :: "int \<Rightarrow> string \<times> int option \<Rightarrow> bool" where
  "live t e = (case snd e of None \<Rightarrow> True | Some d \<Rightarrow> t < d)"

definition elapse :: "int \<Rightarrow> keyspace \<Rightarrow> keyspace" where
  "elapse d V = V\<lparr>now_ms := now_ms V + d,
     strs := (\<lambda>k. case strs V k of None \<Rightarrow> None
       | Some e \<Rightarrow> if live (now_ms V + d) e then Some e else None)\<rparr>"

section \<open>The commands\<close>

text \<open>
  \<open>r_setex\<close>, \<open>r_setnx\<close> and \<open>r_setnxget\<close> (\<open>SET\<close> with \<open>EX\<close>, with \<open>NX\<close>, with \<open>NX GET\<close>) return
  \<open>None\<close> for the error reply to an expiry that is not positive. \<open>r_hscan\<close> takes the key, the cursor
  and the \<open>COUNT\<close> hint and returns the next cursor with the fields of this page. \<open>r_blpop\<close> answers from
  the lists as they are when it is served, and with nothing once its timeout has run out.
\<close>

record 's redis =
  r_time :: "'s \<Rightarrow> int"
  r_get :: "string \<Rightarrow> 's \<Rightarrow> string option"
  r_mget :: "string list \<Rightarrow> 's \<Rightarrow> string option list"
  r_set :: "string \<Rightarrow> string \<Rightarrow> 's \<Rightarrow> 's"
  r_setex :: "string \<Rightarrow> string \<Rightarrow> int \<Rightarrow> 's \<Rightarrow> 's option"
  r_setnx :: "string \<Rightarrow> string \<Rightarrow> int option \<Rightarrow> 's \<Rightarrow> (bool \<times> 's) option"
  r_setnxget :: "string \<Rightarrow> string \<Rightarrow> int option \<Rightarrow> 's \<Rightarrow> (string option \<times> 's) option"
  r_del :: "string \<Rightarrow> 's \<Rightarrow> bool \<times> 's"
  r_exists :: "string \<Rightarrow> 's \<Rightarrow> bool"
  r_ttl :: "string \<Rightarrow> 's \<Rightarrow> int"
  r_hget :: "string \<Rightarrow> string \<Rightarrow> 's \<Rightarrow> string option"
  r_hset :: "string \<Rightarrow> string \<Rightarrow> string \<Rightarrow> 's \<Rightarrow> 's"
  r_hdel :: "string \<Rightarrow> string \<Rightarrow> 's \<Rightarrow> 's"
  r_hexists :: "string \<Rightarrow> string \<Rightarrow> 's \<Rightarrow> bool"
  r_hlen :: "string \<Rightarrow> 's \<Rightarrow> nat"
  r_hkeys :: "string \<Rightarrow> 's \<Rightarrow> string list"
  r_hscan :: "string \<Rightarrow> string \<Rightarrow> int \<Rightarrow> 's \<Rightarrow> string \<times> (string \<times> string) list"
  r_hgetall :: "string \<Rightarrow> 's \<Rightarrow> (string \<times> string) list"
  r_sadd :: "string \<Rightarrow> string list \<Rightarrow> 's \<Rightarrow> 's"
  r_srem :: "string \<Rightarrow> string list \<Rightarrow> 's \<Rightarrow> 's"
  r_smembers :: "string \<Rightarrow> 's \<Rightarrow> string list"
  r_sismember :: "string \<Rightarrow> string \<Rightarrow> 's \<Rightarrow> bool"
  r_getdel :: "string \<Rightarrow> 's \<Rightarrow> string option \<times> 's"
  r_rpush :: "string \<Rightarrow> string \<Rightarrow> 's \<Rightarrow> 's"
  r_blpop :: "string list \<Rightarrow> 's \<Rightarrow> (string \<times> string) option \<times> 's"

section \<open>The documented behaviour\<close>

locale redis_server =
  fixes R :: "'s redis" and view :: "'s \<Rightarrow> keyspace"
  assumes time: "r_time R s = now_ms (view s) div 1000"
    and get: "str_key (view s) k \<Longrightarrow> r_get R k s = map_option fst (strs (view s) k)"
    and mget: "r_mget R ks s = map (\<lambda>k. map_option fst (strs (view s) k)) ks"
    and set_cmd: "view (r_set R k v s) = put_str k v None (view s)"
    and setex_error: "n \<le> 0 \<Longrightarrow> r_setex R k v n s = None"
    and setex: "0 < n \<Longrightarrow> \<exists>s'. r_setex R k v n s = Some s' \<and> view s' = put_str k v (Some n) (view s)"
    and setnx_error: "\<not> ex_ok ex \<Longrightarrow> r_setnx R k v ex s = None"
    and setnx_present: "ex_ok ex \<Longrightarrow> present (view s) k \<Longrightarrow> r_setnx R k v ex s = Some (False, s)"
    and setnx_absent: "ex_ok ex \<Longrightarrow> \<not> present (view s) k \<Longrightarrow>
      \<exists>s'. r_setnx R k v ex s = Some (True, s') \<and> view s' = put_str k v ex (view s)"
    and setnxget_error: "\<not> ex_ok ex \<Longrightarrow> r_setnxget R k v ex s = None"
    and setnxget_present: "ex_ok ex \<Longrightarrow> str_key (view s) k \<Longrightarrow> strs (view s) k = Some e \<Longrightarrow>
      r_setnxget R k v ex s = Some (Some (fst e), s)"
    and setnxget_absent: "ex_ok ex \<Longrightarrow> \<not> present (view s) k \<Longrightarrow>
      \<exists>s'. r_setnxget R k v ex s = Some (None, s') \<and> view s' = put_str k v ex (view s)"
    and del_reply: "fst (r_del R k s) = present (view s) k"
    and del: "view (snd (r_del R k s)) = erase k (view s)"
    and exists_cmd: "r_exists R k s = present (view s) k"
    and ttl_absent: "\<not> present (view s) k \<Longrightarrow> r_ttl R k s = -2"
    and ttl_permanent: "strs (view s) k = Some (v, None) \<Longrightarrow> r_ttl R k s = -1"
    and ttl_expiring: "strs (view s) k = Some (v, Some d) \<Longrightarrow>
      0 \<le> r_ttl R k s \<and> \<bar>1000 * r_ttl R k s - (d - now_ms (view s))\<bar> < 1000"
    and hget: "hash_key (view s) k \<Longrightarrow> r_hget R k f s = hashes (view s) k f"
    and hset: "hash_key (view s) k \<Longrightarrow>
      view (r_hset R k f v s) = put_hash k ((hashes (view s) k)(f \<mapsto> v)) (view s)"
    and hdel: "hash_key (view s) k \<Longrightarrow>
      view (r_hdel R k f s) = put_hash k ((hashes (view s) k)(f := None)) (view s)"
    and hexists: "hash_key (view s) k \<Longrightarrow> r_hexists R k f s = (hashes (view s) k f \<noteq> None)"
    and hash_finite: "finite (dom (hashes (view s) k))"
    and hlen: "hash_key (view s) k \<Longrightarrow> r_hlen R k s = card (dom (hashes (view s) k))"
    and hkeys_set: "hash_key (view s) k \<Longrightarrow> set (r_hkeys R k s) = dom (hashes (view s) k)"
    and hkeys_distinct: "distinct (r_hkeys R k s)"
    and hscan: "hash_key (view s) k \<Longrightarrow> (f, v) \<in> set (snd (r_hscan R k c n s)) \<Longrightarrow>
      hashes (view s) k f = Some v"
    and hgetall: "hash_key (view s) k \<Longrightarrow> map_of (r_hgetall R k s) = hashes (view s) k"
    and hgetall_distinct: "distinct (map fst (r_hgetall R k s))"
    and sadd: "set_key (view s) k \<Longrightarrow>
      view (r_sadd R k vs s) = put_set k (rsets (view s) k \<union> set vs) (view s)"
    and srem: "set_key (view s) k \<Longrightarrow>
      view (r_srem R k vs s) = put_set k (rsets (view s) k - set vs) (view s)"
    and smembers: "set_key (view s) k \<Longrightarrow> set (r_smembers R k s) = rsets (view s) k"
    and smembers_distinct: "distinct (r_smembers R k s)"
    and sismember: "set_key (view s) k \<Longrightarrow> r_sismember R k v s = (v \<in> rsets (view s) k)"
    and getdel: "str_key (view s) k \<Longrightarrow> fst (r_getdel R k s) = map_option fst (strs (view s) k) \<and>
      view (snd (r_getdel R k s)) = erase k (view s)"
    and rpush: "list_key (view s) k \<Longrightarrow> view (r_rpush R k v s) = put_list k (rlists (view s) k @ [v]) (view s)"
    and blpop_empty: "\<forall>k\<in>set ks. list_key (view s) k \<and> rlists (view s) k = [] \<Longrightarrow> r_blpop R ks s = (None, s)"
    and blpop: "\<forall>k\<in>set ks. list_key (view s) k \<Longrightarrow> find (\<lambda>k. rlists (view s) k \<noteq> []) ks = Some k \<Longrightarrow>
      fst (r_blpop R ks s) = Some (k, hd (rlists (view s) k)) \<and>
      view (snd (r_blpop R ks s)) = put_list k (tl (rlists (view s) k)) (view s)"
    and strs_live: "strs (view s) k = Some e \<Longrightarrow> live (now_ms (view s)) e"

section \<open>Facts on the key space\<close>

lemma put_str_sel [redis_simps]:
  "strs (put_str k v ex V) = (strs V)(k \<mapsto> (v, deadline V ex))"
  "hashes (put_str k v ex V) = (hashes V)(k := Map.empty)"
  "rsets (put_str k v ex V) = (rsets V)(k := {})"
  "rlists (put_str k v ex V) = (rlists V)(k := [])"
  "now_ms (put_str k v ex V) = now_ms V"
  by (simp_all add: put_str_def erase_def)

lemma put_hash_sel [redis_simps]:
  "strs (put_hash k h V) = strs V" "hashes (put_hash k h V) = (hashes V)(k := h)"
  "rsets (put_hash k h V) = rsets V" "rlists (put_hash k h V) = rlists V"
  "now_ms (put_hash k h V) = now_ms V"
  by (simp_all add: put_hash_def)

lemma put_set_sel [redis_simps]:
  "strs (put_set k S V) = strs V" "hashes (put_set k S V) = hashes V"
  "rsets (put_set k S V) = (rsets V)(k := S)" "rlists (put_set k S V) = rlists V"
  "now_ms (put_set k S V) = now_ms V"
  by (simp_all add: put_set_def)

lemma put_list_sel [redis_simps]:
  "strs (put_list k xs V) = strs V" "hashes (put_list k xs V) = hashes V"
  "rsets (put_list k xs V) = rsets V" "rlists (put_list k xs V) = (rlists V)(k := xs)"
  "now_ms (put_list k xs V) = now_ms V"
  by (simp_all add: put_list_def)

lemma erase_sel [redis_simps]:
  "strs (erase k V) = (strs V)(k := None)" "hashes (erase k V) = (hashes V)(k := Map.empty)"
  "rsets (erase k V) = (rsets V)(k := {})" "rlists (erase k V) = (rlists V)(k := [])"
  "now_ms (erase k V) = now_ms V"
  by (simp_all add: erase_def)

lemma elapse_sel [redis_simps]:
  "strs (elapse d V) = (\<lambda>k. case strs V k of None \<Rightarrow> None
       | Some e \<Rightarrow> if live (now_ms V + d) e then Some e else None)"
  "hashes (elapse d V) = hashes V" "rsets (elapse d V) = rsets V" "rlists (elapse d V) = rlists V"
  "now_ms (elapse d V) = now_ms V + d"
  by (simp_all add: elapse_def)

lemma present_str [redis_simps]: "str_key V k \<Longrightarrow> present V k \<longleftrightarrow> strs V k \<noteq> None"
  by (auto simp: present_def str_key_def)

lemma put_str_keys [redis_simps]:
  "str_key (put_str k v ex V) k' \<longleftrightarrow> k' = k \<or> str_key V k'"
  "hash_key (put_str k v ex V) k' \<longleftrightarrow> k' \<noteq> k \<and> hash_key V k'"
  by (auto simp: str_key_def hash_key_def redis_simps)

lemma put_hash_keys [redis_simps]:
  "str_key (put_hash k h V) k' \<longleftrightarrow> (if k' = k then h = Map.empty \<and> rsets V k = {} \<and> rlists V k = [] else str_key V k')"
  "hash_key (put_hash k h V) k' \<longleftrightarrow> hash_key V k'"
  by (auto simp: str_key_def hash_key_def redis_simps)

lemma erase_keys [redis_simps]:
  "str_key (erase k V) k' \<longleftrightarrow> k' = k \<or> str_key V k'"
  "hash_key (erase k V) k' \<longleftrightarrow> k' = k \<or> hash_key V k'"
  by (auto simp: str_key_def hash_key_def redis_simps)

lemma elapse_keys [redis_simps]:
  "str_key (elapse d V) k \<longleftrightarrow> str_key V k"
  "hash_key V k \<Longrightarrow> hash_key (elapse d V) k"
  by (auto simp: str_key_def hash_key_def redis_simps)

end
