(* ===== verification/Pool_Encoding.thy ===== *)
theory Pool_Encoding
  imports Prelude
begin

text \<open>
  The names and values the package writes to Redis: the keys of one lock or allocator instance
  (\<open>_key_str\<close>, \<open>_pool_str\<close>, \<open>_pool_pointer_str\<close>, \<open>_soft_bind_name\<close>, \<open>_gc_cursor_str\<close>), the pool hash
  value \<open>prev||next||expiry\<close> with Lua's greedy pattern match that reads it back, and the validation
  of pool keys at the Python boundary.
\<close>

section \<open>Instances and their Redis keys\<close>

record lock_cfg =
  prefix :: string
  suffix :: string

record config = lock_cfg +
  shared :: bool

text \<open>\<open>RedisLock.__init__\<close> refuses a single quote in either part, which would end the Lua string.\<close>

definition init_check :: "'a lock_cfg_scheme \<Rightarrow> bool" where
  "init_check A \<longleftrightarrow> CHR 0x27 \<notin> set (prefix A) \<and> CHR 0x27 \<notin> set (suffix A)"

definition key_str :: "'a lock_cfg_scheme \<Rightarrow> string \<Rightarrow> string" where
  "key_str A key = prefix A @ ''|'' @ suffix A @ '':'' @ key"

definition pool_str :: "'a lock_cfg_scheme \<Rightarrow> string" where
  "pool_str A = prefix A @ ''|'' @ suffix A @ ''|pool''"

definition pool_pointer_str :: "'a lock_cfg_scheme \<Rightarrow> bool \<Rightarrow> string" where
  "pool_pointer_str A is_head = pool_str A @ ''|'' @ (if is_head then ''head'' else ''tail'')"

definition cache_str :: "'a lock_cfg_scheme \<Rightarrow> string" where
  "cache_str A = prefix A @ ''|'' @ suffix A @ ''-cache''"

definition py_soft_bind_name :: "'a lock_cfg_scheme \<Rightarrow> string \<Rightarrow> string" where
  "py_soft_bind_name A name = cache_str A @ '':bind:'' @ name"

text \<open>The Lua function of the same name returns the empty string for an empty name.\<close>

definition soft_bind_name :: "'a lock_cfg_scheme \<Rightarrow> string \<Rightarrow> string" where
  "soft_bind_name A name = (if name = '''' then '''' else cache_str A @ '':bind:'' @ name)"

definition gc_cursor_str :: "'a lock_cfg_scheme \<Rightarrow> string" where
  "gc_cursor_str A = pool_str A @ ''|gc_cursor''"

lemma key_str_inj [key_simps]: "key_str A k = key_str A k' \<longleftrightarrow> k = k'"
  by (simp add: key_str_def)

lemma soft_bind_inj [key_simps]: "py_soft_bind_name A n = py_soft_bind_name A n' \<longleftrightarrow> n = n'"
  by (simp add: py_soft_bind_name_def)

lemma soft_bind_lua [key_simps]: "n \<noteq> '''' \<Longrightarrow> soft_bind_name A n = py_soft_bind_name A n"
  by (simp add: py_soft_bind_name_def soft_bind_name_def)

text \<open>The five families of keys of one instance never meet.\<close>

lemma keys_differ [key_simps]:
  "key_str A k \<noteq> pool_str A" "key_str A k \<noteq> pool_pointer_str A b"
  "key_str A k \<noteq> gc_cursor_str A" "key_str A k \<noteq> py_soft_bind_name A n"
  "pool_str A \<noteq> pool_pointer_str A b" "pool_str A \<noteq> gc_cursor_str A"
  "pool_str A \<noteq> py_soft_bind_name A n" "pool_pointer_str A b \<noteq> gc_cursor_str A"
  "pool_pointer_str A b \<noteq> py_soft_bind_name A n" "gc_cursor_str A \<noteq> py_soft_bind_name A n"
  by (simp_all add: key_str_def pool_str_def pool_pointer_str_def gc_cursor_str_def
      py_soft_bind_name_def cache_str_def)

lemmas keys_differ_sym [key_simps] = keys_differ [symmetric]

lemma pointers_differ [key_simps]: "pool_pointer_str A a = pool_pointer_str A b \<longleftrightarrow> a = b"
  by (simp add: pool_pointer_str_def)

section \<open>The pool hash value\<close>

definition ALLOCATED_SENTINEL :: string where
  "ALLOCATED_SENTINEL = ''#ALLOCATED''"

definition POOL_VALUE_SEP :: string where
  "POOL_VALUE_SEP = ''||''"

fun contains_sep :: "string \<Rightarrow> bool" where
  "contains_sep (c # d # cs) = ((c = CHR ''|'' \<and> d = CHR ''|'') \<or> contains_sep (d # cs))"
| "contains_sep _ = False"

text \<open>Lua's \<open>tostring\<close> prints \<open>nil\<close> as the word; \<open>join_pool_value\<close> replaces only a nil expiry.\<close>

definition lua_str :: "string option \<Rightarrow> string" where
  "lua_str x = (case x of None \<Rightarrow> ''nil'' | Some v \<Rightarrow> v)"

definition join_pool_value :: "string option \<Rightarrow> string option \<Rightarrow> int option \<Rightarrow> string" where
  "join_pool_value prev nxt_key expiry =
     lua_str prev @ POOL_VALUE_SEP @ lua_str nxt_key @ POOL_VALUE_SEP @
     tostring (case expiry of None \<Rightarrow> -1 | Some e \<Rightarrow> e)"

text \<open>
  \<open>string.match(value, "(.*)||(.*)||(.*)")\<close>: each \<open>(.*)\<close> is greedy, so the first group ends at the
  last separator that still leaves one behind it, and the second at the last separator of the rest.
\<close>

definition starts_sep :: "string \<Rightarrow> bool" where
  "starts_sep cs = (take 2 cs = POOL_VALUE_SEP)"

fun split_last :: "string \<Rightarrow> (string \<times> string) option" where
  "split_last [] = None"
| "split_last (c # cs) =
     (case split_last cs of
        Some (a, b) \<Rightarrow> Some (c # a, b)
      | None \<Rightarrow> (if starts_sep (c # cs) then Some ([], drop 2 (c # cs)) else None))"

fun lua_match :: "string \<Rightarrow> (string \<times> string \<times> string) option" where
  "lua_match [] = None"
| "lua_match (c # cs) =
     (case lua_match cs of
        Some (a, b) \<Rightarrow> Some (c # a, b)
      | None \<Rightarrow> (if starts_sep (c # cs)
                 then map_option (Pair []) (split_last (drop 2 (c # cs))) else None))"

text \<open>The three results are nil when the match fails; \<open>tonumber\<close> is nil on a word.\<close>

definition split_pool_value :: "string option \<Rightarrow> string option \<times> string option \<times> int option" where
  "split_pool_value value =
     (case value of
        None \<Rightarrow> (Some '''', Some '''', Some (-1))
      | Some v \<Rightarrow>
          if v = '''' then (Some '''', Some '''', Some (-1))
          else (case lua_match v of
                  None \<Rightarrow> (None, None, None)
                | Some (p, n, e) \<Rightarrow> (Some p, Some n, tonumber e)))"

definition starts_bar :: "string \<Rightarrow> bool" where
  "starts_bar k = (take 1 k = ''|'')"

lemma starts_sep_iff: "starts_sep (c # cs) \<longleftrightarrow> c = CHR ''|'' \<and> starts_bar cs"
  by (cases cs) (auto simp: starts_sep_def POOL_VALUE_SEP_def starts_bar_def)

lemma contains_sep_Cons: "contains_sep (c # cs) \<longleftrightarrow> starts_sep (c # cs) \<or> contains_sep cs"
  by (cases cs) (auto simp: starts_sep_iff starts_bar_def)

lemma split_last_None: "split_last cs = None \<longleftrightarrow> \<not> contains_sep cs"
  by (induction cs) (auto simp: contains_sep_Cons simp del: contains_sep.simps(1) split: option.split)

lemma no_bar_no_sep: "CHR ''|'' \<notin> set cs \<Longrightarrow> \<not> contains_sep cs"
  by (induction cs rule: contains_sep.induct) auto

lemma starts_bar_append: "starts_bar (xs @ ys) = (if xs = [] then starts_bar ys else starts_bar xs)"
  by (cases xs) (auto simp: starts_bar_def)

text \<open>Behind a text without bars the last separator is the one in front of it.\<close>

lemma split_last_sep:
  assumes "CHR ''|'' \<notin> set e"
  shows "split_last (n @ POOL_VALUE_SEP @ e) = Some (n, e)"
proof (induction n)
  case Nil
  have "\<not> contains_sep e" "\<not> starts_bar e"
    using assms no_bar_no_sep by (cases e; force simp: starts_bar_def)+
  then show ?case
    by (simp add: POOL_VALUE_SEP_def starts_sep_iff starts_bar_def split_last_None [THEN iffD2])
qed simp

lemma lua_match_None: "\<not> contains_sep cs \<Longrightarrow> lua_match cs = None"
  by (induction cs) (auto simp: contains_sep_Cons simp del: contains_sep.simps(1))

text \<open>What a bar in front of a separator leaves behind it.\<close>

lemma drop_sep: "drop 2 (POOL_VALUE_SEP @ e) = e" "drop 2 (CHR ''|'' # POOL_VALUE_SEP @ e) = CHR ''|'' # e"
  "starts_sep (POOL_VALUE_SEP @ e)" "POOL_VALUE_SEP @ e = CHR ''|'' # CHR ''|'' # e"
  by (simp_all add: POOL_VALUE_SEP_def starts_sep_def)

lemma no_bar_facts:
  assumes "CHR ''|'' \<notin> set e"
  shows "\<not> contains_sep e" "\<not> starts_bar e" "\<not> contains_sep (CHR ''|'' # e)"
  using assms no_bar_no_sep by (cases e; force simp: starts_bar_def)+

lemma bar_before: "CHR ''|'' \<notin> set e \<Longrightarrow> split_last (drop 2 (CHR ''|'' # POOL_VALUE_SEP @ e)) = None"
  by (metis drop_sep(2) split_last_None no_bar_facts(3))

lemma lua_match_no_sep:
  assumes "CHR ''|'' \<notin> set e" and "\<not> contains_sep n"
  shows "lua_match (n @ POOL_VALUE_SEP @ e) = None"
  using assms(2)
proof (induction n)
  case Nil
  note e = no_bar_facts [OF assms(1)]
  then show ?case
    by (simp add: POOL_VALUE_SEP_def starts_sep_iff starts_bar_def split_last_None lua_match_None)
next
  case (Cons c n)
  then have IH: "lua_match (n @ POOL_VALUE_SEP @ e) = None" and ns: "\<not> starts_sep (c # n)"
    by (simp_all add: contains_sep_Cons)
  have "split_last (drop 2 (c # n @ POOL_VALUE_SEP @ e)) = None" if "starts_sep (c # n @ POOL_VALUE_SEP @ e)"
  proof -
    from that ns have "n = []" "c = CHR ''|''" by (cases n; auto simp: starts_sep_iff starts_bar_def)+
    then show ?thesis using bar_before [OF assms(1)] by (simp only: append_Nil)
  qed
  with IH show ?case by simp
qed

lemma lua_match_sep: "lua_match (POOL_VALUE_SEP @ cs) =
  (case lua_match (CHR ''|'' # cs) of Some (a, b) \<Rightarrow> Some (CHR ''|'' # a, b)
     | None \<Rightarrow> map_option (Pair []) (split_last cs))"
  by (subst drop_sep(4), subst lua_match.simps(2))
    (simp add: starts_sep_iff starts_bar_def del: lua_match.simps cong: option.case_cong)

lemma lua_match_join:
  assumes "CHR ''|'' \<notin> set e" and "\<not> contains_sep n" and "\<not> starts_bar n"
  shows "lua_match (p @ POOL_VALUE_SEP @ n @ POOL_VALUE_SEP @ e) = Some (p, n, e)"
proof (induction p)
  case Nil
  have "lua_match (CHR ''|'' # n @ POOL_VALUE_SEP @ e) = None"
  proof (cases "n = []")
    case True
    have "lua_match (POOL_VALUE_SEP @ e) = None"
      using lua_match_no_sep [OF assms(1), of "[]"] by simp
    with True bar_before [OF assms(1)] show ?thesis
      by (simp only: append_Nil lua_match.simps option.simps if_cancel option.map)
  next
    case False
    with assms(2,3) have "\<not> contains_sep (CHR ''|'' # n)"
      by (simp add: contains_sep_Cons starts_sep_iff)
    from lua_match_no_sep [OF assms(1) this] show ?thesis by simp
  qed
  then show ?case
    using split_last_sep [OF assms(1), of n] by (simp add: lua_match_sep del: lua_match.simps)
next
  case (Cons c p)
  then show ?case by simp
qed

section \<open>Which links survive the encoding\<close>

text \<open>
  The code accepts a pool key when \<open>valid_key\<close> holds. The encoding needs more of a key that is stored
  as a next pointer: it must not start with a bar, since \<open>a||\<close> followed by \<open>|b||\<close> reads back as
  \<open>a|\<close> and \<open>b\<close>. \<open>safe_key\<close> adds that.
\<close>

definition valid_key :: "string \<Rightarrow> bool" where
  "valid_key key \<longleftrightarrow> key \<noteq> '''' \<and> \<not> contains_sep key \<and> key \<noteq> ALLOCATED_SENTINEL \<and> CHR 0x00 \<notin> set key"

definition safe_key :: "string \<Rightarrow> bool" where
  "safe_key key \<longleftrightarrow> valid_key key \<and> \<not> starts_bar key"

datatype py_key = PyStr string | PyOther

fun check_key :: "py_key \<Rightarrow> error option" where
  "check_key PyOther = Some ValueError"
| "check_key (PyStr key) =
     (if key = '''' then Some ValueError
      else if contains_sep key then Some ValueError
      else if key = ALLOCATED_SENTINEL then Some ValueError
      else if CHR 0x00 \<in> set key then Some ValueError
      else None)"

fun validate_keys :: "py_key list \<Rightarrow> error option" where
  "validate_keys [] = None"
| "validate_keys (key # keys) = (case check_key key of Some e \<Rightarrow> Some e | None \<Rightarrow> validate_keys keys)"

fun key_name :: "py_key \<Rightarrow> string" where
  "key_name (PyStr key) = key"
| "key_name PyOther = ''''"

lemma validate_keys_iff:
  "validate_keys ks = None \<longleftrightarrow> (\<forall>k\<in>set ks. \<exists>s. k = PyStr s \<and> valid_key s)"
proof (induction ks)
  case (Cons k ks)
  then show ?case by (cases k) (auto simp: valid_key_def)
qed simp

lemma validate_keys_error: "validate_keys ks = Some e \<Longrightarrow> e = ValueError"
proof (induction ks)
  case (Cons k ks)
  then show ?case by (cases k) (auto split: if_splits)
qed simp

lemma valid_sentinel_link: "\<not> contains_sep ALLOCATED_SENTINEL" "\<not> starts_bar ALLOCATED_SENTINEL"
  "ALLOCATED_SENTINEL \<noteq> ''''"
  by (simp_all add: ALLOCATED_SENTINEL_def starts_bar_def)

lemma join_nonempty: "join_pool_value p n e \<noteq> ''''"
  by (simp add: join_pool_value_def POOL_VALUE_SEP_def)

lemma lua_match_wrong:
  assumes "CHR ''|'' \<notin> set e" and "contains_sep n \<or> starts_bar n"
  shows "\<exists>p' t. lua_match (p @ POOL_VALUE_SEP @ n @ POOL_VALUE_SEP @ e) = Some (p', t) \<and> length p < length p'"
proof (induction p)
  case Nil
  have late: "lua_match (m @ POOL_VALUE_SEP @ e) \<noteq> None" if "contains_sep m" for m
    using that
  proof (induction m)
    case (Cons c m)
    have "split_last (drop 2 (c # m) @ POOL_VALUE_SEP @ e) \<noteq> None"
      using split_last_sep [OF assms(1)] by simp
    moreover have "starts_sep (c # m) \<Longrightarrow> starts_sep (c # m @ POOL_VALUE_SEP @ e)"
      by (cases m) (auto simp: starts_sep_iff starts_bar_def)
    moreover have "starts_sep (c # m) \<Longrightarrow> drop 2 (c # m @ POOL_VALUE_SEP @ e)
        = drop 2 (c # m) @ POOL_VALUE_SEP @ e"
      by (cases m) (auto simp: starts_sep_iff starts_bar_def)
    ultimately show ?case using Cons by (auto simp: contains_sep_Cons split: option.splits)
  qed simp
  have "contains_sep (CHR ''|'' # n)"
    using assms(2) by (simp add: contains_sep_Cons starts_sep_iff) auto
  from late [OF this] obtain t where "lua_match (CHR ''|'' # n @ POOL_VALUE_SEP @ e) = Some t"
    by (auto simp del: lua_match.simps)
  then show ?case by (cases t) (simp add: lua_match_sep del: lua_match.simps)
next
  case (Cons c p)
  then show ?case by auto
qed

text \<open>
  Reading back what was written gives the links again exactly when the next key neither contains a
  separator nor starts with a bar; the previous key can be any text.
\<close>

lemma split_join_iff:
  "split_pool_value (Some (join_pool_value (Some p) (Some n) (Some e))) = (Some p, Some n, Some e)
     \<longleftrightarrow> \<not> contains_sep n \<and> \<not> starts_bar n"
proof -
  let ?t = "tostring e"
  have "split_pool_value (Some (join_pool_value (Some p) (Some n) (Some e))) =
      (case lua_match (p @ POOL_VALUE_SEP @ n @ POOL_VALUE_SEP @ ?t) of
         None \<Rightarrow> (None, None, None) | Some (p, n, e) \<Rightarrow> (Some p, Some n, tonumber e))"
    using join_nonempty [of "Some p" "Some n" "Some e"]
    by (simp add: split_pool_value_def join_pool_value_def lua_str_def)
  then show ?thesis
    using lua_match_join [OF tostring_no_bar, of n p e] lua_match_wrong [OF tostring_no_bar, of n p e]
    by auto
qed

lemma split_join [simp]:
  "\<not> contains_sep n \<Longrightarrow> \<not> starts_bar n \<Longrightarrow>
     split_pool_value (Some (join_pool_value (Some p) (Some n) (Some e))) = (Some p, Some n, Some e)"
  by (simp add: split_join_iff)

lemma safe_key_link:
  "safe_key k \<Longrightarrow> \<not> contains_sep k" "safe_key k \<Longrightarrow> \<not> starts_bar k"
  "safe_key k \<Longrightarrow> k \<noteq> ''''" "safe_key k \<Longrightarrow> k \<noteq> ALLOCATED_SENTINEL" "safe_key k \<Longrightarrow> valid_key k"
  by (simp_all add: safe_key_def valid_key_def)

end
