(* ===== verification/Pool_Scripts.thy ===== *)
theory Pool_Scripts
  imports Redis_API Pool_Encoding
begin

text \<open>
  The Lua functions of \<open>RedisAllocator._lua_required_string\<close>, one definition each, over any server
  \<open>R\<close> and any instance \<open>A\<close>. A Lua nil is \<open>None\<close>; a \<open>redis.call\<close> with a nil argument and a failed
  \<open>assert\<close> abort the script where it stands, with the writes made so far.
\<close>

section \<open>Time and expiry\<close>

definition timeout_to_expiry :: "'s redis \<Rightarrow> int option \<Rightarrow> 's \<Rightarrow> int" where
  "timeout_to_expiry R timeout s =
     (case timeout of None \<Rightarrow> -1 | Some t \<Rightarrow> if t \<le> 0 then -1 else r_time R s + t)"

definition is_expiry_invalid :: "'s redis \<Rightarrow> int option \<Rightarrow> 's \<Rightarrow> bool" where
  "is_expiry_invalid R expiry s = (case expiry of None \<Rightarrow> False | Some e \<Rightarrow> e > 0 \<and> e \<le> r_time R s)"

definition is_expired :: "'s redis \<Rightarrow> string option \<Rightarrow> 's \<Rightarrow> bool" where
  "is_expired R value s = (case split_pool_value value of (_, _, expiry) \<Rightarrow> is_expiry_invalid R expiry s)"

section \<open>The head and tail pointers\<close>

definition current_pointer :: "'s redis \<Rightarrow> string \<Rightarrow> 's \<Rightarrow> string" where
  "current_pointer R pointerKey s = (case r_get R pointerKey s of None \<Rightarrow> '''' | Some pointer \<Rightarrow> pointer)"

definition current_head :: "'s redis \<Rightarrow> 'a lock_cfg_scheme \<Rightarrow> 's \<Rightarrow> string" where
  "current_head R A s = current_pointer R (pool_pointer_str A True) s"

definition current_tail :: "'s redis \<Rightarrow> 'a lock_cfg_scheme \<Rightarrow> 's \<Rightarrow> string" where
  "current_tail R A s = current_pointer R (pool_pointer_str A False) s"

definition set_current_head :: "'s redis \<Rightarrow> 'a lock_cfg_scheme \<Rightarrow> string \<Rightarrow> 's \<Rightarrow> 's" where
  "set_current_head R A pointer s = r_set R (pool_pointer_str A True) pointer s"

definition set_current_tail :: "'s redis \<Rightarrow> 'a lock_cfg_scheme \<Rightarrow> string \<Rightarrow> 's \<Rightarrow> 's" where
  "set_current_tail R A pointer s = r_set R (pool_pointer_str A False) pointer s"

definition empty_list :: "'s redis \<Rightarrow> 'a lock_cfg_scheme \<Rightarrow> 's \<Rightarrow> 's" where
  "empty_list R A s = set_current_tail R A '''' (set_current_head R A '''' s)"

section \<open>Pool hash access\<close>

definition pool_get :: "'s redis \<Rightarrow> 'a lock_cfg_scheme \<Rightarrow> string \<Rightarrow> 's \<Rightarrow> string option" where
  "pool_get R A itemName s = r_hget R (pool_str A) itemName s"

definition pool_put :: "'s redis \<Rightarrow> 'a lock_cfg_scheme \<Rightarrow> string \<Rightarrow>
    string option \<Rightarrow> string option \<Rightarrow> int option \<Rightarrow> 's \<Rightarrow> 's" where
  "pool_put R A itemName prev nxt_key expiry s =
     r_hset R (pool_str A) itemName (join_pool_value prev nxt_key expiry) s"

definition pool_del :: "'s redis \<Rightarrow> 'a lock_cfg_scheme \<Rightarrow> string \<Rightarrow> 's \<Rightarrow> 's" where
  "pool_del R A itemName s = r_hdel R (pool_str A) itemName s"

definition locked :: "'s redis \<Rightarrow> 'a lock_cfg_scheme \<Rightarrow> string \<Rightarrow> 's \<Rightarrow> bool" where
  "locked R A itemName s = r_exists R (key_str A itemName) s"

section \<open>push_to_tail\<close>

definition push_check :: "string option \<Rightarrow> error option" where
  "push_check itemVal =
     (case itemVal of
        None \<Rightarrow> None
      | Some _ \<Rightarrow>
          (case split_pool_value itemVal of (prev, nxt_key, _) \<Rightarrow>
             if \<not> (prev = Some ALLOCATED_SENTINEL \<or> prev = Some '''')
             then Some (LuaAssert ''item should be allocated or free'')
             else if \<not> (nxt_key = Some '''' \<or> nxt_key = Some ALLOCATED_SENTINEL)
             then Some (LuaAssert ''item should be the last item in the free list'')
             else None))"

definition push_to_tail :: "'s redis \<Rightarrow> 'a lock_cfg_scheme \<Rightarrow> string \<Rightarrow> int option \<Rightarrow> 's \<Rightarrow> (unit, 's) outcome" where
  "push_to_tail R A itemName expiry s =
     (let head = current_head R A s; tail = current_tail R A s in
      case push_check (pool_get R A itemName s) of
        Some e \<Rightarrow> Abort e s
      | None \<Rightarrow>
          (let s1 = pool_put R A itemName (Some tail) (Some '''') expiry s in
           then_do
             (if tail = '''' \<or> head = '''' then Done () (set_current_head R A itemName s1)
              else
                (case pool_get R A tail s1 of
                   None \<Rightarrow> Abort (LuaAssert ''tail value should not be nil'') s1
                 | Some tailVal \<Rightarrow>
                     (case split_pool_value (Some tailVal) of (tailPrev, tailNext, tailExpiry) \<Rightarrow>
                        if tailNext \<noteq> Some ''''
                        then Abort (LuaAssert ''tail should be the last item in the free list'') s1
                        else Done () (pool_put R A tail tailPrev (Some itemName) tailExpiry s1))))
             (\<lambda>_ s2. Done () (set_current_tail R A itemName s2))))"

section \<open>set_item_head_nil\<close>

text \<open>Defined by the prologue, called by no script.\<close>

definition set_item_head_nil :: "'s redis \<Rightarrow> 'a lock_cfg_scheme \<Rightarrow> string \<Rightarrow> 's \<Rightarrow> 's" where
  "set_item_head_nil R A nextItemName s =
     (if nextItemName = '''' then empty_list R A s
      else
        (case pool_get R A nextItemName s of
           None \<Rightarrow> empty_list R A s
         | Some nextVal \<Rightarrow>
             (case split_pool_value (Some nextVal) of (prev, nextNext, nextExpiry) \<Rightarrow>
                if prev \<noteq> Some '''' then pool_put R A nextItemName (Some '''') nextNext nextExpiry s
                else s)))"

section \<open>pop_from_head\<close>

definition advance_head_after_removal :: "'s redis \<Rightarrow> 'a lock_cfg_scheme \<Rightarrow> string option \<Rightarrow> 's \<Rightarrow> (unit, 's) outcome" where
  "advance_head_after_removal R A headNext s =
     (case headNext of
        None \<Rightarrow> Abort LuaBadArgument s
      | Some h \<Rightarrow>
          if h = '''' then Done () (empty_list R A s)
          else
            (case pool_get R A h s of
               None \<Rightarrow> Done () (empty_list R A s)
             | Some nextVal \<Rightarrow>
                 (case split_pool_value (Some nextVal) of (_, nNext, nExpiry) \<Rightarrow>
                    Done () (set_current_head R A h (pool_put R A h (Some '''') nNext nExpiry s)))))"

text \<open>The last branch: the head item is taken.\<close>

definition take_head :: "'s redis \<Rightarrow> 'a lock_cfg_scheme \<Rightarrow> string option \<Rightarrow> 's \<Rightarrow> (unit, 's) outcome" where
  "take_head R A headNext s =
     (case headNext of
        None \<Rightarrow> Abort LuaBadArgument s
      | Some h \<Rightarrow>
          if h = '''' then Done () (empty_list R A s)
          else
            (case pool_get R A h s of
               None \<Rightarrow> Abort (LuaAssert ''next value should not be nil'') s
             | Some nextVal \<Rightarrow>
                 (case split_pool_value (Some nextVal) of (_, nextNext, nextExpiry) \<Rightarrow>
                    Done () (set_current_head R A h (pool_put R A h (Some '''') nextNext nextExpiry s)))))"

text \<open>
  The function calls itself after dropping an expired or locked head. The recursion is bounded by
  fuel; \<open>pop_fuel\<close>, one more than the number of pool members, always suffices on a well-formed pool.
\<close>

fun pop_loop :: "'s redis \<Rightarrow> 'a lock_cfg_scheme \<Rightarrow> nat \<Rightarrow> 's \<Rightarrow> ((string \<times> int option) option, 's) outcome" where
  "pop_loop R A 0 s = Abort OutOfFuel s"
| "pop_loop R A (Suc fuel) s =
     (let head = current_head R A s in
      if head = '''' then Done None s
      else
        (case pool_get R A head s of
           None \<Rightarrow> Abort (LuaAssert ''head value should not be nil'') s
         | Some headVal \<Rightarrow>
             (case split_pool_value (Some headVal) of (_, headNext, headExpiry) \<Rightarrow>
                if is_expiry_invalid R headExpiry s then
                  then_do (advance_head_after_removal R A headNext (pool_del R A head s))
                    (\<lambda>_. pop_loop R A fuel)
                else if locked R A head s then
                  then_do (advance_head_after_removal R A headNext
                      (pool_put R A head (Some ALLOCATED_SENTINEL) (Some ALLOCATED_SENTINEL) headExpiry s))
                    (\<lambda>_. pop_loop R A fuel)
                else
                  then_do (take_head R A headNext s)
                    (\<lambda>_ s1. Done (Some (head, headExpiry))
                       (pool_put R A head (Some ALLOCATED_SENTINEL) (Some ALLOCATED_SENTINEL) headExpiry s1)))))"

definition pop_fuel :: "'s redis \<Rightarrow> 'a lock_cfg_scheme \<Rightarrow> 's \<Rightarrow> nat" where
  "pop_fuel R A s = Suc (r_hlen R (pool_str A) s)"

definition pop_from_head :: "'s redis \<Rightarrow> 'a lock_cfg_scheme \<Rightarrow> 's \<Rightarrow> ((string \<times> int option) option, 's) outcome" where
  "pop_from_head R A s = pop_loop R A (pop_fuel R A s) s"

section \<open>set_item_allocated\<close>

definition unlink_prev :: "'s redis \<Rightarrow> 'a lock_cfg_scheme \<Rightarrow> string option \<Rightarrow> string option \<Rightarrow> 's \<Rightarrow> (unit, 's) outcome" where
  "unlink_prev R A prev nxt_key s =
     (case prev of
        None \<Rightarrow> Abort LuaBadArgument s
      | Some p \<Rightarrow>
          if p \<noteq> '''' then
            (case pool_get R A p s of
               None \<Rightarrow> Abort (LuaAssert ''prev value should not be nil'') s
             | Some prevVal \<Rightarrow>
                 (case split_pool_value (Some prevVal) of (prevPrev, _, prevExpiry) \<Rightarrow>
                    Done () (pool_put R A p prevPrev nxt_key prevExpiry s)))
          else
            (case nxt_key of
               None \<Rightarrow> Abort LuaBadArgument s
             | Some n \<Rightarrow> Done () (set_current_head R A n s)))"

definition unlink_next :: "'s redis \<Rightarrow> 'a lock_cfg_scheme \<Rightarrow> string option \<Rightarrow> string option \<Rightarrow> 's \<Rightarrow> (unit, 's) outcome" where
  "unlink_next R A prev nxt_key s =
     (case nxt_key of
        None \<Rightarrow> Abort LuaBadArgument s
      | Some n \<Rightarrow>
          if n \<noteq> '''' then
            (case pool_get R A n s of
               None \<Rightarrow> Abort (LuaAssert ''next value should not be nil'') s
             | Some nextVal \<Rightarrow>
                 (case split_pool_value (Some nextVal) of (_, nextNext, nextExpiry) \<Rightarrow>
                    Done () (pool_put R A n prev nextNext nextExpiry s)))
          else
            (case prev of
               None \<Rightarrow> Abort LuaBadArgument s
             | Some p \<Rightarrow> Done () (set_current_tail R A p s)))"

definition set_item_allocated :: "'s redis \<Rightarrow> 'a lock_cfg_scheme \<Rightarrow> string \<Rightarrow> string option \<Rightarrow> 's \<Rightarrow> (unit, 's) outcome" where
  "set_item_allocated R A itemName val0 s =
     (let val = (case val0 of None \<Rightarrow> pool_get R A itemName s | Some v \<Rightarrow> Some v) in
      if val = None then Abort (LuaAssert ''val should not be nil'') s
      else
        (case split_pool_value val of (prev, nxt_key, expiry) \<Rightarrow>
           if prev \<noteq> Some ALLOCATED_SENTINEL then
             (if nxt_key = Some ALLOCATED_SENTINEL
              then Abort (LuaAssert ''next item should not be allocated'') s
              else
                (let s1 = (if is_expiry_invalid R expiry s then pool_del R A itemName s else s) in
                 then_do (unlink_prev R A prev nxt_key s1)
                   (\<lambda>_ s2. then_do (unlink_next R A prev nxt_key s2)
                     (\<lambda>_ s3. Done ()
                        (pool_put R A itemName (Some ALLOCATED_SENTINEL) (Some ALLOCATED_SENTINEL) expiry s3)))))
           else if nxt_key \<noteq> Some ALLOCATED_SENTINEL
           then Abort (LuaAssert ''next item should also be allocated'') s
           else Done () s))"

section \<open>check_item_health\<close>

definition check_item_health :: "'s redis \<Rightarrow> 'a lock_cfg_scheme \<Rightarrow> string \<Rightarrow> 's \<Rightarrow> (unit, 's) outcome" where
  "check_item_health R A itemName s =
     (case pool_get R A itemName s of
        None \<Rightarrow> Abort (LuaAssert ''value should not be nil'') s
      | Some value \<Rightarrow>
          (case split_pool_value (Some value) of (prev, _, expiry) \<Rightarrow>
             if is_expiry_invalid R expiry s then
               then_do (set_item_allocated R A itemName (Some value) s)
                 (\<lambda>_ s1. Done () (pool_del R A itemName s1))
             else if prev = Some ALLOCATED_SENTINEL then
               (if \<not> locked R A itemName s then push_to_tail R A itemName expiry s else Done () s)
             else
               (if locked R A itemName s then set_item_allocated R A itemName (Some value) s
                else Done () s)))"

section \<open>get_free_list\<close>

fun free_list_loop :: "'s redis \<Rightarrow> 'a lock_cfg_scheme \<Rightarrow> nat \<Rightarrow> string option \<Rightarrow> string list \<Rightarrow> 's \<Rightarrow> string list" where
  "free_list_loop R A 0 current items s = items"
| "free_list_loop R A (Suc n) current items s =
     (case current of
        None \<Rightarrow> items
      | Some c \<Rightarrow>
          if c = '''' then items
          else
            (case pool_get R A c s of
               None \<Rightarrow> items @ [c]
             | Some val \<Rightarrow>
                 (case split_pool_value (Some val) of (_, nxt_key, _) \<Rightarrow>
                    if nxt_key = Some '''' \<or> nxt_key = Some ALLOCATED_SENTINEL then items @ [c]
                    else free_list_loop R A n nxt_key (items @ [c]) s)))"

definition lua_get_free_list :: "'s redis \<Rightarrow> 'a lock_cfg_scheme \<Rightarrow> 's \<Rightarrow> string list" where
  "lua_get_free_list R A s =
     (case r_get R (pool_pointer_str A True) s of
        None \<Rightarrow> []
      | Some current \<Rightarrow>
          if current = '''' then []
          else (let max_iters = r_hlen R (pool_str A) s in
                if max_iters = 0 then [] else free_list_loop R A max_iters (Some current) [] s))"

end
