(* ===== verification/Pool_View.thy ===== *)
theory Pool_View
  imports Pool_Scripts
begin

text \<open>
  What the scripts of one instance see of the key space: its pool hash, its two pointers, its locks,
  its soft bindings and the clock. The lemmas give the effect of each primitive step of the scripts on
  this view, for every server with the laws of \<open>redis_server\<close>; symbolic execution of a script is then
  rewriting with \<open>pool_simps\<close>.
\<close>

record aview =
  av_pool :: "string \<rightharpoonup> string"
  av_head :: string
  av_tail :: string
  av_lock :: "string \<rightharpoonup> string \<times> int option"
  av_bind :: "string \<rightharpoonup> string \<times> int option"
  av_now :: int

definition ptr :: "keyspace \<Rightarrow> string \<Rightarrow> string" where
  "ptr V k = (case strs V k of None \<Rightarrow> '''' | Some (v, _) \<Rightarrow> v)"

definition av :: "'a lock_cfg_scheme \<Rightarrow> keyspace \<Rightarrow> aview" where
  "av A V = \<lparr>av_pool = hashes V (pool_str A), av_head = ptr V (pool_pointer_str A True),
     av_tail = ptr V (pool_pointer_str A False), av_lock = (\<lambda>k. strs V (key_str A k)),
     av_bind = (\<lambda>n. strs V (py_soft_bind_name A n)), av_now = now_ms V\<rparr>"

text \<open>
  The keys of the instance hold values of the right type, and its two pointers have no deadline: nobody
  else writes under its names.
\<close>

definition typed :: "'a lock_cfg_scheme \<Rightarrow> keyspace \<Rightarrow> bool" where
  "typed A V \<longleftrightarrow> hash_key V (pool_str A) \<and> (\<forall>b. str_key V (pool_pointer_str A b)) \<and>
     str_key V (gc_cursor_str A) \<and> (\<forall>k. str_key V (key_str A k)) \<and>
     (\<forall>n. str_key V (py_soft_bind_name A n)) \<and>
     (\<forall>b v d. strs V (pool_pointer_str A b) = Some (v, d) \<longrightarrow> d = None)"

definition expired_at :: "int \<Rightarrow> int option \<Rightarrow> bool" where
  "expired_at now expiry = (case expiry of None \<Rightarrow> False | Some e \<Rightarrow> e > 0 \<and> e \<le> now div 1000)"

lemma typed_keys [pool_simps]:
  assumes "typed A V"
  shows "hash_key V (pool_str A)" "str_key V (pool_pointer_str A b)" "str_key V (gc_cursor_str A)"
    "str_key V (key_str A k)" "str_key V (py_soft_bind_name A n)"
  using assms by (simp_all add: typed_def)

lemma av_sel [simp]:
  "av_pool (av A V) = hashes V (pool_str A)"
  "av_head (av A V) = ptr V (pool_pointer_str A True)"
  "av_tail (av A V) = ptr V (pool_pointer_str A False)"
  "av_lock (av A V) k = strs V (key_str A k)"
  "av_bind (av A V) n = strs V (py_soft_bind_name A n)"
  "av_now (av A V) = now_ms V"
  by (simp_all add: av_def)

lemma typed_put [pool_simps]:
  "typed A V \<Longrightarrow> typed A (put_str (pool_pointer_str A b) v None V)"
  "typed A V \<Longrightarrow> typed A (put_str (key_str A k) v ex V)"
  "typed A V \<Longrightarrow> typed A (put_str (py_soft_bind_name A n) v ex V)"
  "typed A V \<Longrightarrow> typed A (put_str (gc_cursor_str A) v ex V)"
  "typed A V \<Longrightarrow> typed A (put_hash (pool_str A) h V)"
  "typed A V \<Longrightarrow> typed A (erase (key_str A k) V)"
  "typed A V \<Longrightarrow> typed A (erase (py_soft_bind_name A n) V)"
  "typed A V \<Longrightarrow> typed A (erase (pool_str A) V)"
  "typed A V \<Longrightarrow> typed A (elapse d V)"
  by (simp_all add: typed_def redis_simps key_simps deadline_def split: option.split)

lemma av_put [pool_simps]:
  "av A (put_str (pool_pointer_str A True) v ex V) = (av A V)\<lparr>av_head := v\<rparr>"
  "av A (put_str (pool_pointer_str A False) v ex V) = (av A V)\<lparr>av_tail := v\<rparr>"
  "av A (put_str (key_str A k) v ex V) = (av A V)\<lparr>av_lock := (av_lock (av A V))(k \<mapsto> (v, deadline V ex))\<rparr>"
  "av A (put_str (py_soft_bind_name A n) v ex V) = (av A V)\<lparr>av_bind := (av_bind (av A V))(n \<mapsto> (v, deadline V ex))\<rparr>"
  "av A (put_str (gc_cursor_str A) v ex V) = av A V"
  "av A (put_hash (pool_str A) h V) = (av A V)\<lparr>av_pool := h\<rparr>"
  "av A (erase (key_str A k) V) = (av A V)\<lparr>av_lock := (av_lock (av A V))(k := None)\<rparr>"
  "av A (erase (py_soft_bind_name A n) V) = (av A V)\<lparr>av_bind := (av_bind (av A V))(n := None)\<rparr>"
  "av A (erase (pool_str A) V) = (av A V)\<lparr>av_pool := Map.empty\<rparr>"
  by (auto simp: av_def ptr_def redis_simps key_simps fun_eq_iff)

context redis_server
begin

lemma expiry_simps [pool_simps]:
  "is_expiry_invalid R expiry s = expired_at (now_ms (view s)) expiry"
  "timeout_to_expiry R timeout s =
     (case timeout of None \<Rightarrow> -1 | Some t \<Rightarrow> if t \<le> 0 then -1 else now_ms (view s) div 1000 + t)"
  by (simp_all add: is_expiry_invalid_def expired_at_def timeout_to_expiry_def time split: option.split)

lemma read_simps [pool_simps]:
  assumes "typed A (view s)"
  shows "pool_get R A k s = av_pool (av A (view s)) k"
    and "current_head R A s = av_head (av A (view s))"
    and "current_tail R A s = av_tail (av A (view s))"
    and "locked R A k s = (av_lock (av A (view s)) k \<noteq> None)"
    and "r_hlen R (pool_str A) s = card (dom (av_pool (av A (view s))))"
    and "r_hexists R (pool_str A) k s = (av_pool (av A (view s)) k \<noteq> None)"
    and "r_exists R (key_str A k) s = (av_lock (av A (view s)) k \<noteq> None)"
    and "r_get R (py_soft_bind_name A n) s = map_option fst (av_bind (av A (view s)) n)"
    and "fst (r_del R (key_str A k) s) = (av_lock (av A (view s)) k \<noteq> None)"
  using typed_keys [OF assms]
  by (auto simp: pool_get_def current_head_def current_tail_def current_pointer_def locked_def
      hget get ptr_def hlen hexists exists_cmd present_str
      del_reply redis_simps split: option.splits)

lemma write_simps [pool_simps]:
  assumes "typed A (view s)"
  shows "typed A (view (pool_put R A k p n e s))" "typed A (view (pool_del R A k s))"
    "typed A (view (set_current_head R A x s))" "typed A (view (set_current_tail R A x s))"
    "typed A (view (empty_list R A s))"
    "typed A (view (snd (r_del R (key_str A k) s)))" "typed A (view (r_set R (key_str A k) v s))"
    "typed A (view (snd (r_del R (py_soft_bind_name A b) s)))" "typed A (view (r_set R (py_soft_bind_name A b) v s))"
    "typed A (view (r_set R (gc_cursor_str A) v s))" "typed A (view (snd (r_del R (pool_str A) s)))"
    and "av A (view (pool_put R A k p n e s)) = (av A (view s))
      \<lparr>av_pool := (av_pool (av A (view s)))(k \<mapsto> join_pool_value p n e)\<rparr>"
    and "av A (view (pool_del R A k s)) = (av A (view s))\<lparr>av_pool := (av_pool (av A (view s)))(k := None)\<rparr>"
    and "av A (view (set_current_head R A x s)) = (av A (view s))\<lparr>av_head := x\<rparr>"
    and "av A (view (set_current_tail R A x s)) = (av A (view s))\<lparr>av_tail := x\<rparr>"
    and "av A (view (empty_list R A s)) = (av A (view s))\<lparr>av_head := '''', av_tail := ''''\<rparr>"
    and "av A (view (snd (r_del R (key_str A k) s))) = (av A (view s))
      \<lparr>av_lock := (av_lock (av A (view s)))(k := None)\<rparr>"
    and "av A (view (r_set R (key_str A k) v s)) = (av A (view s))
      \<lparr>av_lock := (av_lock (av A (view s)))(k \<mapsto> (v, None))\<rparr>"
    and "av A (view (snd (r_del R (py_soft_bind_name A b) s))) = (av A (view s))
      \<lparr>av_bind := (av_bind (av A (view s)))(b := None)\<rparr>"
    and "av A (view (r_set R (py_soft_bind_name A b) v s)) = (av A (view s))
      \<lparr>av_bind := (av_bind (av A (view s)))(b \<mapsto> (v, None))\<rparr>"
    and "av A (view (r_set R (gc_cursor_str A) v s)) = av A (view s)"
    and "av A (view (snd (r_del R (pool_str A) s))) = (av A (view s))\<lparr>av_pool := Map.empty\<rparr>"
  using typed_keys [OF assms] assms
  by (simp_all add: pool_put_def pool_del_def set_current_head_def set_current_tail_def empty_list_def
      hset hdel set_cmd del pool_simps deadline_def del: av_sel) (simp_all add: av_def)

text \<open>\<open>SET key value EX n\<close> on a lock and on a soft binding.\<close>

lemma setex_lock:
  assumes "typed A (view s)" and "0 < n"
  obtains s' where "r_setex R (key_str A k) v n s = Some s'" and "typed A (view s')"
    and "av A (view s') = (av A (view s))
      \<lparr>av_lock := (av_lock (av A (view s)))(k \<mapsto> (v, Some (now_ms (view s) + 1000 * n)))\<rparr>"
  using setex [OF assms(2), of "key_str A k" v s] assms(1) that
  by (auto simp: pool_simps deadline_def)

lemma setex_bind:
  assumes "typed A (view s)" and "0 < n"
  obtains s' where "r_setex R (py_soft_bind_name A b) v n s = Some s'" and "typed A (view s')"
    and "av A (view s') = (av A (view s))
      \<lparr>av_bind := (av_bind (av A (view s)))(b \<mapsto> (v, Some (now_ms (view s) + 1000 * n)))\<rparr>"
  using setex [OF assms(2), of "py_soft_bind_name A b" v s] assms(1) that
  by (auto simp: pool_simps deadline_def)

end

end
