(* ===== verification/Links.thy ===== *)
theory Links
  imports Prelude
begin

text \<open>
  The neighbours of an element in a list of names, with the empty string where there is none. This
  is the content of the prev and next fields the pool hash keeps for a free item, and the first and
  last elements are the head and tail pointers. The lemmas say how the neighbours change when an
  item is added at the end, when the first one leaves and when one in the middle is cut out.
\<close>

definition hd0 :: "string list \<Rightarrow> string" where
  "hd0 xs = (case xs of [] \<Rightarrow> '''' | x # _ \<Rightarrow> x)"

definition last0 :: "string list \<Rightarrow> string" where
  "last0 xs = (if xs = [] then '''' else last xs)"

fun nxt :: "string list \<Rightarrow> string \<Rightarrow> string" where
  "nxt [] k = ''''"
| "nxt (x # xs) k = (if x = k then hd0 xs else nxt xs k)"

definition prv :: "string list \<Rightarrow> string \<Rightarrow> string" where
  "prv xs k = nxt (rev xs) k"

lemma hd0_simps [simp]: "hd0 [] = ''''" "hd0 (x # xs) = x"
  by (simp_all add: hd0_def)

lemma last0_simps [simp]: "last0 [] = ''''" "last0 (xs @ [x]) = x" "last0 [x] = x"
  by (simp_all add: last0_def)

lemma hd0_append: "hd0 (xs @ ys) = (if xs = [] then hd0 ys else hd0 xs)"
  by (cases xs) simp_all

lemma last0_append: "last0 (xs @ ys) = (if ys = [] then last0 xs else last0 ys)"
  by (simp add: last0_def)

lemma hd0_rev: "hd0 (rev xs) = last0 xs"
  by (cases xs rule: rev_cases) simp_all

lemma hd0_in_set: "xs \<noteq> [] \<Longrightarrow> hd0 xs \<in> set xs"
  by (cases xs) simp_all

lemma last0_in_set: "xs \<noteq> [] \<Longrightarrow> last0 xs \<in> set xs"
  by (simp add: last0_def)

text \<open>The four facts the scripts need, for the list \<open>us @ k # vs\<close> without repetition.\<close>

lemma nxt_at: "k \<notin> set us \<Longrightarrow> nxt (us @ k # vs) k = hd0 vs"
  by (induction us) auto

lemma nxt_before: "k \<in> set us \<Longrightarrow> distinct us \<Longrightarrow>
  nxt (us @ vs) k = (if k = last us then hd0 vs else nxt us k)"
proof (induction us)
  case Nil
  then show ?case by simp
next
  case (Cons u us)
  then show ?case by (cases us) auto
qed

lemma nxt_after: "k \<notin> set us \<Longrightarrow> nxt (us @ vs) k = nxt vs k"
  by (induction us) auto

lemma prv_at: "k \<notin> set vs \<Longrightarrow> prv (us @ k # vs) k = last0 us"
  by (simp add: prv_def nxt_at hd0_rev)

lemma prv_after: "k \<in> set vs \<Longrightarrow> distinct vs \<Longrightarrow>
  prv (us @ vs) k = (if k = hd vs then last0 us else prv vs k)"
  using nxt_before [of k "rev vs" "rev us"]
  by (cases "vs = []") (simp_all add: prv_def last_rev hd0_rev)

lemma prv_before: "k \<notin> set vs \<Longrightarrow> prv (us @ vs) k = prv us k"
  by (simp add: prv_def nxt_after)

lemma nxt_mem: "nxt xs k = '''' \<or> nxt xs k \<in> set xs"
proof (induction xs)
  case (Cons x xs)
  then show ?case by (cases xs) auto
qed simp

lemma prv_mem: "prv xs k = '''' \<or> prv xs k \<in> set xs"
  using nxt_mem [of "rev xs" k] by (simp add: prv_def)

lemma nxt_notin: "k \<notin> set xs \<Longrightarrow> nxt xs k = ''''"
  by (induction xs) auto

lemma nxt_last: "distinct xs \<Longrightarrow> xs \<noteq> [] \<Longrightarrow> nxt xs (last xs) = ''''"
  by (induction xs) auto

lemma prv_hd: "distinct xs \<Longrightarrow> xs \<noteq> [] \<Longrightarrow> prv xs (hd xs) = ''''"
  using nxt_last [of "rev xs"] by (simp add: prv_def last_rev)

text \<open>Appending an item at the tail.\<close>

lemma nxt_snoc [link_simps]: "distinct xs \<Longrightarrow> k \<in> set xs \<Longrightarrow>
  nxt (xs @ [y]) k = (if k = last0 xs then y else nxt xs k)"
  by (simp add: nxt_before last0_def) (auto simp: last0_def)

lemma prv_snoc [link_simps]: "k \<noteq> y \<Longrightarrow> prv (xs @ [y]) k = prv xs k"
  by (simp add: prv_before)

lemma snoc_ends [link_simps]: "y \<notin> set xs \<Longrightarrow> nxt (xs @ [y]) y = ''''" "prv (xs @ [y]) y = last0 xs"
  by (simp_all add: nxt_at prv_at)

text \<open>Dropping the first item.\<close>

lemma nxt_tl [link_simps]: "k \<noteq> x \<Longrightarrow> nxt (x # xs) k = nxt xs k"
  by simp

lemma prv_tl [link_simps]: "distinct (x # xs) \<Longrightarrow> k \<in> set xs \<Longrightarrow>
  prv xs k = (if k = hd0 xs then '''' else prv (x # xs) k)"
  using prv_after [of k xs "[x]"] prv_hd [of xs] by (cases xs) (auto simp: hd0_def)

text \<open>Cutting one item out of the middle: its neighbours are joined, the others keep theirs.\<close>

lemma nxt_cut [link_simps]:
  assumes "distinct (us @ k # vs)" and "'''' \<notin> set us" and "j \<in> set us \<or> j \<in> set vs"
  shows "nxt (us @ vs) j = (if j \<noteq> '''' \<and> j = last0 us then hd0 vs else nxt (us @ k # vs) j)"
proof (cases "j \<in> set us")
  case True
  with assms show ?thesis by (auto simp: nxt_before last0_def)
next
  case False
  with assms have "j \<noteq> k" by auto
  with False have "nxt (us @ vs) j = nxt vs j" "nxt (us @ k # vs) j = nxt vs j"
    by (simp_all add: nxt_after)
  moreover have "j \<noteq> '''' \<Longrightarrow> j \<noteq> last0 us"
    using False last0_in_set [of us] by (cases "us = []") auto
  ultimately show ?thesis by metis
qed

lemma prv_cut [link_simps]:
  assumes "distinct (us @ k # vs)" and "'''' \<notin> set vs" and "j \<in> set us \<or> j \<in> set vs"
  shows "prv (us @ vs) j = (if j \<noteq> '''' \<and> j = hd0 vs then last0 us else prv (us @ k # vs) j)"
proof -
  have "last0 (rev vs) = hd0 vs" using hd0_rev [of "rev vs"] by simp
  with nxt_cut [of "rev vs" k "rev us" j] assms show ?thesis
    by (simp add: prv_def hd0_rev Int_commute disj_commute)
qed

end
