(* ===== verification/Pool_Spec.thy ===== *)
theory Pool_Spec
  imports Pool_View Links
begin

text \<open>
  The abstract allocator and its representation in Redis. An abstract pool is the free list in order,
  the members with their expiry, the locks, the soft bindings and the clock. \<open>conc\<close> is the one encoding
  of an abstract pool as the pool hash with its two pointers: a free member carries its two neighbours,
  an allocated one the sentinel twice. \<open>rep A V p\<close> says that the key space \<open>V\<close> holds the encoding of the
  well-formed pool \<open>p\<close> under the names of the instance \<open>A\<close>. The \<open>spec_\<close> functions are what the
  scripts promise, stated on the abstract pool.
\<close>

record apool =
  free :: "string list"
  members :: "string \<rightharpoonup> int"
  alock :: "string \<rightharpoonup> string \<times> int option"
  abind :: "string \<rightharpoonup> string \<times> int option"
  anow :: int

definition wf_pool :: "apool \<Rightarrow> bool" where
  "wf_pool p \<longleftrightarrow> distinct (free p) \<and> set (free p) \<subseteq> dom (members p) \<and> finite (dom (members p)) \<and>
     (\<forall>k\<in>dom (members p). safe_key k)"

definition link_of :: "string list \<Rightarrow> string \<Rightarrow> string \<times> string" where
  "link_of fl k = (if k \<in> set fl then (prv fl k, nxt fl k) else (ALLOCATED_SENTINEL, ALLOCATED_SENTINEL))"

definition enc :: "string list \<Rightarrow> string \<Rightarrow> int \<Rightarrow> string" where
  "enc fl k e = join_pool_value (Some (fst (link_of fl k))) (Some (snd (link_of fl k))) (Some e)"

definition enc_pool :: "string list \<Rightarrow> (string \<rightharpoonup> int) \<Rightarrow> (string \<rightharpoonup> string)" where
  "enc_pool fl ms k = map_option (enc fl k) (ms k)"

definition conc :: "apool \<Rightarrow> aview" where
  "conc p = \<lparr>av_pool = enc_pool (free p) (members p), av_head = hd0 (free p), av_tail = last0 (free p),
     av_lock = alock p, av_bind = abind p, av_now = anow p\<rparr>"

definition rep :: "'a lock_cfg_scheme \<Rightarrow> keyspace \<Rightarrow> apool \<Rightarrow> bool" where
  "rep A V p \<longleftrightarrow> typed A V \<and> av A V = conc p \<and> wf_pool p"

lemma conc_sel [simp]:
  "av_pool (conc p) = enc_pool (free p) (members p)" "av_head (conc p) = hd0 (free p)"
  "av_tail (conc p) = last0 (free p)" "av_lock (conc p) = alock p" "av_bind (conc p) = abind p"
  "av_now (conc p) = anow p"
  by (simp_all add: conc_def)

lemma repD: "rep A V p \<Longrightarrow> typed A V" "rep A V p \<Longrightarrow> av A V = conc p" "rep A V p \<Longrightarrow> wf_pool p"
  by (simp_all add: rep_def)

lemma repI: "typed A V \<Longrightarrow> av A V = conc p \<Longrightarrow> wf_pool p \<Longrightarrow> rep A V p"
  by (simp add: rep_def)

text \<open>The representation determines the free list, the members and everything else: it is a function of the state.\<close>

lemma rep_lock: "rep A V p \<Longrightarrow> strs V (key_str A k) = alock p k"
  by (metis av_sel(4) conc_sel(4) rep_def)

lemma rep_bind: "rep A V p \<Longrightarrow> strs V (py_soft_bind_name A n) = abind p n"
  by (metis av_sel(5) conc_sel(5) rep_def)

lemma rep_now: "rep A V p \<Longrightarrow> now_ms V = anow p"
  by (metis av_sel(6) conc_sel(6) rep_def)

section \<open>Well-formed pools\<close>

lemma wf_poolD:
  assumes "wf_pool p"
  shows "distinct (free p)" "k \<in> set (free p) \<Longrightarrow> k \<in> dom (members p)" "finite (dom (members p))"
    "k \<in> dom (members p) \<Longrightarrow> safe_key k" "'''' \<notin> set (free p)"
    "ALLOCATED_SENTINEL \<notin> set (free p)" "members p '''' = None" "members p ALLOCATED_SENTINEL = None"
  using assms safe_key_link(3,4) unfolding wf_pool_def by (blast, blast, blast, blast, blast, blast, blast, blast)

lemma link_nxt_ok:
  assumes "wf_pool p"
  shows "\<not> contains_sep (snd (link_of (free p) k))" "\<not> starts_bar (snd (link_of (free p) k))"
proof -
  have "nxt (free p) k = '''' \<or> safe_key (nxt (free p) k)"
    using nxt_mem [of "free p" k] wf_poolD(2,4) [OF assms] by metis
  then show "\<not> contains_sep (snd (link_of (free p) k))" "\<not> starts_bar (snd (link_of (free p) k))"
    using valid_sentinel_link safe_key_link(1,2) by (auto simp: link_of_def starts_bar_def)
qed

lemma split_enc [pool_simps]:
  "wf_pool p \<Longrightarrow> split_pool_value (Some (enc (free p) k e)) =
     (Some (fst (link_of (free p) k)), Some (snd (link_of (free p) k)), Some e)"
  by (simp add: enc_def link_nxt_ok)

lemma dom_enc_pool [simp]: "dom (enc_pool fl ms) = dom ms"
  by (auto simp: enc_pool_def)

lemma enc_pool_Some: "ms k = Some e \<Longrightarrow> enc_pool fl ms k = Some (enc fl k e)"
  by (simp add: enc_pool_def)

lemma enc_pool_None: "enc_pool fl ms k = None \<longleftrightarrow> ms k = None"
  by (simp add: enc_pool_def)

text \<open>Two encodings agree when the neighbours of every member do.\<close>

lemma enc_pool_cong:
  "(\<And>k e. ms k = Some e \<Longrightarrow> link_of fl k = link_of fl' k) \<Longrightarrow> enc_pool fl ms = enc_pool fl' ms"
  by (auto simp: enc_pool_def enc_def fun_eq_iff intro!: option.map_cong)

section \<open>What the scripts promise\<close>

definition spec_push :: "string \<Rightarrow> int \<Rightarrow> apool \<Rightarrow> apool" where
  "spec_push k e p = p\<lparr>free := free p @ [k], members := (members p)(k \<mapsto> e)\<rparr>"

definition spec_remove :: "string \<Rightarrow> apool \<Rightarrow> apool" where
  "spec_remove k p = p\<lparr>free := remove1 k (free p), members := (members p)(k := None)\<rparr>"

definition spec_take :: "string \<Rightarrow> apool \<Rightarrow> apool" where
  "spec_take k p = p\<lparr>free := remove1 k (free p)\<rparr>"

definition expired :: "apool \<Rightarrow> string \<Rightarrow> bool" where
  "expired p k = expired_at (anow p) (members p k)"

text \<open>An item that \<open>malloc\<close> may hand out.\<close>

definition available :: "apool \<Rightarrow> string \<Rightarrow> bool" where
  "available p k \<longleftrightarrow> \<not> expired p k \<and> alock p k = None"

text \<open>
  \<open>pop_from_head\<close>: the items before the first available one leave the free list; the expired ones also
  leave the pool. The first available one is taken.
\<close>

definition drop_stale :: "string list \<Rightarrow> apool \<Rightarrow> apool" where
  "drop_stale ks p = p\<lparr>free := drop (length ks) (free p),
     members := (\<lambda>k. if k \<in> set ks \<and> expired p k then None else members p k)\<rparr>"

definition spec_pop :: "apool \<Rightarrow> string option \<times> apool" where
  "spec_pop p =
     (let stale = takeWhile (\<lambda>k. \<not> available p k) (free p); q = drop_stale stale p in
      case dropWhile (\<lambda>k. \<not> available p k) (free p) of
        [] \<Rightarrow> (None, q)
      | k # _ \<Rightarrow> (Some k, spec_take k q))"

definition spec_check :: "string \<Rightarrow> apool \<Rightarrow> apool" where
  "spec_check k p =
     (if expired p k then spec_remove k p
      else if k \<in> set (free p) then (if alock p k \<noteq> None then spec_take k p else p)
      else if alock p k = None then spec_push k (the (members p k)) p
      else p)"

lemma wf_push: "wf_pool p \<Longrightarrow> k \<notin> set (free p) \<Longrightarrow> safe_key k \<Longrightarrow> wf_pool (spec_push k e p)"
  by (auto simp: wf_pool_def spec_push_def)

lemma wf_remove: "wf_pool p \<Longrightarrow> wf_pool (spec_remove k p)"
  by (auto simp: wf_pool_def spec_remove_def intro: rev_finite_subset)

lemma wf_take: "wf_pool p \<Longrightarrow> wf_pool (spec_take k p)"
  using set_remove1_subset [of k "free p"] by (auto simp: wf_pool_def spec_take_def)

lemma wf_check: "wf_pool p \<Longrightarrow> k \<in> dom (members p) \<Longrightarrow> wf_pool (spec_check k p)"
  by (auto simp: spec_check_def wf_remove wf_take intro!: wf_push wf_poolD(4))

text \<open>The two cases of \<open>pop_from_head\<close>, as a recursion on the free list.\<close>

definition drop_head :: "string \<Rightarrow> apool \<Rightarrow> apool" where
  "drop_head k p = p\<lparr>free := tl (free p),
     members := (if expired p k then (members p)(k := None) else members p)\<rparr>"

lemma spec_pop_Nil: "free p = [] \<Longrightarrow> spec_pop p = (None, p)"
  by (simp add: spec_pop_def drop_stale_def)

lemma spec_pop_available: "free p = k # rest \<Longrightarrow> available p k \<Longrightarrow> spec_pop p = (Some k, p\<lparr>free := rest\<rparr>)"
  by (simp add: spec_pop_def drop_stale_def spec_take_def)

lemma drop_head_other: "j \<noteq> k \<Longrightarrow> members (drop_head k p) j = members p j"
  "j \<noteq> k \<Longrightarrow> available (drop_head k p) j = available p j"
  "j \<noteq> k \<Longrightarrow> expired (drop_head k p) j = expired p j"
  by (simp_all add: drop_head_def available_def expired_def)

lemma spec_pop_stale:
  assumes fl: "free p = k # rest" and d: "distinct (k # rest)" and stale: "\<not> available p k"
  shows "spec_pop p = spec_pop (drop_head k p)"
proof -
  let ?q = "drop_head k p"
  have other: "j \<in> set rest \<Longrightarrow> available ?q j = available p j" for j
    using d drop_head_other(2) [of j k p] by auto
  have tw: "takeWhile (\<lambda>k. \<not> available ?q k) rest = takeWhile (\<lambda>k. \<not> available p k) rest"
    using other by (auto intro: takeWhile_cong)
  have dw: "dropWhile (\<lambda>k. \<not> available ?q k) rest = dropWhile (\<lambda>k. \<not> available p k) rest"
    using other by (auto intro: dropWhile_cong)
  let ?ts = "takeWhile (\<lambda>k. \<not> available p k) rest"
  have "k \<notin> set ?ts" using d set_takeWhileD by fastforce
  then have "(if j \<in> set (k # ?ts) \<and> expired p j then None else members p j) =
      (if j \<in> set ?ts \<and> expired ?q j then None else members ?q j)" for j
    using drop_head_other(1,3) [of j k p] by (cases "j = k") (auto simp: drop_head_def)
  then have "drop_stale (k # ?ts) p = drop_stale ?ts ?q"
    unfolding drop_stale_def by (simp only:) (simp add: drop_head_def fl)
  moreover have "free ?q = rest" by (simp add: drop_head_def fl)
  ultimately show ?thesis using stale by (simp add: spec_pop_def fl tw dw)
qed

lemma spec_pop_Some:
  assumes "fst (spec_pop p) = Some k"
  shows "k \<in> set (free p)" "available p k"
proof -
  from assms obtain ks where ks: "dropWhile (\<lambda>k. \<not> available p k) (free p) = k # ks"
    by (auto simp: spec_pop_def Let_def split: list.splits)
  then show "k \<in> set (free p)" using set_dropWhileD by (metis list.set_intros(1))
  from ks show "available p k" by (metis dropWhile_eq_Cons_conv)
qed

lemma wf_drop_head: "wf_pool p \<Longrightarrow> free p = k # rest \<Longrightarrow> wf_pool (drop_head k p)"
  by (auto simp: wf_pool_def drop_head_def intro: rev_finite_subset)

end
