(* ===== verification/Lock_Contract.thy ===== *)
theory Lock_Contract
  imports Prelude
begin

text \<open>
  What a client of \<open>BaseLock\<close> may rely on, whichever class implements it: \<open>lock\<close> succeeds exactly on
  a free key, \<open>rlock\<close> on a free key and for the present owner, \<open>unlock\<close> frees. The consequences a client
  cares about are proved once from these laws: a sequence of requests has one owner per key.
\<close>

text \<open>Requests of several clients to one lock service, in the order the service serves them.\<close>

datatype ('k, 'v, 't) request = Lock 'k 'v 't | Rlock 'k 'v 't | Unlock 'k

fun request_key :: "('k, 'v, 't) request \<Rightarrow> 'k" where
  "request_key (Lock k v t) = k"
| "request_key (Rlock k v t) = k"
| "request_key (Unlock k) = k"

fun request_ok :: "('t \<Rightarrow> bool) \<Rightarrow> ('k, 'v, 't) request \<Rightarrow> bool" where
  "request_ok valid (Lock k v t) = valid t"
| "request_ok valid (Rlock k v t) = valid t"
| "request_ok valid (Unlock k) = True"

fun serve ::
  "('k \<Rightarrow> 'v \<Rightarrow> 't \<Rightarrow> 's \<Rightarrow> (bool, 's) outcome) \<Rightarrow> ('k \<Rightarrow> 'v \<Rightarrow> 't \<Rightarrow> 's \<Rightarrow> (bool, 's) outcome) \<Rightarrow>
    ('k \<Rightarrow> 's \<Rightarrow> (bool, 's) outcome) \<Rightarrow> ('k, 'v, 't) request \<Rightarrow> 's \<Rightarrow> (bool, 's) outcome" where
  "serve lck rlck unlck (Lock k v t) s = lck k v t s"
| "serve lck rlck unlck (Rlock k v t) s = rlck k v t s"
| "serve lck rlck unlck (Unlock k) s = unlck k s"

text \<open>The replies to a sequence of requests.\<close>

fun serve_all where
  "serve_all lck rlck unlck [] s = Done [] s"
| "serve_all lck rlck unlck (a # acts) s =
     then_do (serve lck rlck unlck a s) (\<lambda>b s1. then_do (serve_all lck rlck unlck acts s1) (\<lambda>bs s2. Done (b # bs) s2))"

locale lock_service =
  fixes ok :: "'s \<Rightarrow> bool" and holder_of :: "'s \<Rightarrow> 'k \<rightharpoonup> 'v" and valid :: "'t \<Rightarrow> bool"
    and lck rlck :: "'k \<Rightarrow> 'v \<Rightarrow> 't \<Rightarrow> 's \<Rightarrow> (bool, 's) outcome"
    and unlck :: "'k \<Rightarrow> 's \<Rightarrow> (bool, 's) outcome"
  assumes lock_free_law: "ok s \<Longrightarrow> valid t \<Longrightarrow> holder_of s k = None \<Longrightarrow>
      \<exists>s'. lck k v t s = Done True s' \<and> ok s' \<and> holder_of s' = (holder_of s)(k \<mapsto> v)"
    and lock_taken_law: "ok s \<Longrightarrow> valid t \<Longrightarrow> holder_of s k \<noteq> None \<Longrightarrow>
      \<exists>s'. lck k v t s = Done False s' \<and> ok s' \<and> holder_of s' = holder_of s"
    and rlock_free_law: "ok s \<Longrightarrow> valid t \<Longrightarrow> holder_of s k = None \<Longrightarrow>
      \<exists>s'. rlck k v t s = Done True s' \<and> ok s' \<and> holder_of s' = (holder_of s)(k \<mapsto> v)"
    and rlock_taken_law: "ok s \<Longrightarrow> valid t \<Longrightarrow> holder_of s k = Some w \<Longrightarrow>
      \<exists>s'. rlck k v t s = Done (w = v) s' \<and> ok s' \<and> holder_of s' = holder_of s"
    and unlock_law: "ok s \<Longrightarrow>
      \<exists>b s'. unlck k s = Done b s' \<and> ok s' \<and> holder_of s' = (holder_of s)(k := None) \<and> (holder_of s k \<noteq> None \<longrightarrow> b)"
begin

text \<open>Every request is served; what it does to one key.\<close>

lemma served:
  assumes "ok s" and "request_ok valid a"
  obtains b s' where "serve lck rlck unlck a s = Done b s'" "ok s'"
    "\<And>k. request_key a \<noteq> k \<Longrightarrow> holder_of s' k = holder_of s k"
proof (cases a)
  case (Lock k v t)
  with assms lock_free_law [of s t k v] lock_taken_law [of s t k v] that show thesis
    by (cases "holder_of s k") fastforce+
next
  case (Rlock k v t)
  with assms rlock_free_law [of s t k v] rlock_taken_law [of s t k _ v] that show thesis
    by (cases "holder_of s k") fastforce+
next
  case (Unlock k)
  from unlock_law [OF assms(1), of k] obtain b s' where
    "unlck k s = Done b s'" "ok s'" "holder_of s' = (holder_of s)(k := None)" by blast
  with Unlock that show thesis by simp
qed

text \<open>While \<open>k\<close> is held and nobody unlocks it, only its owner's \<open>rlock\<close> succeeds on it.\<close>

lemma held:
  assumes "ok s" and "request_ok valid a" and "holder_of s k = Some v" and "a \<noteq> Unlock k"
  shows "\<exists>b s'. serve lck rlck unlck a s = Done b s' \<and> ok s' \<and> holder_of s' k = Some v \<and>
    (request_key a = k \<longrightarrow> b = (\<exists>t. a = Rlock k v t))"
proof (cases "request_key a = k")
  case True
  with assms lock_taken_law [of s _ k] rlock_taken_law [of s _ k v] show ?thesis by (cases a) fastforce+
next
  case False
  with served [OF assms(1,2)] assms(3) show ?thesis by metis
qed

lemma one_owner:
  assumes "ok s" and "\<forall>a\<in>set acts. request_ok valid a" and "holder_of s k = Some v"
    and "Unlock k \<notin> set acts"
  shows "\<exists>bs s'. serve_all lck rlck unlck acts s = Done bs s' \<and> length bs = length acts \<and> ok s' \<and>
    holder_of s' k = Some v \<and>
    (\<forall>i<length acts. request_key (acts ! i) = k \<longrightarrow> bs ! i = (\<exists>t. acts ! i = Rlock k v t))"
  using assms
proof (induction acts arbitrary: s)
  case Nil
  then show ?case by simp
next
  case (Cons a acts)
  from Cons.prems held [of s a k v] obtain b s1 where
    s1: "serve lck rlck unlck a s = Done b s1" "ok s1" "holder_of s1 k = Some v"
    and b: "request_key a = k \<longrightarrow> b = (\<exists>t. a = Rlock k v t)" by auto
  from Cons.IH [OF s1(2) _ s1(3)] Cons.prems obtain bs s2 where
    "serve_all lck rlck unlck acts s1 = Done bs s2" "length bs = length acts" "ok s2" "holder_of s2 k = Some v"
    "\<forall>i<length acts. request_key (acts ! i) = k \<longrightarrow> bs ! i = (\<exists>t. acts ! i = Rlock k v t)" by auto
  with s1 b show ?case by (auto simp: less_Suc_eq_0_disj nth_Cons')
qed

text \<open>Of several clients asking for a free key, the first gets it whichever way it asks, and the others are refused.\<close>

lemma first_wins:
  assumes "ok s" and "valid t" and "\<forall>a\<in>set acts. request_ok valid a \<and> request_key a = k \<and> a \<noteq> Unlock k"
    and "holder_of s k = None" and "first \<in> {Lock k v t, Rlock k v t}"
  shows "\<exists>bs s'. serve_all lck rlck unlck (first # acts) s = Done (True # bs) s' \<and> length bs = length acts \<and>
    holder_of s' k = Some v \<and> (\<forall>i<length acts. bs ! i = (\<exists>t. acts ! i = Rlock k v t))"
proof -
  from lock_free_law [OF assms(1,2,4), of v] rlock_free_law [OF assms(1,2,4), of v] assms(5) obtain s1 where
    s1: "serve lck rlck unlck first s = Done True s1" "ok s1" "holder_of s1 k = Some v" by auto
  have "\<forall>a\<in>set acts. request_ok valid a" and "Unlock k \<notin> set acts" using assms(3) by auto
  from one_owner [OF s1(2) this(1) s1(3) this(2)] obtain bs s' where
    "serve_all lck rlck unlck acts s1 = Done bs s'" "length bs = length acts" "holder_of s' k = Some v"
    "\<forall>i<length acts. request_key (acts ! i) = k \<longrightarrow> bs ! i = (\<exists>t. acts ! i = Rlock k v t)" by blast
  with s1(1) assms(3) show ?thesis by auto
qed

text \<open>After \<open>unlock\<close> the key can be taken by anyone.\<close>

lemma unlock_then_lock:
  assumes "ok s" and "valid t"
  shows "\<exists>b s'. serve_all lck rlck unlck [Unlock k, Lock k v t] s = Done [b, True] s' \<and> holder_of s' k = Some v"
proof -
  from unlock_law [OF assms(1), of k] obtain b s1 where
    "unlck k s = Done b s1" "ok s1" "holder_of s1 = (holder_of s)(k := None)" by blast
  with lock_free_law [OF \<open>ok s1\<close> assms(2), of k v] show ?thesis by auto
qed

end

end
