(* ===== verification/Redis_Lock.thy ===== *)
theory Redis_Lock
  imports Pool_View Lock_Contract Complex_Main
begin

text \<open>
  \<open>RedisLock\<close> of \<open>lock.py\<close>: the plain lock operations over \<open>SET\<close>, \<open>EXISTS\<close>, \<open>TTL\<close> and \<open>DEL\<close>, and the
  conditional set or delete, whose Lua script compares numbers. The number type, the reading and the
  printing of numbers are parameters; arithmetic on them is exact.
\<close>

section \<open>Timeouts\<close>

text \<open>
  \<open>Timeout = Union[float, timedelta, None]\<close>. A missing timeout means the year 2099, whose time stamp
  depends on the local time zone and is the parameter \<open>far\<close>. Seconds are rational numbers; \<open>int()\<close>
  truncates towards zero.
\<close>

datatype timeout = NoTimeout | Seconds rat | Delta rat

fun to_seconds :: "rat \<Rightarrow> timeout \<Rightarrow> rat" where
  "to_seconds far NoTimeout = far"
| "to_seconds far (Delta t) = t"
| "to_seconds far (Seconds t) = t"

definition py_int :: "rat \<Rightarrow> int" where
  "py_int x = (if 0 \<le> x then \<lfloor>x\<rfloor> else - \<lfloor>- x\<rfloor>)"

lemma py_int_of_int [simp]: "py_int (of_int n) = n" "py_int (numeral m) = numeral m" "py_int 0 = 0"
  by (simp_all add: py_int_def)

section \<open>The lock operations\<close>

text \<open>The values and the order of \<open>LockStatus\<close>, an \<open>IntEnum\<close>.\<close>

datatype LockStatus = FREE | UNAVAILABLE | LOCKED | ERROR

fun status_value :: "LockStatus \<Rightarrow> int" where
  "status_value FREE = 0"
| "status_value UNAVAILABLE = 1"
| "status_value LOCKED = 2"
| "status_value ERROR = 4"

instantiation LockStatus :: linorder
begin

definition less_eq_LockStatus :: "LockStatus \<Rightarrow> LockStatus \<Rightarrow> bool" where
  "less_eq_LockStatus a b = (status_value a \<le> status_value b)"

definition less_LockStatus :: "LockStatus \<Rightarrow> LockStatus \<Rightarrow> bool" where
  "less_LockStatus a b = (status_value a < status_value b)"

instance
proof
  fix x y z :: LockStatus
  show "x < y \<longleftrightarrow> x \<le> y \<and> \<not> y \<le> x" by (auto simp: less_eq_LockStatus_def less_LockStatus_def)
  show "x \<le> x" by (simp add: less_eq_LockStatus_def)
  show "x \<le> y \<Longrightarrow> y \<le> z \<Longrightarrow> x \<le> z" by (simp add: less_eq_LockStatus_def)
  show "x \<le> y \<Longrightarrow> y \<le> x \<Longrightarrow> x = y" by (cases x; cases y) (simp_all add: less_eq_LockStatus_def)
  show "x \<le> y \<or> y \<le> x" by (auto simp: less_eq_LockStatus_def)
qed

end

definition key_status :: "'s redis \<Rightarrow> 'a lock_cfg_scheme \<Rightarrow> string \<Rightarrow> int \<Rightarrow> 's \<Rightarrow> LockStatus" where
  "key_status R A key timeout s =
     (let ttl = r_ttl R (key_str A key) s in
      if ttl > timeout then UNAVAILABLE
      else if ttl \<ge> 0 then LOCKED
      else if ttl = -1 then ERROR
      else FREE)"

text \<open>The reply to \<open>SET key value EX n\<close>, an error for an expiry that is not positive.\<close>

definition set_ex :: "'s redis \<Rightarrow> string \<Rightarrow> string \<Rightarrow> int \<Rightarrow> 's \<Rightarrow> (unit, 's) outcome" where
  "set_ex R k v n s = (case r_setex R k v n s of
     None \<Rightarrow> Abort (RedisError ''invalid expire time'') s | Some s' \<Rightarrow> Done () s')"

text \<open>\<open>update\<close>, \<open>lock\<close> and \<open>rlock\<close> hand their timeout to the client library as \<open>ex\<close>; \<open>None\<close> means no expiry.\<close>

definition lock_update :: "'s redis \<Rightarrow> 'a lock_cfg_scheme \<Rightarrow> string \<Rightarrow> string \<Rightarrow> int option \<Rightarrow> 's \<Rightarrow> (unit, 's) outcome" where
  "lock_update R A key value timeout s =
     (case timeout of
        None \<Rightarrow> Done () (r_set R (key_str A key) value s)
      | Some n \<Rightarrow> set_ex R (key_str A key) value n s)"

definition lock :: "'s redis \<Rightarrow> 'a lock_cfg_scheme \<Rightarrow> string \<Rightarrow> string \<Rightarrow> int option \<Rightarrow> 's \<Rightarrow> (bool, 's) outcome" where
  "lock R A key value timeout s =
     (case r_setnx R (key_str A key) value timeout s of
        None \<Rightarrow> Abort (RedisError ''invalid expire time'') s
      | Some (acquired, s') \<Rightarrow> Done acquired s')"

definition is_locked :: "'s redis \<Rightarrow> 'a lock_cfg_scheme \<Rightarrow> string \<Rightarrow> 's \<Rightarrow> bool" where
  "is_locked R A key s = r_exists R (key_str A key) s"

definition lock_value :: "'s redis \<Rightarrow> 'a lock_cfg_scheme \<Rightarrow> string \<Rightarrow> 's \<Rightarrow> string option" where
  "lock_value R A key s = r_get R (key_str A key) s"

definition rlock :: "'s redis \<Rightarrow> 'a lock_cfg_scheme \<Rightarrow> string \<Rightarrow> string \<Rightarrow> int option \<Rightarrow> 's \<Rightarrow> (bool, 's) outcome" where
  "rlock R A key value timeout s =
     (case r_setnxget R (key_str A key) value timeout s of
        None \<Rightarrow> Abort (RedisError ''invalid expire time'') s
      | Some (old_value, s') \<Rightarrow> Done (old_value = None \<or> old_value = Some value) s')"

definition unlock :: "'s redis \<Rightarrow> 'a lock_cfg_scheme \<Rightarrow> string \<Rightarrow> 's \<Rightarrow> (bool, 's) outcome" where
  "unlock R A key s = (case r_del R (key_str A key) s of (deleted, s') \<Rightarrow> Done deleted s')"

text \<open>\<open>__eq__\<close> between two locks.\<close>

definition lock_eq :: "'a lock_cfg_scheme \<Rightarrow> 'b lock_cfg_scheme \<Rightarrow> bool" where
  "lock_eq A B \<longleftrightarrow> prefix A = prefix B \<and> suffix A = suffix B"

section \<open>Conditional set and delete\<close>

text \<open>The condition the script of each operator tests; \<open>None\<close> for an operator without a script.\<close>

definition condition :: "string \<Rightarrow> 'n::linordered_idom \<Rightarrow> 'n \<Rightarrow> 'n \<Rightarrow> bool option" where
  "condition op eps compare_value current_value =
     (if op = ''>'' then Some (compare_value > current_value)
      else if op = ''<'' then Some (compare_value < current_value)
      else if op = ''>='' then Some (compare_value \<ge> current_value - eps)
      else if op = ''<='' then Some (compare_value \<le> current_value + eps)
      else if op = ''=='' then Some (\<bar>compare_value - current_value\<bar> < eps)
      else if op = ''!='' then Some (\<bar>compare_value - current_value\<bar> > eps)
      else None)"

record 'n numerals =
  rd :: "string \<Rightarrow> 'n option"
  pr :: "'n \<Rightarrow> string"

definition conditional_setdel ::
  "'s redis \<Rightarrow> 'a lock_cfg_scheme \<Rightarrow> 'n::linordered_idom numerals \<Rightarrow> 'n \<Rightarrow> string \<Rightarrow> string \<Rightarrow>
    'n \<Rightarrow> 'n option \<Rightarrow> int option \<Rightarrow> bool \<Rightarrow> 's \<Rightarrow> (bool, 's) outcome" where
  "conditional_setdel R A N eps op key value set_value ex isdel s =
     (let current_key = key_str A key;
          new_value = (case set_value of None \<Rightarrow> value | Some v \<Rightarrow> v);
          ex_value = (case ex of None \<Rightarrow> -1 | Some n \<Rightarrow> n);
          current_value = Option.bind (r_get R current_key s) (rd N) in
      case condition op eps value (case current_value of None \<Rightarrow> value | Some v \<Rightarrow> v) of
        None \<Rightarrow> Abort KeyError s
      | Some holds \<Rightarrow>
          if current_value = None \<or> holds then
            (if isdel then Done True (snd (r_del R current_key s))
             else if ex_value > 0 then
               then_do (set_ex R current_key (pr N new_value) ex_value s) (\<lambda>_ s1. Done True s1)
             else Done True (r_set R current_key (pr N new_value) s))
          else Done False s)"

definition setgt where
  "setgt R A N eps key value set_value ex = conditional_setdel R A N eps ''>'' key value set_value ex False"

definition setlt where
  "setlt R A N eps key value set_value ex = conditional_setdel R A N eps ''<'' key value set_value ex False"

definition setge where
  "setge R A N eps key value set_value ex = conditional_setdel R A N eps ''>='' key value set_value ex False"

definition setle where
  "setle R A N eps key value set_value ex = conditional_setdel R A N eps ''<='' key value set_value ex False"

definition seteq where
  "seteq R A N eps key value set_value ex = conditional_setdel R A N eps ''=='' key value set_value ex False"

definition setne where
  "setne R A N eps key value set_value ex = conditional_setdel R A N eps ''!='' key value set_value ex False"

definition delgt where
  "delgt R A N eps key value = conditional_setdel R A N eps ''>'' key value None None True"

definition dellt where
  "dellt R A N eps key value = conditional_setdel R A N eps ''<'' key value None None True"

definition delge where
  "delge R A N eps key value = conditional_setdel R A N eps ''>='' key value None None True"

definition delle where
  "delle R A N eps key value = conditional_setdel R A N eps ''<='' key value None None True"

definition deleq where
  "deleq R A N eps key value = conditional_setdel R A N eps ''=='' key value None None True"

definition delne where
  "delne R A N eps key value = conditional_setdel R A N eps ''!='' key value None None True"

section \<open>What the operations do\<close>

text \<open>
  \<open>holder\<close> is the value under the lock key, \<open>held_until\<close> its deadline. \<open>lock_ok\<close> says that the lock
  keys of the instance are used for strings only.
\<close>

definition holder :: "'a lock_cfg_scheme \<Rightarrow> keyspace \<Rightarrow> string \<rightharpoonup> string" where
  "holder A V k = map_option fst (strs V (key_str A k))"

definition lock_ok :: "'a lock_cfg_scheme \<Rightarrow> keyspace \<Rightarrow> bool" where
  "lock_ok A V \<longleftrightarrow> (\<forall>k. str_key V (key_str A k))"

definition put_lock :: "'a lock_cfg_scheme \<Rightarrow> string \<Rightarrow> string \<Rightarrow> int option \<Rightarrow> keyspace \<Rightarrow> keyspace" where
  "put_lock A k v ex V = put_str (key_str A k) v ex V"

lemma lock_ok_put [redis_simps]: "lock_ok A V \<Longrightarrow> lock_ok A (put_lock A k v ex V)"
  "lock_ok A V \<Longrightarrow> lock_ok A (erase (key_str A k) V)" "lock_ok A V \<Longrightarrow> lock_ok A (elapse d V)"
  by (simp_all add: lock_ok_def put_lock_def redis_simps)

lemma holder_put [redis_simps]:
  "holder A (put_lock A k v ex V) = (holder A V)(k \<mapsto> v)"
  "holder A (erase (key_str A k) V) = (holder A V)(k := None)"
  by (auto simp: holder_def put_lock_def redis_simps key_simps fun_eq_iff)

lemma holder_None: "lock_ok A V \<Longrightarrow> holder A V k = None \<longleftrightarrow> \<not> present V (key_str A k)"
  by (cases "strs V (key_str A k)") (auto simp: holder_def lock_ok_def present_str)

context redis_server
begin

lemma set_ex_pos: "0 < n \<Longrightarrow> \<exists>s'. set_ex R k v n s = Done () s' \<and> view s' = put_str k v (Some n) (view s)"
  using setex [of n k v s] by (auto simp: set_ex_def)

lemma set_ex_nonpos: "n \<le> 0 \<Longrightarrow> set_ex R k v n s = Abort (RedisError ''invalid expire time'') s"
  by (simp add: set_ex_def setex_error)

lemma update_effect: "ex_ok ex \<Longrightarrow> \<exists>s'. lock_update R A k v ex s = Done () s' \<and> view s' = put_lock A k v ex (view s)"
  using set_ex_pos by (cases ex) (simp_all add: lock_update_def put_lock_def set_cmd)

lemma lock_free: "lock_ok A (view s) \<Longrightarrow> ex_ok ex \<Longrightarrow> holder A (view s) k = None \<Longrightarrow>
  \<exists>s'. lock R A k v ex s = Done True s' \<and> view s' = put_lock A k v ex (view s)"
  using setnx_absent [of ex s "key_str A k" v] by (auto simp: lock_def holder_None put_lock_def)

lemma lock_taken: "lock_ok A (view s) \<Longrightarrow> ex_ok ex \<Longrightarrow> holder A (view s) k \<noteq> None \<Longrightarrow> lock R A k v ex s = Done False s"
  using setnx_present [of ex s "key_str A k" v] holder_None [of A "view s" k] by (simp add: lock_def)

lemma rlock_free: "lock_ok A (view s) \<Longrightarrow> ex_ok ex \<Longrightarrow> holder A (view s) k = None \<Longrightarrow>
  \<exists>s'. rlock R A k v ex s = Done True s' \<and> view s' = put_lock A k v ex (view s)"
  using setnxget_absent [of ex s "key_str A k" v] by (auto simp: rlock_def holder_None put_lock_def)

lemma rlock_taken:
  assumes "lock_ok A (view s)" and "ex_ok ex" and "holder A (view s) k = Some w"
  shows "rlock R A k v ex s = Done (w = v) s"
proof -
  from assms(3) obtain e where "strs (view s) (key_str A k) = Some e" and "fst e = w"
    by (auto simp: holder_def)
  with setnxget_present [of ex s "key_str A k" e v] assms show ?thesis
    by (simp add: rlock_def lock_ok_def)
qed

lemma unlock_effect: "lock_ok A (view s) \<Longrightarrow>
  \<exists>s'. unlock R A k s = Done (holder A (view s) k \<noteq> None) s' \<and> view s' = erase (key_str A k) (view s)"
  using del [of "key_str A k" s] del_reply [of "key_str A k" s] holder_None [of A "view s" k]
  by (cases "r_del R (key_str A k) s") (simp add: unlock_def)

lemma is_locked_iff: "lock_ok A (view s) \<Longrightarrow> is_locked R A k s \<longleftrightarrow> holder A (view s) k \<noteq> None"
  using holder_None [of A "view s" k] by (simp add: is_locked_def exists_cmd)

lemma lock_value_eq: "lock_ok A (view s) \<Longrightarrow> lock_value R A k s = holder A (view s) k"
  by (simp add: lock_value_def get lock_ok_def holder_def)

lemma key_status_cases:
  assumes "lock_ok A (view s)" and "0 \<le> timeout"
  shows "key_status R A k timeout s = (case strs (view s) (key_str A k) of
      None \<Rightarrow> FREE | Some (v, None) \<Rightarrow> ERROR
    | Some (v, Some d) \<Rightarrow> if r_ttl R (key_str A k) s \<le> timeout then LOCKED else UNAVAILABLE)"
proof (cases "strs (view s) (key_str A k)")
  case None
  with assms have "\<not> present (view s) (key_str A k)" by (simp add: present_str lock_ok_def)
  from ttl_absent [OF this] assms(2) None show ?thesis by (simp add: key_status_def)
next
  case (Some e)
  obtain v ex where e: "e = (v, ex)" by (cases e)
  show ?thesis
  proof (cases ex)
    case None
    with Some e ttl_permanent [of s "key_str A k" v] assms(2) show ?thesis by (simp add: key_status_def)
  next
    case (Some d)
    with \<open>strs (view s) (key_str A k) = Some e\<close> e ttl_expiring [of s "key_str A k" v d]
    show ?thesis by (simp add: key_status_def Let_def)
  qed
qed

end

section \<open>The lock contract\<close>

text \<open>On every server, every instance of \<open>RedisLock\<close> offers the contract of \<open>BaseLock\<close>.\<close>

sublocale redis_server \<subseteq> rl: lock_service "\<lambda>s. lock_ok A (view s)" "\<lambda>s. holder A (view s)" ex_ok
  "lock R A" "rlock R A" "unlock R A"
  for A :: "'a lock_cfg_scheme"
proof (unfold_locales, goal_cases)
  case (1 s t k v)
  with lock_free [OF 1, of v] show ?case by (auto simp: redis_simps)
next
  case (2 s t k v)
  with lock_taken [OF 2, of v] show ?case by simp
next
  case (3 s t k v)
  with rlock_free [OF 3, of v] show ?case by (auto simp: redis_simps)
next
  case (4 s t k w v)
  with rlock_taken [OF 4, of v] show ?case by auto
next
  case (5 s k)
  from unlock_effect [OF 5, of k] 5 show ?case by (auto simp: redis_simps)
qed

end
