(* ===== verification/Allocator.thy ===== *)
theory Allocator
  imports Pool_Scripts Redis_Lock
begin

text \<open>
  \<open>RedisAllocator\<close>: the scripts \<open>extend\<close>, \<open>shrink\<close>, \<open>assign\<close>, \<open>clear\<close>, \<open>malloc\<close>, \<open>free\<close>,
  \<open>get_free_list\<close> and \<open>gc\<close>, and the Python methods around them.
\<close>

section \<open>clear\<close>

definition clear :: "'s redis \<Rightarrow> 'a lock_cfg_scheme \<Rightarrow> 's \<Rightarrow> (unit, 's) outcome" where
  "clear R A s = Done () (set_current_tail R A '''' (set_current_head R A '''' (snd (r_del R (pool_str A) s))))"

section \<open>extend\<close>

text \<open>A new key enters the free list without the lock an earlier life of it may have left.\<close>

definition add_new :: "'s redis \<Rightarrow> 'a lock_cfg_scheme \<Rightarrow> int \<Rightarrow> string \<Rightarrow> 's \<Rightarrow> (unit, 's) outcome" where
  "add_new R A expiry itemName s =
     push_to_tail R A itemName (Some expiry) (snd (r_del R (key_str A itemName) s))"

definition extend_one :: "'s redis \<Rightarrow> 'a lock_cfg_scheme \<Rightarrow> int \<Rightarrow> string \<Rightarrow> 's \<Rightarrow> (unit, 's) outcome" where
  "extend_one R A expiry itemName s =
     (case pool_get R A itemName s of
        Some val \<Rightarrow>
          (case split_pool_value (Some val) of (prev, nxt_key, _) \<Rightarrow>
             Done () (pool_put R A itemName prev nxt_key (Some expiry) s))
      | None \<Rightarrow> add_new R A expiry itemName s)"

definition extend_script :: "'s redis \<Rightarrow> 'a lock_cfg_scheme \<Rightarrow> int \<Rightarrow> string list \<Rightarrow> 's \<Rightarrow> (unit, 's) outcome" where
  "extend_script R A timeout keys s =
     (let expiry = timeout_to_expiry R (Some timeout) s in for_each (extend_one R A expiry) keys s)"

definition extend_pool :: "'s redis \<Rightarrow> 'a lock_cfg_scheme \<Rightarrow> py_key list option \<Rightarrow> int option \<Rightarrow> 's \<Rightarrow> (unit, 's) outcome" where
  "extend_pool R A keys timeout s =
     (case keys of
        None \<Rightarrow> Done () s
      | Some ks \<Rightarrow>
          if ks = [] then Done () s
          else
            (case validate_keys ks of
               Some e \<Rightarrow> Abort e s
             | None \<Rightarrow> extend_script R A (case timeout of None \<Rightarrow> -1 | Some t \<Rightarrow> t) (map key_name ks) s))"

section \<open>shrink\<close>

definition shrink_one :: "'s redis \<Rightarrow> 'a lock_cfg_scheme \<Rightarrow> string \<Rightarrow> 's \<Rightarrow> (unit, 's) outcome" where
  "shrink_one R A itemName s =
     (if r_hexists R (pool_str A) itemName s then
        then_do (set_item_allocated R A itemName None s) (\<lambda>_ s1. Done () (pool_del R A itemName s1))
      else Done () s)"

definition shrink :: "'s redis \<Rightarrow> 'a lock_cfg_scheme \<Rightarrow> string list option \<Rightarrow> 's \<Rightarrow> (unit, 's) outcome" where
  "shrink R A keys s =
     (case keys of
        None \<Rightarrow> Done () s
      | Some ks \<Rightarrow> if ks = [] then Done () s else for_each (shrink_one R A) ks s)"

section \<open>assign\<close>

text \<open>
  The script walks over the present keys and removes those that are not wanted; what is left of the
  wanted set is added. Lua visits the keys of a table in an order of its own, the parameter \<open>pairs\<close>.
\<close>

fun assign_loop :: "'s redis \<Rightarrow> 'a lock_cfg_scheme \<Rightarrow> string list \<Rightarrow> string list \<Rightarrow> 's \<Rightarrow> (string list, 's) outcome" where
  "assign_loop R A [] assignSet s = Done assignSet s"
| "assign_loop R A (itemName # items) assignSet s =
     (if itemName \<notin> set assignSet then
        then_do (set_item_allocated R A itemName None s)
          (\<lambda>_ s1. assign_loop R A items assignSet (pool_del R A itemName s1))
      else assign_loop R A items (removeAll itemName assignSet) s)"

definition assign_script ::
  "'s redis \<Rightarrow> 'a lock_cfg_scheme \<Rightarrow> (string list \<Rightarrow> string list) \<Rightarrow> int \<Rightarrow> string list \<Rightarrow> 's \<Rightarrow> (unit, 's) outcome" where
  "assign_script R A pairs timeout keys s =
     (let expiry = timeout_to_expiry R (Some timeout) s in
      then_do (assign_loop R A (r_hkeys R (pool_str A) s) (remdups keys) s)
        (\<lambda>assignSet. for_each (add_new R A expiry) (pairs assignSet)))"

definition assign ::
  "'s redis \<Rightarrow> 'a lock_cfg_scheme \<Rightarrow> (string list \<Rightarrow> string list) \<Rightarrow> py_key list option \<Rightarrow> int \<Rightarrow> 's \<Rightarrow> (unit, 's) outcome" where
  "assign R A pairs keys timeout s =
     (case keys of
        None \<Rightarrow> clear R A s
      | Some ks \<Rightarrow>
          if ks = [] then clear R A s
          else
            (case validate_keys ks of
               Some e \<Rightarrow> Abort e s
             | None \<Rightarrow> assign_script R A pairs timeout (map key_name ks) s))"

section \<open>Pool queries\<close>

definition pool_keys :: "'s redis \<Rightarrow> 'a lock_cfg_scheme \<Rightarrow> 's \<Rightarrow> string list" where
  "pool_keys R A s = r_hkeys R (pool_str A) s"

definition contains :: "'s redis \<Rightarrow> 'a lock_cfg_scheme \<Rightarrow> string \<Rightarrow> 's \<Rightarrow> bool" where
  "contains R A key s = r_hexists R (pool_str A) key s"

definition get_free_list :: "'s redis \<Rightarrow> 'a lock_cfg_scheme \<Rightarrow> 's \<Rightarrow> string list" where
  "get_free_list R A s = lua_get_free_list R A s"

section \<open>Soft bindings\<close>

definition update_soft_bind :: "'s redis \<Rightarrow> 'a lock_cfg_scheme \<Rightarrow> string \<Rightarrow> string \<Rightarrow> int option \<Rightarrow> 's \<Rightarrow> (unit, 's) outcome" where
  "update_soft_bind R A name key timeout s = lock_update R A (py_soft_bind_name A name) key timeout s"

definition unbind_soft_bind :: "'s redis \<Rightarrow> 'a lock_cfg_scheme \<Rightarrow> string \<Rightarrow> 's \<Rightarrow> (bool, 's) outcome" where
  "unbind_soft_bind R A name s = unlock R A (py_soft_bind_name A name) s"

definition get_soft_bind :: "'s redis \<Rightarrow> 'a lock_cfg_scheme \<Rightarrow> string \<Rightarrow> 's \<Rightarrow> string option" where
  "get_soft_bind R A name s = r_get R (py_soft_bind_name A name) s"

section \<open>malloc\<close>

definition refresh_cache :: "'s redis \<Rightarrow> 'a lock_cfg_scheme \<Rightarrow> string \<Rightarrow> int \<Rightarrow> string \<Rightarrow> 's \<Rightarrow> (unit, 's) outcome" where
  "refresh_cache R A name_arg cacheTimeout cacheKey s =
     (if name_arg \<noteq> '''' then
        (if cacheTimeout > 0 then set_ex R (soft_bind_name A name_arg) cacheKey cacheTimeout s
         else Done () (r_set R (soft_bind_name A name_arg) cacheKey s))
      else Done () s)"

definition malloc_bound :: "'s redis \<Rightarrow> 'a config_scheme \<Rightarrow> int \<Rightarrow> string \<Rightarrow> int \<Rightarrow> string \<Rightarrow> 's \<Rightarrow> (string option, 's) outcome" where
  "malloc_bound R A timeout name_arg cacheTimeout cachedKey s =
     then_do (refresh_cache R A name_arg cacheTimeout cachedKey s)
       (\<lambda>_ s1. then_do
          (if \<not> shared A then
             then_do (set_item_allocated R A cachedKey None s1)
               (\<lambda>_ s2. set_ex R (key_str A cachedKey) ''1'' timeout s2)
           else Done () s1)
          (\<lambda>_ s3. Done (Some cachedKey) s3))"

definition malloc_pop :: "'s redis \<Rightarrow> 'a config_scheme \<Rightarrow> int \<Rightarrow> string \<Rightarrow> int \<Rightarrow> 's \<Rightarrow> (string option, 's) outcome" where
  "malloc_pop R A timeout name_arg cacheTimeout s =
     then_do (pop_from_head R A s)
       (\<lambda>popped s1.
          case popped of
            None \<Rightarrow> Done None s1
          | Some (itemName, expiry) \<Rightarrow>
              then_do
                (if \<not> shared A then
                   (if timeout > 0 then set_ex R (key_str A itemName) ''1'' timeout s1
                    else Done () (r_set R (key_str A itemName) ''1'' s1))
                 else push_to_tail R A itemName expiry s1)
                (\<lambda>_ s2. then_do (refresh_cache R A name_arg cacheTimeout itemName s2)
                   (\<lambda>_ s3. Done (Some itemName) s3)))"

definition malloc_script :: "'s redis \<Rightarrow> 'a config_scheme \<Rightarrow> int \<Rightarrow> string \<Rightarrow> int \<Rightarrow> 's \<Rightarrow> (string option, 's) outcome" where
  "malloc_script R A timeout name_arg cacheTimeout s =
     (if name_arg \<noteq> '''' then
        (case r_get R (soft_bind_name A name_arg) s of
           Some cachedKey \<Rightarrow>
             if \<not> r_hexists R (pool_str A) cachedKey s \<or> r_exists R (key_str A cachedKey) s
             then malloc_pop R A timeout name_arg cacheTimeout (snd (r_del R (soft_bind_name A name_arg) s))
             else malloc_bound R A timeout name_arg cacheTimeout cachedKey s
         | None \<Rightarrow> malloc_pop R A timeout name_arg cacheTimeout s)
      else malloc_pop R A timeout name_arg cacheTimeout s)"

definition malloc_key :: "'s redis \<Rightarrow> 'a config_scheme \<Rightarrow> rat \<Rightarrow> timeout \<Rightarrow> string option \<Rightarrow> timeout \<Rightarrow> 's \<Rightarrow> (string option, 's) outcome" where
  "malloc_key R A far timeout name cache_timeout s =
     (let lock_timeout_sec = py_int (to_seconds far timeout);
          cache_timeout_sec = py_int (to_seconds far cache_timeout) in
      malloc_script R A lock_timeout_sec (case name of None \<Rightarrow> '''' | Some n \<Rightarrow> n) cache_timeout_sec s)"

section \<open>free\<close>

definition free_one :: "'s redis \<Rightarrow> 'a lock_cfg_scheme \<Rightarrow> int \<Rightarrow> string \<Rightarrow> 's \<Rightarrow> (unit, 's) outcome" where
  "free_one R A expiry k s =
     (case r_del R (key_str A k) s of (deleted, s1) \<Rightarrow>
        if deleted \<and> r_hexists R (pool_str A) k s1 then push_to_tail R A k (Some expiry) s1
        else Done () s1)"

definition free_keys :: "'s redis \<Rightarrow> 'a lock_cfg_scheme \<Rightarrow> string list \<Rightarrow> int \<Rightarrow> 's \<Rightarrow> (unit, 's) outcome" where
  "free_keys R A keys timeout s =
     (if keys = [] then Done () s
      else (let expiry = timeout_to_expiry R (Some timeout) s in for_each (free_one R A expiry) keys s))"

section \<open>gc\<close>

definition get_cursor :: "'s redis \<Rightarrow> 'a lock_cfg_scheme \<Rightarrow> 's \<Rightarrow> string" where
  "get_cursor R A s =
     (case r_get R (gc_cursor_str A) s of
        None \<Rightarrow> ''0'' | Some oldCursor \<Rightarrow> if oldCursor = '''' then ''0'' else oldCursor)"

definition gc_script :: "'s redis \<Rightarrow> 'a lock_cfg_scheme \<Rightarrow> int \<Rightarrow> 's \<Rightarrow> (unit, 's) outcome" where
  "gc_script R A n s =
     (case r_hscan R (pool_str A) (get_cursor R A s) n s of (newCursor, kvList) \<Rightarrow>
        then_do (for_each (check_item_health R A) (map fst kvList) s)
          (\<lambda>_ s1. Done () (r_set R (gc_cursor_str A) newCursor s1)))"

definition gc :: "'s redis \<Rightarrow> 'a lock_cfg_scheme \<Rightarrow> int \<Rightarrow> 's \<Rightarrow> (unit, 's) outcome" where
  "gc R A count s = (if count > 0 then gc_script R A count s else Abort AssertionError s)"

end
