(* ===== verification/Allocator_Spec.thy ===== *)
theory Allocator_Spec
  imports Pool_Spec Allocator
begin

text \<open>
  What each public operation of \<open>RedisAllocator\<close> promises, stated on the abstract pool of \<open>Pool_Spec\<close>,
  and the invariants of the abstract pool these operations keep: well-formedness (INV-1, INV-2, INV-3
  and INV-5 of \<open>diagnostics/invariants.py\<close> hold in every well-formed pool by construction) and a
  bound on the keys that break INV-4, which no operation of the allocator enlarges.
\<close>

section \<open>The operations\<close>

definition set_lock :: "string \<Rightarrow> string \<times> int option \<Rightarrow> apool \<Rightarrow> apool" where
  "set_lock k e p = p\<lparr>alock := (alock p)(k \<mapsto> e)\<rparr>"

definition drop_lock :: "string \<Rightarrow> apool \<Rightarrow> apool" where
  "drop_lock k p = p\<lparr>alock := (alock p)(k := None)\<rparr>"

definition set_bind :: "string \<Rightarrow> string \<times> int option \<Rightarrow> apool \<Rightarrow> apool" where
  "set_bind n e p = p\<lparr>abind := (abind p)(n \<mapsto> e)\<rparr>"

definition drop_bind :: "string \<Rightarrow> apool \<Rightarrow> apool" where
  "drop_bind n p = p\<lparr>abind := (abind p)(n := None)\<rparr>"

definition until :: "apool \<Rightarrow> int \<Rightarrow> int option" where
  "until p timeout = (if timeout > 0 then Some (anow p + 1000 * timeout) else None)"

definition expiry_of :: "apool \<Rightarrow> int \<Rightarrow> int" where
  "expiry_of p timeout = (if timeout \<le> 0 then -1 else anow p div 1000 + timeout)"

definition spec_elapse :: "int \<Rightarrow> apool \<Rightarrow> apool" where
  "spec_elapse d p =
     (let alive = (\<lambda>m k. case m k of None \<Rightarrow> None | Some e \<Rightarrow> if live (anow p + d) e then Some e else None) in
      p\<lparr>anow := anow p + d, alock := alive (alock p), abind := alive (abind p)\<rparr>)"

definition spec_clear :: "apool \<Rightarrow> apool" where
  "spec_clear p = p\<lparr>free := [], members := Map.empty\<rparr>"

definition spec_add :: "int \<Rightarrow> string \<Rightarrow> apool \<Rightarrow> apool" where
  "spec_add e k p = spec_push k e (drop_lock k p)"

definition spec_extend_one :: "int \<Rightarrow> string \<Rightarrow> apool \<Rightarrow> apool" where
  "spec_extend_one e k p =
     (if k \<in> dom (members p) then p\<lparr>members := (members p)(k \<mapsto> e)\<rparr> else spec_add e k p)"

definition spec_extend :: "int \<Rightarrow> string list \<Rightarrow> apool \<Rightarrow> apool" where
  "spec_extend timeout ks p = fold (spec_extend_one (expiry_of p timeout)) ks p"

definition spec_shrink :: "string list \<Rightarrow> apool \<Rightarrow> apool" where
  "spec_shrink ks p = fold spec_remove ks p"

text \<open>The order in which Lua's \<open>pairs\<close> visits the keys of a table: each once.\<close>

definition table_order :: "(string list \<Rightarrow> string list) \<Rightarrow> bool" where
  "table_order pairs \<longleftrightarrow> (\<forall>xs. distinct xs \<longrightarrow> distinct (pairs xs) \<and> set (pairs xs) = set xs)"

text \<open>
  \<open>assign\<close>: the wanted members stay with their place and their expiry, the others go, and the new
  keys enter at the tail in the order \<open>new\<close>.
\<close>

definition keep_only :: "string set \<Rightarrow> apool \<Rightarrow> apool" where
  "keep_only S p = p\<lparr>free := filter (\<lambda>k. k \<in> S) (free p), members := members p |` S\<rparr>"

definition spec_assign :: "int \<Rightarrow> string set \<Rightarrow> string list \<Rightarrow> apool \<Rightarrow> apool" where
  "spec_assign timeout S new p = fold (spec_add (expiry_of p timeout)) new (keep_only S p)"

definition bind_name :: "string \<Rightarrow> int \<Rightarrow> string \<Rightarrow> apool \<Rightarrow> apool" where
  "bind_name name cache_timeout k p =
     (if name = '''' then p else set_bind name (k, until p cache_timeout) p)"

definition spec_malloc_pop :: "bool \<Rightarrow> int \<Rightarrow> string \<Rightarrow> int \<Rightarrow> apool \<Rightarrow> string option \<times> apool" where
  "spec_malloc_pop sh timeout name cache_timeout p =
     (case spec_pop p of
        (None, q) \<Rightarrow> (None, q)
      | (Some k, q) \<Rightarrow>
          (Some k, bind_name name cache_timeout k
             (if sh then spec_push k (the (members p k)) q else set_lock k (''1'', until p timeout) q)))"

text \<open>The soft binding of \<open>name\<close> is used when its key is a member and not locked.\<close>

definition usable_bind :: "string \<Rightarrow> apool \<Rightarrow> string option" where
  "usable_bind name p =
     (if name = '''' then None
      else case abind p name of
        None \<Rightarrow> None
      | Some (k, _) \<Rightarrow> if k \<in> dom (members p) \<and> alock p k = None then Some k else None)"

definition spec_malloc :: "bool \<Rightarrow> int \<Rightarrow> string \<Rightarrow> int \<Rightarrow> apool \<Rightarrow> string option \<times> apool" where
  "spec_malloc sh timeout name cache_timeout p =
     (case usable_bind name p of
        Some k \<Rightarrow> (Some k,
          let q = bind_name name cache_timeout k p in
          if sh then q else set_lock k (''1'', until p timeout) (spec_take k q))
      | None \<Rightarrow> spec_malloc_pop sh timeout name cache_timeout
          (if name = '''' then p else drop_bind name p))"

definition spec_free_one :: "int \<Rightarrow> string \<Rightarrow> apool \<Rightarrow> apool" where
  "spec_free_one e k p =
     (if alock p k \<noteq> None \<and> k \<in> dom (members p) then spec_push k e (drop_lock k p) else drop_lock k p)"

definition spec_free :: "int \<Rightarrow> string list \<Rightarrow> apool \<Rightarrow> apool" where
  "spec_free timeout ks p = fold (spec_free_one (expiry_of p timeout)) ks p"

definition spec_gc :: "string list \<Rightarrow> apool \<Rightarrow> apool" where
  "spec_gc ks p = fold spec_check ks p"

section \<open>The invariants\<close>

text \<open>
  A free key that is locked is \<open>jammed\<close>: \<open>free\<close> breaks on it, \<open>malloc\<close> and \<open>gc\<close> take it out of the free
  list. The invariant bounds the jammed keys by a set \<open>J\<close>; \<open>inv_pool {}\<close> is INV-4.
\<close>

definition jammed :: "apool \<Rightarrow> string set" where
  "jammed p = {k \<in> set (free p). alock p k \<noteq> None}"

definition inv_pool :: "string set \<Rightarrow> apool \<Rightarrow> bool" where
  "inv_pool J p \<longleftrightarrow> wf_pool p \<and> jammed p \<subseteq> J"

text \<open>What a collection leaves alone.\<close>

definition gc_frame :: "apool \<Rightarrow> apool \<Rightarrow> bool" where
  "gc_frame p q \<longleftrightarrow> inv_pool (jammed p) q \<and> alock q = alock p \<and> abind q = abind p \<and> anow q = anow p"

lemma inv_poolD: "inv_pool J p \<Longrightarrow> wf_pool p"
  "inv_pool J p \<Longrightarrow> k \<in> set (free p) \<Longrightarrow> k \<notin> J \<Longrightarrow> alock p k = None"
  "inv_pool J p \<Longrightarrow> alock p k \<noteq> None \<Longrightarrow> k \<notin> J \<Longrightarrow> k \<notin> set (free p)"
  by (auto simp: inv_pool_def jammed_def)

lemma inv_poolI: "wf_pool p \<Longrightarrow> inv_pool (jammed p) p"
  by (simp add: inv_pool_def)

lemma inv_pool_mono: "inv_pool J p \<Longrightarrow> J \<subseteq> K \<Longrightarrow> inv_pool K p"
  by (auto simp: inv_pool_def)

lemma wf_fields [simp]: "wf_pool (p\<lparr>alock := l\<rparr>) = wf_pool p" "wf_pool (p\<lparr>abind := b\<rparr>) = wf_pool p"
  "wf_pool (p\<lparr>anow := t\<rparr>) = wf_pool p"
  by (simp_all add: wf_pool_def)

lemma wf_locks [simp]: "wf_pool (set_lock k e p) = wf_pool p" "wf_pool (drop_lock k p) = wf_pool p"
  "wf_pool (set_bind n e p) = wf_pool p" "wf_pool (drop_bind n p) = wf_pool p"
  "wf_pool (spec_elapse d p) = wf_pool p" "wf_pool (bind_name n t k p) = wf_pool p"
  by (simp_all add: set_lock_def drop_lock_def set_bind_def drop_bind_def spec_elapse_def Let_def bind_name_def)

lemma spec_sel [simp]:
  "free (set_lock k e p) = free p" "members (set_lock k e p) = members p"
  "alock (set_lock k e p) = (alock p)(k \<mapsto> e)" "abind (set_lock k e p) = abind p" "anow (set_lock k e p) = anow p"
  "free (drop_lock k p) = free p" "members (drop_lock k p) = members p"
  "alock (drop_lock k p) = (alock p)(k := None)" "abind (drop_lock k p) = abind p" "anow (drop_lock k p) = anow p"
  "free (set_bind n e p) = free p" "members (set_bind n e p) = members p"
  "alock (set_bind n e p) = alock p" "abind (set_bind n e p) = (abind p)(n \<mapsto> e)" "anow (set_bind n e p) = anow p"
  "free (drop_bind n p) = free p" "members (drop_bind n p) = members p"
  "alock (drop_bind n p) = alock p" "abind (drop_bind n p) = (abind p)(n := None)" "anow (drop_bind n p) = anow p"
  "free (bind_name n t k p) = free p" "members (bind_name n t k p) = members p"
  "alock (bind_name n t k p) = alock p" "anow (bind_name n t k p) = anow p"
  "free (spec_push k v p) = free p @ [k]" "members (spec_push k v p) = (members p)(k \<mapsto> v)"
  "alock (spec_push k v p) = alock p" "abind (spec_push k v p) = abind p" "anow (spec_push k v p) = anow p"
  "free (spec_take k p) = remove1 k (free p)" "members (spec_take k p) = members p"
  "alock (spec_take k p) = alock p" "abind (spec_take k p) = abind p" "anow (spec_take k p) = anow p"
  "free (spec_remove k p) = remove1 k (free p)" "members (spec_remove k p) = (members p)(k := None)"
  "alock (spec_remove k p) = alock p" "abind (spec_remove k p) = abind p" "anow (spec_remove k p) = anow p"
  by (simp_all add: set_lock_def drop_lock_def set_bind_def drop_bind_def bind_name_def
      spec_push_def spec_take_def spec_remove_def)

text \<open>What popping leaves alone, and what it takes.\<close>

lemma spec_pop_cases:
  obtains (empty) q where "spec_pop p = (None, q)" "q = drop_stale (takeWhile (\<lambda>k. \<not> available p k) (free p)) p"
  | (item) k q where "spec_pop p = (Some k, spec_take k q)"
      "q = drop_stale (takeWhile (\<lambda>k. \<not> available p k) (free p)) p" "k \<in> set (free p)" "available p k"
proof (cases "fst (spec_pop p)")
  case None
  with empty show ?thesis by (cases "dropWhile (\<lambda>k. \<not> available p k) (free p)") (auto simp: spec_pop_def Let_def)
next
  case (Some k)
  with item spec_pop_Some [OF Some] show ?thesis
    by (cases "dropWhile (\<lambda>k. \<not> available p k) (free p)") (auto simp: spec_pop_def Let_def)
qed

lemma drop_stale_sel [simp]:
  "free (drop_stale ks p) = drop (length ks) (free p)" "alock (drop_stale ks p) = alock p"
  "abind (drop_stale ks p) = abind p" "anow (drop_stale ks p) = anow p"
  "members (drop_stale ks p) k = (if k \<in> set ks \<and> expired p k then None else members p k)"
  by (simp_all add: drop_stale_def)

lemma spec_pop_frame:
  assumes "spec_pop p = (r, q)"
  shows "alock q = alock p" "abind q = abind p" "anow q = anow p" "set (free q) \<subseteq> set (free p)"
    "k \<notin> set (free p) \<Longrightarrow> members q k = members p k"
    "members q k = None \<or> members q k = members p k"
proof -
  let ?ks = "takeWhile (\<lambda>k. \<not> available p k) (free p)"
  have q: "alock q = alock p \<and> abind q = abind p \<and> anow q = anow p \<and> members q = members (drop_stale ?ks p)
      \<and> set (free q) \<subseteq> set (drop (length ?ks) (free p))"
    using assms by (cases rule: spec_pop_cases [of p]) (auto dest: set_remove1_subset [THEN subsetD])
  then show "alock q = alock p" "abind q = abind p" "anow q = anow p" by simp_all
  from q show "set (free q) \<subseteq> set (free p)" using set_drop_subset by fast
  from q show "k \<notin> set (free p) \<Longrightarrow> members q k = members p k"
    "members q k = None \<or> members q k = members p k"
    by (auto dest: set_takeWhileD)
qed

section \<open>Every operation keeps the invariants\<close>

lemma jammed_sub: "set (free q) \<subseteq> set (free p) \<Longrightarrow> alock q = alock p \<Longrightarrow> jammed q \<subseteq> jammed p"
  by (auto simp: jammed_def)

lemma wf_refresh: "wf_pool p \<Longrightarrow> k \<in> dom (members p) \<Longrightarrow> wf_pool (p\<lparr>members := (members p)(k \<mapsto> e)\<rparr>)"
  by (auto simp: wf_pool_def)

lemma inv_push: "inv_pool J p \<Longrightarrow> k \<notin> set (free p) \<Longrightarrow> safe_key k \<Longrightarrow> alock p k = None \<Longrightarrow> inv_pool J (spec_push k e p)"
  by (auto simp: inv_pool_def wf_push jammed_def)

lemma inv_drop_lock: "inv_pool J p \<Longrightarrow> inv_pool J (drop_lock k p)"
  by (auto simp: inv_pool_def jammed_def)

lemma inv_set_lock: "inv_pool J p \<Longrightarrow> k \<notin> set (free p) \<or> k \<in> J \<Longrightarrow> inv_pool J (set_lock k e p)"
  by (auto simp: inv_pool_def jammed_def)

lemma inv_bind: "inv_pool J (set_bind n e p) = inv_pool J p" "inv_pool J (drop_bind n p) = inv_pool J p"
  "inv_pool J (bind_name n t k p) = inv_pool J p"
  by (simp_all add: inv_pool_def jammed_def)

lemma inv_remove: "inv_pool J p \<Longrightarrow> inv_pool J (spec_remove k p)"
  using set_remove1_subset [of k "free p"] by (auto simp: inv_pool_def wf_remove jammed_def)

lemma inv_take: "inv_pool J p \<Longrightarrow> inv_pool J (spec_take k p)"
  using set_remove1_subset [of k "free p"] by (auto simp: inv_pool_def wf_take jammed_def)

lemma inv_elapse: "inv_pool J p \<Longrightarrow> inv_pool J (spec_elapse d p)"
  by (auto simp: inv_pool_def jammed_def) (auto simp: spec_elapse_def Let_def split: option.splits)

lemma inv_add: "inv_pool J p \<Longrightarrow> k \<notin> set (free p) \<Longrightarrow> safe_key k \<Longrightarrow> inv_pool J (spec_add e k p)"
  by (simp add: spec_add_def inv_push inv_drop_lock)

lemma inv_extend_one: "inv_pool J p \<Longrightarrow> safe_key k \<Longrightarrow> inv_pool J (spec_extend_one e k p)"
proof (cases "k \<in> dom (members p)")
  case True
  then show "inv_pool J p \<Longrightarrow> safe_key k \<Longrightarrow> inv_pool J (spec_extend_one e k p)"
    by (simp add: spec_extend_one_def inv_pool_def wf_refresh jammed_def)
next
  case False
  then show "inv_pool J p \<Longrightarrow> safe_key k \<Longrightarrow> inv_pool J (spec_extend_one e k p)"
    using wf_poolD(2) [of p k] inv_add [of J p k e] inv_poolD(1) [of J p] by (auto simp: spec_extend_one_def)
qed

lemma inv_clear: "inv_pool J (spec_clear p)"
  by (simp add: inv_pool_def wf_pool_def spec_clear_def jammed_def)

lemma inv_keep_only: "inv_pool J p \<Longrightarrow> inv_pool J (keep_only S p)"
  by (auto simp: inv_pool_def wf_pool_def keep_only_def jammed_def restrict_map_def dom_def
      intro: rev_finite_subset split: if_splits)

lemma inv_free_one: "inv_pool J p \<Longrightarrow> k \<notin> J \<Longrightarrow> inv_pool J (spec_free_one e k p)"
  using inv_poolD(3) [of J p k] wf_poolD(4) [of p k]
  by (auto simp: spec_free_one_def inv_push inv_drop_lock inv_poolD(1))

lemma inv_check: "inv_pool J p \<Longrightarrow> k \<in> dom (members p) \<Longrightarrow> inv_pool J (spec_check k p)"
  using wf_poolD(4) [of p k] by (simp add: spec_check_def inv_remove inv_take inv_push inv_poolD(1))

lemma wf_pop: "wf_pool p \<Longrightarrow> wf_pool (snd (spec_pop p))"
proof (induction "free p" arbitrary: p)
  case Nil
  then show ?case by (simp add: spec_pop_Nil)
next
  case (Cons k rest)
  note fl = Cons(2) [symmetric]
  have d: "distinct (k # rest)" using wf_poolD(1) [OF Cons(3)] fl by simp
  show ?case
  proof (cases "available p k")
    case True
    with fl Cons(3) show ?thesis by (auto simp: spec_pop_available wf_pool_def)
  next
    case False
    have "rest = free (drop_head k p)" by (simp add: drop_head_def fl)
    from Cons(1) [OF this wf_drop_head [OF Cons(3) fl]] show ?thesis
      by (simp add: spec_pop_stale [OF fl d False])
  qed
qed

lemma inv_pop: "inv_pool J p \<Longrightarrow> inv_pool J (snd (spec_pop p))"
  using wf_pop [of p] spec_pop_frame(1,4) [of p "fst (spec_pop p)" "snd (spec_pop p)"]
  by (auto simp: inv_pool_def dest: jammed_sub)

lemma popped_not_free:
  assumes "wf_pool p" and "spec_pop p = (Some k, q)"
  shows "k \<notin> set (free q)"
proof (cases rule: spec_pop_cases [of p])
  case (item j r)
  have "distinct (free r)" using wf_poolD(1) [OF assms(1)] item(2) by simp
  with item assms(2) show ?thesis by auto
qed (use assms in simp)

lemma inv_malloc_pop: "inv_pool J p \<Longrightarrow> inv_pool J (snd (spec_malloc_pop sh t n c p))"
proof -
  assume p: "inv_pool J p"
  show ?thesis
  proof (cases "spec_pop p")
    case (Pair r q)
    with inv_pop [OF p] have q: "inv_pool J q" by simp
    show ?thesis
    proof (cases r)
      case (Some k)
      from Pair Some spec_pop_Some [of p k] have k: "k \<in> set (free p)" "alock p k = None"
        by (auto simp: available_def)
      then have "safe_key k" using wf_poolD(2,4) [OF inv_poolD(1) [OF p]] by blast
      with k q popped_not_free [OF inv_poolD(1) [OF p]] spec_pop_frame(1) [OF Pair] Pair Some show ?thesis
        by (simp add: spec_malloc_pop_def inv_bind inv_push inv_set_lock)
    qed (use q Pair in \<open>simp add: spec_malloc_pop_def\<close>)
  qed
qed

lemma inv_malloc: "inv_pool J p \<Longrightarrow> inv_pool J (snd (spec_malloc sh t n c p))"
  using wf_poolD(1) [of p]
  by (auto simp: spec_malloc_def Let_def inv_malloc_pop inv_bind inv_poolD(1) inv_take
      intro!: inv_set_lock split: option.split)

lemma fold_inv:
  assumes "\<And>x q. x \<in> set xs \<Longrightarrow> I q \<Longrightarrow> I (f x q)" and "I p"
  shows "I (fold f xs p)"
  using assms by (induction xs arbitrary: p) auto

lemma inv_extend: "inv_pool J p \<Longrightarrow> \<forall>k\<in>set ks. safe_key k \<Longrightarrow> inv_pool J (spec_extend t ks p)"
  by (auto simp: spec_extend_def intro!: fold_inv [where I = "inv_pool J"] inv_extend_one)

lemma inv_shrink: "inv_pool J p \<Longrightarrow> inv_pool J (spec_shrink ks p)"
  by (auto simp: spec_shrink_def intro!: fold_inv [where I = "inv_pool J"] inv_remove)

lemma inv_free: "inv_pool J p \<Longrightarrow> set ks \<inter> J = {} \<Longrightarrow> inv_pool J (spec_free t ks p)"
  by (auto simp: spec_free_def intro!: fold_inv [where I = "inv_pool J"] inv_free_one)

section \<open>The result of the folds\<close>

lemma fold_remove_sel:
  "distinct (free p) \<Longrightarrow> free (fold spec_remove ks p) = filter (\<lambda>k. k \<notin> set ks) (free p) \<and>
     members (fold spec_remove ks p) = members p |` (- set ks) \<and> alock (fold spec_remove ks p) = alock p \<and>
     abind (fold spec_remove ks p) = abind p \<and> anow (fold spec_remove ks p) = anow p"
proof (induction ks arbitrary: p)
  case Nil
  then show ?case by simp
next
  case (Cons k ks)
  have "distinct (free (spec_remove k p))" using Cons.prems by simp
  moreover have "members (spec_remove k p) |` (- set ks) = members p |` (- set (k # ks))"
    by (auto simp: restrict_map_def)
  moreover have "filter (\<lambda>k. k \<notin> set ks) (free (spec_remove k p)) = filter (\<lambda>j. j \<notin> set (k # ks)) (free p)"
    using Cons.prems by (auto simp: distinct_remove1_removeAll removeAll_filter_not_eq intro: filter_cong)
  moreover have "alock (spec_remove k p) = alock p" "abind (spec_remove k p) = abind p"
    "anow (spec_remove k p) = anow p" by simp_all
  ultimately show ?case using Cons.IH [of "spec_remove k p"] by (simp only: fold_simps simp_thms)
qed

lemma fold_remove_keep:
  assumes wf: "wf_pool p" and ks: "set ks = dom (members p) - S"
  shows "fold spec_remove ks p = keep_only S p"
proof -
  have "filter (\<lambda>k. k \<notin> set ks) (free p) = filter (\<lambda>k. k \<in> S) (free p)"
    using ks wf_poolD(2) [OF wf] by (intro filter_cong) auto
  moreover have "members p |` (- set ks) = members p |` S"
    using ks by (auto simp: restrict_map_def fun_eq_iff)
  ultimately show ?thesis
    using fold_remove_sel [OF wf_poolD(1) [OF wf], of ks]
    by (intro apool.equality) (simp_all add: keep_only_def)
qed

lemma inv_assign:
  assumes "inv_pool J p" and "\<forall>k\<in>set new. safe_key k \<and> k \<notin> dom (members (keep_only S p))" and "distinct new"
  shows "inv_pool J (spec_assign t S new p)"
proof -
  have "inv_pool J (fold (spec_add e) ks q)" if "inv_pool J q" "distinct ks"
    "\<forall>k\<in>set ks. safe_key k \<and> k \<notin> dom (members q)" for e ks q
    using that
  proof (induction ks arbitrary: q)
    case (Cons k ks)
    have "k \<notin> set (free q)" using Cons.prems wf_poolD(2) [of q k] inv_poolD(1) by auto
    moreover have "\<forall>j\<in>set ks. safe_key j \<and> j \<notin> dom (members (spec_add e k q))"
      using Cons.prems(2,3) by (auto simp: spec_add_def)
    ultimately show ?case using Cons.IH [of "spec_add e k q"] Cons.prems inv_add [of J q k e] by simp
  qed simp
  with assms show ?thesis by (simp add: spec_assign_def inv_keep_only)
qed

end
