(* ===== verification/Pool_Refine.thy ===== *)
theory Pool_Refine
  imports Pool_Spec
begin

text \<open>
  Each Lua function of \<open>Pool_Scripts\<close> simulates its function on abstract pools: started in a state that
  represents a well-formed pool, it runs without aborting and leaves a state that represents the pool
  the specification gives. The first section has the three updates of the encoding the scripts perform
  (append at the tail, drop the head, cut an item out); the second runs the scripts.
\<close>

section \<open>Updates of the encoding\<close>

lemma enc_link: "link_of fl j = link_of fl' j \<Longrightarrow> enc fl j = enc fl' j"
  by (simp add: enc_def fun_eq_iff)

lemma enc_pool_link: "link_of fl j = link_of fl' j \<Longrightarrow> ms j = ms' j \<Longrightarrow> enc_pool fl ms j = enc_pool fl' ms' j"
  using enc_link [of fl j fl'] by (simp add: enc_pool_def)

lemma enc_free: "j \<in> set fl \<Longrightarrow> enc fl j e = join_pool_value (Some (prv fl j)) (Some (nxt fl j)) (Some e)"
  by (simp add: enc_def link_of_def)

lemma enc_allocated: "j \<notin> set fl \<Longrightarrow>
  enc fl j e = join_pool_value (Some ALLOCATED_SENTINEL) (Some ALLOCATED_SENTINEL) (Some e)"
  by (simp add: enc_def link_of_def)

lemma enc_push:
  assumes wf: "wf_pool p" and k: "k \<notin> set (free p)" and ne: "free p \<noteq> []"
  shows "(enc_pool (free p) (members p))
      (k \<mapsto> join_pool_value (Some (last0 (free p))) (Some '''') (Some e),
       last0 (free p) \<mapsto> join_pool_value (Some (prv (free p) (last0 (free p)))) (Some k)
         (members p (last0 (free p)))) = enc_pool (free p @ [k]) ((members p)(k \<mapsto> e))"
    (is "?L = ?R")
proof (rule ext)
  fix j
  have d: "distinct (free p)" and last: "last0 (free p) \<in> set (free p)"
    using wf ne by (simp_all add: wf_poolD last0_in_set)
  obtain t where t: "members p (last0 (free p)) = Some t"
    using wf_poolD(2) [OF wf last] by auto
  have neq: "last0 (free p) \<noteq> k" using last k by blast
  consider "j = k" | "j = last0 (free p)" | "j \<noteq> k" "j \<noteq> last0 (free p)" by blast
  then show "?L j = ?R j"
  proof cases
    case 1
    with neq k show ?thesis by (simp add: enc_pool_def enc_free link_simps)
  next
    case 2
    with neq d k last t show ?thesis by (simp add: enc_pool_def enc_free link_simps)
  next
    case 3
    with d have "link_of (free p @ [k]) j = link_of (free p) j" by (auto simp: link_of_def link_simps)
    from enc_link [OF this] 3 show ?thesis by (simp add: enc_pool_def)
  qed
qed

lemma enc_push_empty:
  "(enc_pool [] ms)(k \<mapsto> join_pool_value (Some '''') (Some '''') (Some e)) = enc_pool [k] (ms(k \<mapsto> e))"
proof
  fix j
  show "((enc_pool [] ms)(k \<mapsto> join_pool_value (Some '''') (Some '''') (Some e))) j
      = enc_pool [k] (ms(k \<mapsto> e)) j"
    using snoc_ends [where y = k and xs = "[]"] enc_link [of "[]" j "[k]"]
    by (cases "j = k") (simp_all add: enc_pool_def enc_free link_of_def)
qed

text \<open>The pool hash once the item at the head has been unlinked, before its own entry is written.\<close>

definition stitch :: "string list \<Rightarrow> (string \<rightharpoonup> int) \<Rightarrow> (string \<rightharpoonup> string) \<Rightarrow> (string \<rightharpoonup> string)" where
  "stitch rest ms h = (if rest = [] then h
     else h(hd rest \<mapsto> join_pool_value (Some '''') (Some (nxt rest (hd rest))) (ms (hd rest))))"

lemma stitch_apply:
  assumes d: "distinct (k # rest)" and "j \<noteq> k" and mem: "j \<in> set rest \<Longrightarrow> ms j \<noteq> None"
    and h: "h j = enc_pool (k # rest) ms j"
  shows "stitch rest ms h j = enc_pool rest ms j"
proof (cases "rest \<noteq> [] \<and> j = hd rest")
  case True
  then have "j \<in> set rest" "prv rest j = ''''" using d prv_hd [of rest] by auto
  with True mem show ?thesis by (auto simp: stitch_def enc_pool_def enc_free)
next
  case False
  then have "j \<in> set rest \<Longrightarrow> j \<noteq> hd0 rest" by (cases rest) auto
  with d \<open>j \<noteq> k\<close> have "link_of (k # rest) j = link_of rest j"
    using prv_tl [where x = k and xs = rest and k = j] by (auto simp: link_of_def)
  with False h show ?thesis using enc_pool_link [of "k # rest" j rest ms ms] by (auto simp: stitch_def)
qed

lemma enc_drop_head:
  assumes wf: "wf_pool p" and fl: "free p = k # rest"
    and h: "\<And>j. j \<noteq> k \<Longrightarrow> h j = enc_pool (free p) (members p) j"
  shows "h k = None \<Longrightarrow> stitch rest (members p) h = enc_pool rest ((members p)(k := None))"
    and "members p k = Some e \<Longrightarrow>
      (stitch rest (members p) h)
        (k \<mapsto> join_pool_value (Some ALLOCATED_SENTINEL) (Some ALLOCATED_SENTINEL) (Some e))
      = enc_pool rest (members p)"
    and "members p k = Some e \<Longrightarrow>
      h k = Some (join_pool_value (Some ALLOCATED_SENTINEL) (Some ALLOCATED_SENTINEL) (Some e)) \<Longrightarrow>
      stitch rest (members p) h = enc_pool rest (members p)"
proof -
  have d: "distinct (k # rest)" and "\<And>j. j \<in> set rest \<Longrightarrow> members p j \<noteq> None"
    using wf_poolD(1,2) [OF wf] fl by fastforce+
  then have *: "j \<noteq> k \<Longrightarrow> stitch rest (members p) h j = enc_pool rest (members p) j" for j
    using stitch_apply [OF d, of j "members p" h] h [of j] fl by simp
  have k: "stitch rest (members p) h k = h k" using d by (auto simp: stitch_def)
  show "h k = None \<Longrightarrow> stitch rest (members p) h = enc_pool rest ((members p)(k := None))"
    using * k by (auto simp: fun_eq_iff enc_pool_def)
  show "members p k = Some e \<Longrightarrow>
      (stitch rest (members p) h)
        (k \<mapsto> join_pool_value (Some ALLOCATED_SENTINEL) (Some ALLOCATED_SENTINEL) (Some e))
      = enc_pool rest (members p)"
    using * d by (auto simp: fun_eq_iff enc_pool_Some enc_allocated)
  show "members p k = Some e \<Longrightarrow>
      h k = Some (join_pool_value (Some ALLOCATED_SENTINEL) (Some ALLOCATED_SENTINEL) (Some e)) \<Longrightarrow>
      stitch rest (members p) h = enc_pool rest (members p)"
  proof
    fix x
    assume "members p k = Some e"
      and "h k = Some (join_pool_value (Some ALLOCATED_SENTINEL) (Some ALLOCATED_SENTINEL) (Some e))"
    with * k d show "stitch rest (members p) h x = enc_pool rest (members p) x"
      by (cases "x = k") (simp_all add: enc_pool_Some enc_allocated)
  qed
qed

text \<open>Cutting an item out of the middle, step by step as \<open>set_item_allocated\<close> does it.\<close>

definition join_left :: "string list \<Rightarrow> string list \<Rightarrow> string list \<Rightarrow> (string \<rightharpoonup> int) \<Rightarrow> (string \<rightharpoonup> string) \<Rightarrow> (string \<rightharpoonup> string)" where
  "join_left fl us vs ms h = (if us = [] then h
     else h(last us \<mapsto> join_pool_value (Some (prv fl (last us))) (Some (hd0 vs)) (ms (last us))))"

definition join_right :: "string list \<Rightarrow> string list \<Rightarrow> string list \<Rightarrow> (string \<rightharpoonup> int) \<Rightarrow> (string \<rightharpoonup> string) \<Rightarrow> (string \<rightharpoonup> string)" where
  "join_right fl us vs ms h = (if vs = [] then h
     else h(hd vs \<mapsto> join_pool_value (Some (last0 us)) (Some (nxt fl (hd vs))) (ms (hd vs))))"

text \<open>An entry that stays in the list: only the two neighbours of the cut are rewritten.\<close>

lemma enc_cut_member:
  assumes wf: "wf_pool p" and fl: "free p = us @ k # vs"
    and h: "h j = enc_pool (free p) (members p) j" and mem: "j \<noteq> k" "j \<in> set us \<or> j \<in> set vs"
  shows "join_right (free p) us vs (members p) (join_left (free p) us vs (members p) h) j = enc_pool (us @ vs) (members p) j"
    (is "?h j = _")
proof -
  have d: "distinct (us @ k # vs)" and ne: "'''' \<notin> set us" "'''' \<notin> set vs"
    using wf_poolD(1,5) [OF wf] fl by simp_all
  have "j \<noteq> ''''" "members p j \<noteq> None" using mem ne wf_poolD(2) [OF wf, of j] fl by auto
  then obtain m where m: "members p j = Some m" by blast
  have end0: "j = last0 us \<longleftrightarrow> us \<noteq> [] \<and> j = last us" "j = hd0 vs \<longleftrightarrow> vs \<noteq> [] \<and> j = hd vs"
    using \<open>j \<noteq> ''''\<close> by (auto simp: last0_def hd0_def split: list.split)
  have notboth: "us \<noteq> [] \<Longrightarrow> vs \<noteq> [] \<Longrightarrow> last us \<noteq> hd vs" using d last_in_set hd_in_set by fastforce
  have R: "enc_pool (us @ vs) (members p) j
      = Some (join_pool_value (Some (prv (us @ vs) j)) (Some (nxt (us @ vs) j)) (Some m))"
    and L: "h j = Some (join_pool_value (Some (prv (us @ k # vs) j)) (Some (nxt (us @ k # vs) j)) (Some m))"
    using mem m h by (auto simp: enc_pool_Some enc_free fl)
  have n: "nxt (us @ vs) j = (if us \<noteq> [] \<and> j = last us then hd0 vs else nxt (us @ k # vs) j)"
    and p: "prv (us @ vs) j = (if vs \<noteq> [] \<and> j = hd vs then last0 us else prv (us @ k # vs) j)"
    using nxt_cut [OF d ne(1), of j] prv_cut [OF d ne(2), of j] mem end0 \<open>j \<noteq> ''''\<close> by simp_all
  have H: "?h j = (if vs \<noteq> [] \<and> j = hd vs
      then Some (join_pool_value (Some (last0 us)) (Some (nxt (us @ k # vs) j)) (members p j))
      else if us \<noteq> [] \<and> j = last us
      then Some (join_pool_value (Some (prv (us @ k # vs) j)) (Some (hd0 vs)) (members p j)) else h j)"
    unfolding join_right_def join_left_def fl
    by (cases "vs = []"; cases "us = []"; cases "j = hd vs"; cases "j = last us") simp_all
  consider "vs \<noteq> [] \<and> j = hd vs" "\<not> (us \<noteq> [] \<and> j = last us)"
    | "us \<noteq> [] \<and> j = last us" "\<not> (vs \<noteq> [] \<and> j = hd vs)"
    | "\<not> (us \<noteq> [] \<and> j = last us)" "\<not> (vs \<noteq> [] \<and> j = hd vs)"
    using notboth by blast
  then show ?thesis
    unfolding H R n p m L by cases (simp_all only: if_P if_not_P not_False_eq_True)
qed

lemma enc_cut:
  assumes wf: "wf_pool p" and fl: "free p = us @ k # vs" and e: "members p k = Some e"
    and h: "\<And>j. j \<noteq> k \<Longrightarrow> h j = enc_pool (free p) (members p) j"
  shows "(join_right (free p) us vs (members p) (join_left (free p) us vs (members p) h))
      (k \<mapsto> join_pool_value (Some ALLOCATED_SENTINEL) (Some ALLOCATED_SENTINEL) (Some e))
      = enc_pool (us @ vs) (members p)" (is "?h(k \<mapsto> _) = _")
proof (rule ext)
  fix j
  have d: "distinct (us @ k # vs)" using wf_poolD(1) [OF wf] fl by simp
  consider (k) "j = k" | (other) "j \<notin> set us" "j \<notin> set vs" "j \<noteq> k"
    | (mem) "j \<noteq> k" "j \<in> set us \<or> j \<in> set vs" by blast
  then show "(?h(k \<mapsto> join_pool_value (Some ALLOCATED_SENTINEL) (Some ALLOCATED_SENTINEL) (Some e))) j
      = enc_pool (us @ vs) (members p) j"
  proof cases
    case k
    with d e show ?thesis by (simp add: enc_pool_Some enc_allocated)
  next
    case other
    then have "us \<noteq> [] \<Longrightarrow> j \<noteq> last us" "vs \<noteq> [] \<Longrightarrow> j \<noteq> hd vs" using last_in_set hd_in_set by metis+
    then have "?h j = h j" by (simp add: join_right_def join_left_def)
    moreover have "link_of (free p) j = link_of (us @ vs) j" using other by (simp add: link_of_def fl)
    ultimately show ?thesis using h [of j] other(3) enc_pool_link [of "free p" j "us @ vs" "members p" "members p"] by simp
  next
    case mem
    from enc_cut_member [where h = h and j = j, OF wf fl h [OF mem(1)] mem] mem(1) show ?thesis by (subst fun_upd_other)
  qed
qed

section \<open>The helper functions\<close>

lemma push_check_ok:
  "wf_pool p \<Longrightarrow> k \<notin> set (free p) \<Longrightarrow> push_check (enc_pool (free p) (members p) k) = None"
  by (cases "members p k") (simp_all add: push_check_def enc_pool_def split_enc, simp add: link_of_def)

lemma split_enc_pool:
  "wf_pool p \<Longrightarrow> members p k = Some e \<Longrightarrow>
     split_pool_value (enc_pool (free p) (members p) k) =
       (Some (fst (link_of (free p) k)), Some (snd (link_of (free p) k)), members p k)"
  by (simp add: enc_pool_def split_enc)

definition hd_state :: "string list \<Rightarrow> apool \<Rightarrow> aview \<Rightarrow> aview" where
  "hd_state rest p V = V\<lparr>av_pool := stitch rest (members p) (av_pool V), av_head := hd0 rest,
     av_tail := last0 rest\<rparr>"

context redis_server
begin

lemma push_to_tail_sim:
  assumes rep: "rep A (view s) p" and k: "k \<notin> set (free p)" and safe: "safe_key k"
  shows "\<exists>s'. push_to_tail R A k (Some e) s = Done () s' \<and> rep A (view s') (spec_push k e p)"
proof -
  note typed = repD(1) [OF rep] and av = repD(2) [OF rep] and wf = repD(3) [OF rep]
  let ?s1 = "pool_put R A k (Some (last0 (free p))) (Some '''') (Some e) s"
  show ?thesis
  proof (cases "free p = []")
    case True
    let ?s2 = "set_current_tail R A k (set_current_head R A k ?s1)"
    have "push_to_tail R A k (Some e) s = Done () ?s2"
      using True push_check_ok [OF wf k] by (simp add: push_to_tail_def pool_simps typed av Let_def del: av_sel)
    moreover have "av A (view ?s2) = conc (spec_push k e p)"
      using True by (simp add: pool_simps typed av spec_push_def conc_def enc_push_empty del: av_sel)
    ultimately show ?thesis
      using wf_push [OF wf k safe] typed by (auto simp: rep_def pool_simps)
  next
    case False
    let ?t = "last0 (free p)"
    have t: "?t \<in> set (free p)" using False by (rule last0_in_set)
    then obtain te where te: "members p ?t = Some te" using wf_poolD(2) [OF wf] by auto
    have ends: "?t \<noteq> ''''" "hd0 (free p) \<noteq> ''''" "?t \<noteq> k"
      using t k False hd0_in_set wf_poolD(5) [OF wf] by metis+
    have nxt: "nxt (free p) ?t = ''''"
      using nxt_last [OF wf_poolD(1) [OF wf] False] False by (simp add: last0_def)
    let ?s2 = "set_current_tail R A k (pool_put R A ?t (Some (prv (free p) ?t)) (Some k) (Some te) ?s1)"
    have "push_to_tail R A k (Some e) s = Done () ?s2"
      using ends te t nxt
      by (simp add: push_to_tail_def pool_simps typed av push_check_ok wf k enc_pool_Some link_of_def Let_def del: av_sel)
    moreover have "av A (view ?s2) = conc (spec_push k e p)"
      using enc_push [OF wf k False, of e] False te
      by (simp add: pool_simps typed av spec_push_def conc_def hd0_append del: av_sel)
    ultimately show ?thesis
      using wf_push [OF wf k safe] typed by (auto simp: rep_def pool_simps)
  qed
qed

text \<open>One step of the head forward, after the head item \<open>k\<close> was rewritten or deleted.\<close>

lemma advance_sim:
  assumes typed: "typed A (view s)" and wf: "wf_pool p" and fl: "free p = k # rest"
    and tail: "av_tail (av A (view s)) = last0 (free p)"
    and h: "\<And>j. j \<noteq> k \<Longrightarrow> av_pool (av A (view s)) j = enc_pool (free p) (members p) j"
  shows "\<exists>s'. advance_head_after_removal R A (Some (hd0 rest)) s = Done () s' \<and>
      take_head R A (Some (hd0 rest)) s = Done () s' \<and> typed A (view s') \<and>
      av A (view s') = hd_state rest p (av A (view s))"
proof (cases rest)
  case Nil
  then show ?thesis
    by (auto simp: advance_head_after_removal_def take_head_def pool_simps typed hd_state_def stitch_def simp del: av_sel)
next
  case (Cons h' t)
  have d: "distinct (k # h' # t)" and "h' \<in> set (free p)" using wf_poolD(1) [OF wf] fl Cons by simp_all
  then obtain e where e: "members p h' = Some e" and "h' \<noteq> ''''"
    using wf_poolD(2,5) [OF wf] by force
  have get: "av_pool (av A (view s)) h' = Some (enc (free p) h' e)"
    using h [of h'] d e by (auto simp: enc_pool_Some simp del: av_sel)
  have link: "link_of (free p) h' = (prv (free p) h', nxt rest h')"
    using d fl Cons by (simp add: link_of_def)
  have "last0 (free p) = last0 rest" using fl Cons by (simp add: last0_def)
  then show ?thesis
    using Cons get link e \<open>h' \<noteq> ''''\<close> tail wf
    by (simp add: advance_head_after_removal_def take_head_def pool_simps typed hd_state_def stitch_def
        del: av_sel)
qed

text \<open>A stale head leaves the list: deleted when it has expired, marked allocated when it is locked.\<close>

lemma stale_head_sim:
  assumes rep: "rep A (view s) p" and fl: "free p = k # rest" and e: "members p k = Some e"
    and stale: "\<not> available p k"
  defines "s1 \<equiv> (if expired p k then pool_del R A k s
     else pool_put R A k (Some ALLOCATED_SENTINEL) (Some ALLOCATED_SENTINEL) (Some e) s)"
  shows "\<exists>s'. advance_head_after_removal R A (Some (hd0 rest)) s1 = Done () s' \<and>
      rep A (view s') (drop_head k p)"
proof -
  note typed = repD(1) [OF rep] and av = repD(2) [OF rep] and wf = repD(3) [OF rep]
  have t1: "typed A (view s1)" and tl1: "av_tail (av A (view s1)) = last0 (free p)"
    and h1: "\<And>j. j \<noteq> k \<Longrightarrow> av_pool (av A (view s1)) j = enc_pool (free p) (members p) j"
    using typed av by (simp_all add: s1_def pool_simps del: av_sel)
  from advance_sim [OF t1 wf fl tl1 h1] obtain s' where
    s': "advance_head_after_removal R A (Some (hd0 rest)) s1 = Done () s'" "typed A (view s')"
      "av A (view s') = hd_state rest p (av A (view s1))" by blast
  have "stitch rest (members p) (av_pool (av A (view s1))) = enc_pool rest (members (drop_head k p))"
  proof (cases "expired p k")
    case True
    then have "av_pool (av A (view s1)) k = None"
      using typed by (simp add: s1_def pool_simps del: av_sel)
    from enc_drop_head(1) [OF wf fl h1 this] True show ?thesis by (simp add: drop_head_def)
  next
    case False
    then have "av_pool (av A (view s1)) k
        = Some (join_pool_value (Some ALLOCATED_SENTINEL) (Some ALLOCATED_SENTINEL) (Some e))"
      using typed by (simp add: s1_def pool_simps del: av_sel)
    from enc_drop_head(3) [OF wf fl h1 e this] False show ?thesis by (simp add: drop_head_def)
  qed
  then have "av A (view s') = conc (drop_head k p)"
    using s'(3) av typed
    by (cases "expired p k")
      (simp_all add: s1_def hd_state_def conc_def pool_simps drop_head_def fl del: av_sel)
  then show ?thesis using s' wf_drop_head [OF wf fl] by (auto simp: rep_def)
qed

text \<open>An available head is taken: it is marked allocated and the rest remains.\<close>

lemma fresh_head_sim:
  assumes rep: "rep A (view s) p" and fl: "free p = k # rest" and e: "members p k = Some e"
  shows "\<exists>s'. take_head R A (Some (hd0 rest)) s = Done () s' \<and>
    rep A (view (pool_put R A k (Some ALLOCATED_SENTINEL) (Some ALLOCATED_SENTINEL) (Some e) s')) (p\<lparr>free := rest\<rparr>)"
proof -
  note typed = repD(1) [OF rep] and av = repD(2) [OF rep] and wf = repD(3) [OF rep]
  obtain s' where s': "take_head R A (Some (hd0 rest)) s = Done () s'" "typed A (view s')"
      "av A (view s') = hd_state rest p (av A (view s))"
    using advance_sim [OF typed wf fl] av by (auto simp del: av_sel)
  have "av A (view (pool_put R A k (Some ALLOCATED_SENTINEL) (Some ALLOCATED_SENTINEL) (Some e) s')) = conc (p\<lparr>free := rest\<rparr>)"
    using enc_drop_head(2) [where h = "enc_pool (free p) (members p)", OF wf fl _ e] s' av
    by (simp add: pool_simps hd_state_def conc_def del: av_sel)
  moreover have "wf_pool (p\<lparr>free := rest\<rparr>)" using wf fl by (simp add: wf_pool_def)
  ultimately show ?thesis using s'(1,2) by (auto simp: rep_def pool_simps)
qed

text \<open>What the script reads at the head.\<close>

lemma pop_loop_reads:
  assumes rep: "rep A (view s) p" and fl: "free p = k # rest" and e: "members p k = Some e"
  shows "current_head R A s = k" and "k \<noteq> ''''" and "pool_get R A k s = Some (enc (free p) k e)"
    and "split_pool_value (Some (enc (free p) k e)) = (Some (prv (free p) k), Some (hd0 rest), Some e)"
    and "is_expiry_invalid R (Some e) s = expired p k" and "locked R A k s = (alock p k \<noteq> None)"
proof -
  note typed = repD(1) [OF rep] and av = repD(2) [OF rep] and wf = repD(3) [OF rep]
  have link: "link_of (free p) k = (prv (free p) k, hd0 rest)" using fl by (simp add: link_of_def)
  show "current_head R A s = k" using fl by (simp add: pool_simps typed av del: av_sel)
  show "k \<noteq> ''''" using wf_poolD(5) [OF wf] fl by force
  show "pool_get R A k s = Some (enc (free p) k e)"
    using e by (simp add: pool_simps typed av enc_pool_Some del: av_sel)
  show "split_pool_value (Some (enc (free p) k e)) = (Some (prv (free p) k), Some (hd0 rest), Some e)"
    using link by (simp add: split_enc [OF wf])
  show "is_expiry_invalid R (Some e) s = expired p k" "locked R A k s = (alock p k \<noteq> None)"
    using e by (simp_all add: pool_simps typed av expired_def rep_now [OF rep] del: av_sel)
qed

lemma pop_loop_sim:
  assumes "rep A (view s) p" and "length (free p) < fuel"
  shows "\<exists>s'. pop_loop R A fuel s = Done (map_option (\<lambda>k. (k, members p k)) (fst (spec_pop p))) s' \<and>
    rep A (view s') (snd (spec_pop p))"
  using assms
proof (induction "free p" arbitrary: p s fuel)
  case Nil
  then show ?case
    using repD(1,2) [OF Nil(2)]
    by (cases fuel) (auto simp: spec_pop_Nil pool_simps simp del: av_sel)
next
  case (Cons k rest)
  note fl = Cons(2) [symmetric] and rep = Cons(3)
  note wf = repD(3) [OF rep]
  obtain f where f: "fuel = Suc f" "length rest < f" using Cons(4) fl by (cases fuel) auto
  have d: "distinct (k # rest)" using wf_poolD(1) [OF wf] fl by simp
  obtain e where e: "members p k = Some e" using wf_poolD(2) [OF wf, of k] fl by auto
  note run = f(1) pop_loop_reads [OF rep fl e]
  show ?case
  proof (cases "available p k")
    case True
    from fresh_head_sim [OF rep fl e] True e show ?thesis
      by (auto simp: run available_def spec_pop_available [OF fl True])
  next
    case False
    from stale_head_sim [OF rep fl e False] obtain s2 where
      s2: "advance_head_after_removal R A (Some (hd0 rest)) (if expired p k then pool_del R A k s
          else pool_put R A k (Some ALLOCATED_SENTINEL) (Some ALLOCATED_SENTINEL) (Some e) s) = Done () s2"
        "rep A (view s2) (drop_head k p)" by blast
    have rest: "free (drop_head k p) = rest" by (simp add: drop_head_def fl)
    with Cons(1) [of "drop_head k p" s2 f] s2(2) f(2) obtain s' where
      s': "pop_loop R A f s2 = Done (map_option (\<lambda>j. (j, members (drop_head k p) j)) (fst (spec_pop (drop_head k p)))) s'"
        "rep A (view s') (snd (spec_pop (drop_head k p)))" by auto
    have "pop_loop R A fuel s = pop_loop R A f s2"
      using False s2(1) by (cases "expired p k") (auto simp: run available_def)
    moreover have "map_option (\<lambda>j. (j, members (drop_head k p) j)) (fst (spec_pop (drop_head k p)))
        = map_option (\<lambda>j. (j, members p j)) (fst (spec_pop p))"
    proof (cases "fst (spec_pop (drop_head k p))")
      case (Some j)
      then have "j \<noteq> k" using spec_pop_Some(1) [OF Some] d rest by auto
      with Some show ?thesis using spec_pop_stale [OF fl d False] drop_head_other(1) by simp
    qed (simp add: spec_pop_stale [OF fl d False])
    ultimately show ?thesis using s' spec_pop_stale [OF fl d False] by simp
  qed
qed

lemma pop_from_head_sim:
  assumes rep: "rep A (view s) p"
  shows "\<exists>s'. pop_from_head R A s = Done (map_option (\<lambda>k. (k, members p k)) (fst (spec_pop p))) s' \<and>
    rep A (view s') (snd (spec_pop p))"
proof -
  note wf = repD(3) [OF rep]
  have "length (free p) \<le> card (dom (members p))"
    using wf by (metis card_mono distinct_card wf_pool_def)
  then have "length (free p) < pop_fuel R A s"
    using repD(1,2) [OF rep] by (simp add: pop_fuel_def pool_simps del: av_sel)
  from pop_loop_sim [OF rep this] show ?thesis by (simp add: pop_from_head_def)
qed

text \<open>\<open>set_item_allocated\<close> on a free item: its neighbours are joined and it becomes allocated.\<close>

lemma unlink_sim:
  assumes typed: "typed A (view s)" and wf: "wf_pool p" and fl: "free p = us @ k # vs"
    and h: "\<And>j. j \<noteq> k \<Longrightarrow> av_pool (av A (view s)) j = enc_pool (free p) (members p) j"
    and ends: "av_head (av A (view s)) = hd0 (free p)" "av_tail (av A (view s)) = last0 (free p)"
  shows "\<exists>s2. unlink_prev R A (Some (last0 us)) (Some (hd0 vs)) s = Done () s2 \<and>
     (\<exists>s3. unlink_next R A (Some (last0 us)) (Some (hd0 vs)) s2 = Done () s3 \<and> typed A (view s3) \<and>
       av A (view s3) = (av A (view s))\<lparr>av_pool := join_right (free p) us vs (members p)
           (join_left (free p) us vs (members p) (av_pool (av A (view s)))),
         av_head := hd0 (us @ vs), av_tail := last0 (us @ vs)\<rparr>)"
proof -
  have d: "distinct (us @ k # vs)" and ne: "'''' \<notin> set (us @ k # vs)"
    using wf_poolD(1,5) [OF wf] fl by simp_all
  have left: "us \<noteq> [] \<Longrightarrow> last us \<in> set (free p) \<and> last us \<noteq> k \<and> last us \<noteq> ''''"
    and right: "vs \<noteq> [] \<Longrightarrow> hd vs \<in> set (free p) \<and> hd vs \<noteq> k \<and> hd vs \<noteq> '''' \<and> (us \<noteq> [] \<longrightarrow> hd vs \<noteq> last us)"
    using d ne fl last_in_set [of us] by (cases vs; auto)+
  have val: "j \<in> set (free p) \<Longrightarrow> j \<noteq> k \<Longrightarrow> \<exists>e. members p j = Some e \<and>
      av_pool (av A (view s)) j = Some (enc (free p) j e) \<and>
      split_pool_value (Some (enc (free p) j e)) = (Some (prv (free p) j), Some (nxt (free p) j), members p j)" for j
    using h [of j] wf_poolD(2) [OF wf, of j] by (auto simp: enc_pool_Some split_enc [OF wf] link_of_def)
  define s2 where "s2 = (if us = [] then set_current_head R A (hd0 vs) s
    else pool_put R A (last us) (Some (prv (free p) (last us))) (Some (hd0 vs)) (members p (last us)) s)"
  define s3 where "s3 = (if vs = [] then set_current_tail R A (last0 us) s2
    else pool_put R A (hd vs) (Some (last0 us)) (Some (nxt (free p) (hd vs))) (members p (hd vs)) s2)"
  have u2: "unlink_prev R A (Some (last0 us)) (Some (hd0 vs)) s = Done () s2"
    using left val [of "last us"]
    by (auto simp: unlink_prev_def s2_def last0_def pool_simps typed simp del: av_sel)
  have t2: "typed A (view s2)" using typed by (simp add: s2_def pool_simps)
  have "vs \<noteq> [] \<Longrightarrow> av_pool (av A (view s2)) (hd vs) = av_pool (av A (view s)) (hd vs)"
    using right typed by (auto simp: s2_def pool_simps simp del: av_sel)
  then have u3: "unlink_next R A (Some (last0 us)) (Some (hd0 vs)) s2 = Done () s3"
    using right val [of "hd vs"]
    by (cases vs) (auto simp: unlink_next_def s3_def pool_simps t2 simp del: av_sel)
  have t3: "typed A (view s3)" using t2 by (simp add: s3_def pool_simps)
  have "hd0 (free p) = (if us = [] then k else hd0 us)" "last0 (free p) = (if vs = [] then k else last0 vs)"
    using fl by (simp_all add: hd0_append last0_append) (simp add: last0_def)
  then have "av A (view s3) = (av A (view s))\<lparr>av_pool := join_right (free p) us vs (members p)
           (join_left (free p) us vs (members p) (av_pool (av A (view s)))),
         av_head := hd0 (us @ vs), av_tail := last0 (us @ vs)\<rparr>"
    using typed t2 ends
    by (cases "us = []"; cases "vs = []")
      (simp_all add: s2_def s3_def pool_simps join_left_def join_right_def hd0_append last0_append del: av_sel)
  with u2 u3 t3 show ?thesis by blast
qed

text \<open>Both neighbours are unlinked, and the item is written back as allocated, deleted before or not.\<close>

lemma unlink_free_sim:
  assumes rep: "rep A (view s) p" and e: "members p k = Some e" and fl: "free p = us @ k # vs"
    and s1: "s1 = (if gone then pool_del R A k s else s)"
  shows "\<exists>s2 s3. unlink_prev R A (Some (last0 us)) (Some (hd0 vs)) s1 = Done () s2 \<and>
    unlink_next R A (Some (last0 us)) (Some (hd0 vs)) s2 = Done () s3 \<and>
    rep A (view (pool_put R A k (Some ALLOCATED_SENTINEL) (Some ALLOCATED_SENTINEL) (Some e) s3)) (spec_take k p)"
proof -
  note typed = repD(1) [OF rep] and av = repD(2) [OF rep] and wf = repD(3) [OF rep]
  have d: "distinct (us @ k # vs)" using wf_poolD(1) [OF wf] fl by simp
  have t1: "typed A (view s1)" using typed by (simp add: s1 pool_simps)
  obtain h where av1: "av A (view s1) = (conc p)\<lparr>av_pool := h\<rparr>"
    and h: "\<And>j. j \<noteq> k \<Longrightarrow> h j = enc_pool (free p) (members p) j"
  proof
    let ?h = "if gone then (enc_pool (free p) (members p))(k := None) else enc_pool (free p) (members p)"
    show "av A (view s1) = (conc p)\<lparr>av_pool := ?h\<rparr>"
      using typed av by (simp add: s1 pool_simps conc_def del: av_sel)
  qed auto
  have h1: "\<And>j. j \<noteq> k \<Longrightarrow> av_pool (av A (view s1)) j = enc_pool (free p) (members p) j"
    and ends: "av_head (av A (view s1)) = hd0 (free p)" "av_tail (av A (view s1)) = last0 (free p)"
    unfolding av1 using h by simp_all
  from unlink_sim [OF t1 wf fl h1 ends] obtain s2 s3 where
    run: "unlink_prev R A (Some (last0 us)) (Some (hd0 vs)) s1 = Done () s2"
      "unlink_next R A (Some (last0 us)) (Some (hd0 vs)) s2 = Done () s3"
    and t3: "typed A (view s3)" and av3: "av A (view s3) = (av A (view s1))
      \<lparr>av_pool := join_right (free p) us vs (members p)
         (join_left (free p) us vs (members p) (av_pool (av A (view s1)))),
       av_head := hd0 (us @ vs), av_tail := last0 (us @ vs)\<rparr>" by blast
  have "av A (view (pool_put R A k (Some ALLOCATED_SENTINEL) (Some ALLOCATED_SENTINEL) (Some e) s3)) = conc (spec_take k p)"
    using enc_cut [OF wf fl e h] d
    by (simp add: pool_simps t3 av3 av1 spec_take_def conc_def fl remove1_append del: av_sel)
  with run t3 wf_take [OF wf] show ?thesis by (auto simp: rep_def pool_simps)
qed

lemma set_item_allocated_sim:
  assumes rep: "rep A (view s) p" and e: "members p k = Some e"
    and val: "val = None \<or> val = Some (enc (free p) k e)"
  shows "\<exists>s'. set_item_allocated R A k val s = Done () s' \<and> rep A (view s') (spec_take k p)"
proof -
  note typed = repD(1) [OF rep] and av = repD(2) [OF rep] and wf = repD(3) [OF rep]
  have v: "(case val of None \<Rightarrow> pool_get R A k s | Some v \<Rightarrow> Some v) = Some (enc (free p) k e)"
    using val e by (auto simp: pool_simps typed av enc_pool_Some simp del: av_sel)
  have split: "split_pool_value (Some (enc (free p) k e))
      = (Some (fst (link_of (free p) k)), Some (snd (link_of (free p) k)), Some e)"
    by (rule split_enc [OF wf])
  show ?thesis
  proof (cases "k \<in> set (free p)")
    case False
    then have "spec_take k p = p" by (simp add: spec_take_def remove1_idem)
    with False rep show ?thesis
      by (simp add: set_item_allocated_def v split link_of_def)
  next
    case True
    then obtain us vs where fl: "free p = us @ k # vs" by (meson split_list)
    have "distinct (us @ k # vs)" using wf_poolD(1) [OF wf] fl by simp
    then have link: "link_of (free p) k = (last0 us, hd0 vs)" by (simp add: link_of_def fl nxt_at prv_at)
    have not_sent: "last0 us \<noteq> ALLOCATED_SENTINEL" "hd0 vs \<noteq> ALLOCATED_SENTINEL"
      using wf_poolD(6) [OF wf] valid_sentinel_link(3) last0_in_set [of us] hd0_in_set [of vs] fl
      by (cases us; cases vs; auto)+
    from unlink_free_sim [OF rep e fl refl, of "is_expiry_invalid R (Some e) s"] not_sent show ?thesis
      by (auto simp: set_item_allocated_def v split link Let_def)
  qed
qed

lemma del_allocated_sim:
  assumes rep: "rep A (view s) p" and k: "k \<notin> set (free p)"
  shows "rep A (view (pool_del R A k s)) (spec_remove k p)"
proof -
  have "(enc_pool (free p) (members p))(k := None) = enc_pool (free p) ((members p)(k := None))"
    by (auto simp: enc_pool_def)
  with repD [OF rep] wf_remove [of p k] k show ?thesis
    by (simp add: rep_def pool_simps conc_def spec_remove_def remove1_idem del: av_sel)
qed

lemma take_then_remove: "distinct (free p) \<Longrightarrow> spec_remove k (spec_take k p) = spec_remove k p"
  by (simp add: spec_remove_def spec_take_def remove1_idem distinct_remove1)

lemma pool_entry:
  assumes rep: "rep A (view s) p" and e: "members p k = Some e"
  shows "pool_get R A k s = Some (enc (free p) k e)"
    and "split_pool_value (Some (enc (free p) k e)) = (Some (fst (link_of (free p) k)), Some (snd (link_of (free p) k)), Some e)"
    and "is_expiry_invalid R (Some e) s = expired p k" and "locked R A k s = (alock p k \<noteq> None)"
    and "k \<in> set (free p) \<longleftrightarrow> fst (link_of (free p) k) \<noteq> ALLOCATED_SENTINEL"
proof -
  note wf = repD(3) [OF rep]
  show "pool_get R A k s = Some (enc (free p) k e)" and "locked R A k s = (alock p k \<noteq> None)"
    using repD(1,2) [OF rep] e by (simp_all add: pool_simps enc_pool_Some del: av_sel)
  show "split_pool_value (Some (enc (free p) k e)) = (Some (fst (link_of (free p) k)), Some (snd (link_of (free p) k)), Some e)"
    by (rule split_enc [OF wf])
  show "is_expiry_invalid R (Some e) s = expired p k"
    using e by (simp add: pool_simps expired_def rep_now [OF rep])
  show "k \<in> set (free p) \<longleftrightarrow> fst (link_of (free p) k) \<noteq> ALLOCATED_SENTINEL"
    using prv_mem [of "free p" k] wf_poolD(6) [OF wf] valid_sentinel_link(3) by (auto simp: link_of_def)
qed

lemma check_item_health_sim:
  assumes rep: "rep A (view s) p" and k: "k \<in> dom (members p)"
  shows "\<exists>s'. check_item_health R A k s = Done () s' \<and> rep A (view s') (spec_check k p)"
proof -
  from k obtain e where e: "members p k = Some e" by auto
  note wf = repD(3) [OF rep] and entry = pool_entry [OF rep e]
  have safe: "safe_key k" using wf_poolD(4) [OF wf k] .
  obtain s1 where alloc: "set_item_allocated R A k (Some (enc (free p) k e)) s = Done () s1"
    "rep A (view s1) (spec_take k p)"
    using set_item_allocated_sim [OF rep e, of "Some (enc (free p) k e)"] by blast
  have "k \<notin> set (free (spec_take k p))" using wf_poolD(1) [OF wf] by (simp add: spec_take_def)
  from del_allocated_sim [OF alloc(2) this]
  have del: "rep A (view (pool_del R A k s1)) (spec_remove k p)"
    using take_then_remove [OF wf_poolD(1) [OF wf]] by simp
  show ?thesis
  proof (cases "expired p k")
    case True
    with alloc del show ?thesis by (simp add: check_item_health_def entry spec_check_def)
  next
    case False
    then show ?thesis
      using alloc entry(5) rep push_to_tail_sim [OF rep _ safe, of e] e
      by (auto simp: check_item_health_def entry(1-4) spec_check_def)
  qed
qed

lemma check_item_health_gone:
  "rep A (view s) p \<Longrightarrow> k \<notin> dom (members p) \<Longrightarrow>
     check_item_health R A k s = Abort (LuaAssert ''value should not be nil'') s"
  using repD(1,2) [of A "view s" p]
  by (cases "members p k") (auto simp: check_item_health_def pool_simps enc_pool_def simp del: av_sel)

section \<open>Reading the free list\<close>

lemma free_list_loop_eq:
  assumes rep: "rep A (view s) p"
  shows "free p = us @ c # vs \<Longrightarrow> length vs < n \<Longrightarrow> free_list_loop R A n (Some c) us s = free p"
proof (induction vs arbitrary: us c n)
  case Nil
  note wf = repD(3) [OF rep]
  have "c \<in> set (free p)" "distinct (us @ [c])" using Nil(1) wf_poolD(1) [OF wf] by simp_all
  then obtain e where "members p c = Some e" using wf_poolD(2) [OF wf] by auto
  with \<open>distinct (us @ [c])\<close> Nil show ?case
    using pool_entry(1,2) [OF rep, of c] wf_poolD(5) [OF wf]
    by (cases n) (auto simp: link_of_def nxt_at)
next
  case (Cons d vs)
  note wf = repD(3) [OF rep]
  have c: "c \<in> set (free p)" "d \<in> set (free p)" and dist: "distinct (us @ c # d # vs)"
    using Cons(2) wf_poolD(1) [OF wf] by simp_all
  then obtain e where e: "members p c = Some e" using wf_poolD(2) [OF wf] by auto
  obtain m where m: "n = Suc m" "length vs < m" using Cons(3) by (cases n) auto
  have "nxt (free p) c = d" using dist Cons(2) by (simp add: nxt_at)
  moreover have "c \<noteq> ''''" "d \<noteq> ''''" "d \<noteq> ALLOCATED_SENTINEL"
    using c wf_poolD(5,6) [OF wf] by metis+
  moreover have "free_list_loop R A m (Some d) (us @ [c]) s = free p"
    using Cons(1) [of "us @ [c]" d m] Cons(2) m(2) by simp
  ultimately show ?case
    using pool_entry(1,2) [OF rep e] c m(1) by (simp add: link_of_def)
qed

lemma get_free_list_eq:
  assumes rep: "rep A (view s) p"
  shows "lua_get_free_list R A s = free p"
proof -
  note wf = repD(3) [OF rep]
  have len: "length (free p) \<le> card (dom (members p))"
    using wf by (metis card_mono distinct_card wf_pool_def)
  have hlen: "r_hlen R (pool_str A) s = card (dom (members p))"
    using repD(1,2) [OF rep] by (simp add: pool_simps del: av_sel)
  have head: "(case r_get R (pool_pointer_str A True) s of None \<Rightarrow> '''' | Some c \<Rightarrow> c) = hd0 (free p)"
    using repD(1,2) [OF rep] read_simps(2) [OF repD(1) [OF rep]]
    by (simp add: current_head_def current_pointer_def del: av_sel)
  show ?thesis
  proof (cases "free p")
    case Nil
    with head show ?thesis by (auto simp: lua_get_free_list_def split: option.splits)
  next
    case (Cons c vs)
    then have "c \<noteq> ''''" using wf_poolD(5) [OF wf] by auto
    with Cons head have "r_get R (pool_pointer_str A True) s = Some c" by (auto split: option.splits)
    with Cons len hlen \<open>c \<noteq> ''''\<close> free_list_loop_eq [OF rep, of "[]" c vs] show ?thesis
      by (simp add: lua_get_free_list_def)
  qed
qed

end

end
