(* ===== verification/Allocator_Refine.thy ===== *)
theory Allocator_Refine
  imports Allocator_Spec Pool_Refine
begin

text \<open>
  The scripts of \<open>Allocator\<close> implement the operations of \<open>Allocator_Spec\<close>: from a key space that
  represents a pool, each runs to its end without an error and leaves a key space that represents the
  specified pool. The few ways to fail are stated beside it.
\<close>

section \<open>Single writes\<close>

lemma rep_put:
  assumes "rep A V p"
  shows "rep A (put_str (key_str A k) v ex V) (set_lock k (v, deadline V ex) p)"
    "rep A (put_str (py_soft_bind_name A n) v ex V) (set_bind n (v, deadline V ex) p)"
    "rep A (put_str (gc_cursor_str A) v ex V) p"
    "rep A (erase (key_str A k) V) (drop_lock k p)"
    "rep A (erase (py_soft_bind_name A n) V) (drop_bind n p)"
  using repD [OF assms]
  by (simp_all add: rep_def pool_simps conc_def set_lock_def set_bind_def drop_lock_def drop_bind_def del: av_sel)

lemma pointer_permanent: "typed A V \<Longrightarrow> strs V (pool_pointer_str A b) = Some (v, d) \<Longrightarrow> d = None"
  unfolding typed_def by blast

lemma ptr_elapse: "typed A V \<Longrightarrow> ptr (elapse d V) (pool_pointer_str A b) = ptr V (pool_pointer_str A b)"
  unfolding ptr_def redis_simps
  by (cases "strs V (pool_pointer_str A b)") (auto simp: live_def dest: pointer_permanent)

lemma av_elapse:
  assumes "rep A V p"
  shows "av A (elapse d V) = conc (spec_elapse d p)"
  using repD(2) [OF assms] rep_lock [OF assms] rep_bind [OF assms] rep_now [OF assms]
  by (simp add: av_def ptr_elapse [OF repD(1) [OF assms]] conc_def redis_simps spec_elapse_def Let_def
      cong: option.case_cong)

lemma rep_elapse: "rep A V p \<Longrightarrow> rep A (elapse d V) (spec_elapse d p)"
  by (simp add: repI pool_simps av_elapse repD(1,3))

text \<open>What the representation tells about the reads of the scripts.\<close>

lemma rep_dom_pool: "rep A V p \<Longrightarrow> dom (hashes V (pool_str A)) = dom (members p)"
  by (metis av_sel(1) conc_sel(1) dom_enc_pool rep_def)

context redis_server
begin

lemma rep_reads:
  assumes "rep A (view s) p"
  shows "r_hexists R (pool_str A) k s = (k \<in> dom (members p))"
    and "r_exists R (key_str A k) s = (alock p k \<noteq> None)"
    and "fst (r_del R (key_str A k) s) = (alock p k \<noteq> None)"
    and "set (r_hkeys R (pool_str A) s) = dom (members p)"
    and "r_get R (py_soft_bind_name A n) s = map_option fst (abind p n)"
    and "timeout_to_expiry R (Some t) s = expiry_of p t"
    and "pool_get R A k s = None \<longleftrightarrow> k \<notin> dom (members p)"
proof -
  note t = repD(1) [OF assms] and a = repD(2) [OF assms]
  show "r_hexists R (pool_str A) k s = (k \<in> dom (members p))"
    "r_exists R (key_str A k) s = (alock p k \<noteq> None)"
    "fst (r_del R (key_str A k) s) = (alock p k \<noteq> None)"
    "r_get R (py_soft_bind_name A n) s = map_option fst (abind p n)"
    "timeout_to_expiry R (Some t) s = expiry_of p t"
    "pool_get R A k s = None \<longleftrightarrow> k \<notin> dom (members p)"
    using t a rep_now [OF assms]
    by (auto simp: pool_simps enc_pool_None expiry_of_def domIff simp del: av_sel not_None_eq)
  show "set (r_hkeys R (pool_str A) s) = dom (members p)"
    using hkeys_set typed_keys(1) [OF t] rep_dom_pool [OF assms] by metis
qed

lemma rep_writes:
  assumes "rep A (view s) p"
  shows "rep A (view (snd (r_del R (key_str A k) s))) (drop_lock k p)"
    and "rep A (view (snd (r_del R (py_soft_bind_name A n) s))) (drop_bind n p)"
    and "rep A (view (r_set R (key_str A k) v s)) (set_lock k (v, None) p)"
    and "rep A (view (r_set R (py_soft_bind_name A n) v s)) (set_bind n (v, None) p)"
    and "rep A (view (r_set R (gc_cursor_str A) v s)) p"
  using rep_put(1-2) [OF assms, where ex = None] rep_put(3-5) [OF assms]
  by (simp_all add: del set_cmd deadline_def)

lemma rep_set_ex:
  assumes "rep A (view s) p" and "0 < t"
  shows "\<exists>s'. set_ex R (key_str A k) v t s = Done () s' \<and> rep A (view s') (set_lock k (v, until p t) p)"
    and "\<exists>s'. set_ex R (py_soft_bind_name A n) v t s = Done () s' \<and> rep A (view s') (set_bind n (v, until p t) p)"
  using set_ex_pos [OF assms(2), of _ v s] rep_put(1,2) [OF assms(1), where ex = "Some t"] assms(2)
    rep_now [OF assms(1)]
  by (fastforce simp: deadline_def until_def)+

section \<open>clear, extend and shrink\<close>

lemma clear_sim:
  assumes "rep A (view s) p"
  shows "\<exists>s'. clear R A s = Done () s' \<and> rep A (view s') (spec_clear p)"
  using repD(1,2) [OF assms]
  by (auto simp: clear_def rep_def pool_simps conc_def spec_clear_def wf_pool_def enc_pool_def fun_eq_iff
      hd0_def last0_def simp del: av_sel)

lemma add_new_sim:
  assumes "rep A (view s) p" and "k \<notin> set (free p)" and "safe_key k"
  shows "\<exists>s'. add_new R A e k s = Done () s' \<and> rep A (view s') (spec_add e k p)"
  using push_to_tail_sim [OF rep_writes(1) [OF assms(1), of k], of k e] assms
  by (simp add: add_new_def spec_add_def)

lemma extend_one_sim:
  assumes rep: "rep A (view s) p" and safe: "safe_key k"
  shows "\<exists>s'. extend_one R A e k s = Done () s' \<and> rep A (view s') (spec_extend_one e k p)"
proof (cases "members p k")
  case None
  then have "k \<notin> set (free p)" using wf_poolD(2) [OF repD(3) [OF rep], of k] by auto
  from add_new_sim [OF rep this safe] None rep_reads(7) [OF rep, of k] show ?thesis
    by (auto simp: extend_one_def spec_extend_one_def)
next
  case (Some e0)
  note entry = pool_entry [OF rep Some] and wf = repD(3) [OF rep]
  let ?s' = "pool_put R A k (Some (fst (link_of (free p) k))) (Some (snd (link_of (free p) k))) (Some e) s"
  have "extend_one R A e k s = Done () ?s'"
    using entry(1,2) by (simp add: extend_one_def)
  moreover have "(enc_pool (free p) (members p))(k \<mapsto> enc (free p) k e) = enc_pool (free p) ((members p)(k \<mapsto> e))"
    by (auto simp: enc_pool_def)
  then have "rep A (view ?s') (p\<lparr>members := (members p)(k \<mapsto> e)\<rparr>)"
    using repD(1,2) [OF rep] wf_refresh [OF wf, of k e] Some
    by (simp add: rep_def pool_simps conc_def enc_def domI del: av_sel)
  ultimately show ?thesis using Some by (simp add: spec_extend_one_def domI)
qed

lemma extend_script_sim:
  assumes "rep A (view s) p" and "\<forall>k\<in>set ks. safe_key k"
  shows "\<exists>s'. extend_script R A t ks s = Done () s' \<and> rep A (view s') (spec_extend t ks p)"
  unfolding extend_script_def spec_extend_def rep_reads(6) [OF assms(1)] Let_def
  using assms by (intro for_each_simulation [where Q = "\<lambda>s. rep A (view s)"] extend_one_sim) auto

lemma shrink_one_sim:
  assumes rep: "rep A (view s) p"
  shows "\<exists>s'. shrink_one R A k s = Done () s' \<and> rep A (view s') (spec_remove k p)"
proof (cases "members p k")
  case None
  then have "spec_remove k p = p"
    using wf_poolD(2) [OF repD(3) [OF rep], of k] remove1_idem [of k "free p"]
    by (cases p) (auto simp: spec_remove_def fun_upd_idem)
  with None rep rep_reads(1) [OF rep, of k] show ?thesis by (auto simp: shrink_one_def)
next
  case (Some e)
  note d = wf_poolD(1) [OF repD(3) [OF rep]]
  obtain s1 where "set_item_allocated R A k None s = Done () s1" and s1: "rep A (view s1) (spec_take k p)"
    using set_item_allocated_sim [OF rep Some, of None] by blast
  moreover have "rep A (view (pool_del R A k s1)) (spec_remove k p)"
    using del_allocated_sim [OF s1, of k] d take_then_remove [OF d, of k] by simp
  ultimately show ?thesis using Some rep_reads(1) [OF rep, of k] by (auto simp: shrink_one_def)
qed

lemma shrink_script_sim:
  "rep A (view s) p \<Longrightarrow> \<exists>s'. for_each (shrink_one R A) ks s = Done () s' \<and> rep A (view s') (spec_shrink ks p)"
  unfolding spec_shrink_def by (intro for_each_simulation [where Q = "\<lambda>s. rep A (view s)"] shrink_one_sim) auto

section \<open>assign\<close>

lemma assign_loop_sim:
  assumes "rep A (view s) p" and "distinct items" and "set items \<subseteq> dom (members p)"
  shows "\<exists>s'. assign_loop R A items S s = Done (filter (\<lambda>k. k \<notin> set items) S) s' \<and>
     rep A (view s') (fold spec_remove (filter (\<lambda>k. k \<notin> set S) items) p)"
  using assms
proof (induction items arbitrary: s p S)
  case (Cons x items)
  from Cons.prems have tl: "distinct items" "x \<notin> set items" "set items \<subseteq> dom (members p)" by simp_all
  show ?case
  proof (cases "x \<in> set S")
    case True
    have "filter (\<lambda>k. k \<notin> set (removeAll x S)) items = filter (\<lambda>k. k \<notin> set S) items"
      using tl(2) by (auto intro: filter_cong)
    moreover have "filter (\<lambda>k. k \<notin> set items) (removeAll x S) = filter (\<lambda>k. k \<notin> set (x # items)) S"
      by (simp add: removeAll_filter_not_eq) (metis (mono_tags, lifting))
    ultimately show ?thesis using Cons.IH [OF Cons.prems(1) tl(1,3), of "removeAll x S"] True by simp
  next
    case False
    from Cons.prems(3) obtain e where e: "members p x = Some e" by auto
    note d = wf_poolD(1) [OF repD(3) [OF Cons.prems(1)]]
    from set_item_allocated_sim [OF Cons.prems(1) e, of None] obtain s1 where
      s1: "set_item_allocated R A x None s = Done () s1" "rep A (view s1) (spec_take x p)" by blast
    have "rep A (view (pool_del R A x s1)) (spec_remove x p)"
      using del_allocated_sim [OF s1(2), of x] d take_then_remove [OF d, of x] by simp
    moreover have "set items \<subseteq> dom (members (spec_remove x p))" using tl(2,3) by auto
    ultimately have "\<exists>s'. assign_loop R A items S (pool_del R A x s1)
        = Done (filter (\<lambda>k. k \<notin> set items) S) s' \<and>
        rep A (view s') (fold spec_remove (filter (\<lambda>k. k \<notin> set S) items) (spec_remove x p))"
      using Cons.IH tl(1) by blast
    moreover have "filter (\<lambda>k. k \<notin> set (x # items)) S = filter (\<lambda>k. k \<notin> set items) S"
      using False by (auto intro: filter_cong)
    ultimately show ?thesis using False s1(1) by simp
  qed
qed simp

lemma fold_add_sim:
  assumes "rep A (view s) p" and "distinct ks" and "\<forall>k\<in>set ks. safe_key k \<and> k \<notin> dom (members p)"
  shows "\<exists>s'. for_each (add_new R A e) ks s = Done () s' \<and> rep A (view s') (fold (spec_add e) ks p)"
  using assms
proof (induction ks arbitrary: s p)
  case (Cons k ks)
  have "k \<notin> set (free p)" using Cons.prems(1,3) wf_poolD(2) [of p k] repD(3) by auto
  with add_new_sim [OF Cons.prems(1)] Cons.prems(3) obtain s1 where
    s1: "add_new R A e k s = Done () s1" "rep A (view s1) (spec_add e k p)" by force
  have "\<forall>j\<in>set ks. safe_key j \<and> j \<notin> dom (members (spec_add e k p))"
    using Cons.prems(2,3) by (auto simp: spec_add_def)
  with Cons.IH [OF s1(2)] Cons.prems(2) s1(1) show ?case by simp
qed simp

lemma assign_script_sim:
  assumes rep: "rep A (view s) p" and safe: "\<forall>k\<in>set ks. safe_key k" and pairs: "table_order pairs"
  shows "\<exists>new s'. assign_script R A pairs t ks s = Done () s' \<and> rep A (view s') (spec_assign t (set ks) new p) \<and>
     distinct new \<and> set new = set ks - dom (members p)"
proof -
  let ?items = "r_hkeys R (pool_str A) s"
  let ?left = "filter (\<lambda>k. k \<notin> set ?items) (remdups ks)"
  note items = rep_reads(4) [OF rep] and wf = repD(3) [OF rep]
  from assign_loop_sim [OF rep, of ?items "remdups ks"] obtain s1 where
    s1: "assign_loop R A ?items (remdups ks) s = Done ?left s1"
    "rep A (view s1) (fold spec_remove (filter (\<lambda>k. k \<notin> set ks) ?items) p)"
    using hkeys_distinct items by auto
  have kept: "fold spec_remove (filter (\<lambda>k. k \<notin> set ks) ?items) p = keep_only (set ks) p"
    using wf items by (intro fold_remove_keep) auto
  let ?new = "pairs ?left"
  have new: "distinct ?new" "set ?new = set ks - dom (members p)"
    using pairs items by (auto simp: table_order_def)
  have fresh: "\<forall>k\<in>set ?new. safe_key k \<and> k \<notin> dom (members (keep_only (set ks) p))"
    using new(2) safe by (auto simp: keep_only_def)
  from fold_add_sim [OF s1(2) [unfolded kept] new(1) fresh] obtain s' where
    "for_each (add_new R A (expiry_of p t)) ?new s1 = Done () s'"
    "rep A (view s') (spec_assign t (set ks) ?new p)" by (auto simp: spec_assign_def)
  with s1(1) new show ?thesis
    by (auto simp: assign_script_def rep_reads(6) [OF rep])
qed

section \<open>malloc\<close>

lemma refresh_cache_sim:
  assumes rep: "rep A (view s) p"
  shows "\<exists>s'. refresh_cache R A n c k s = Done () s' \<and> rep A (view s') (bind_name n c k p)"
  using rep rep_writes(4) [OF rep, of n k] rep_set_ex(2) [OF rep, of c n k]
  by (cases "c > 0") (auto simp: refresh_cache_def bind_name_def soft_bind_lua until_def)

text \<open>The lock of the popped key: with an expiry when the timeout is positive, permanent otherwise.\<close>

lemma lock_popped_sim:
  assumes rep: "rep A (view s) p"
  shows "\<exists>s'. (if t > 0 then set_ex R (key_str A k) v t s else Done () (r_set R (key_str A k) v s)) = Done () s' \<and>
    rep A (view s') (set_lock k (v, until p t) p)"
  using rep_writes(3) [OF rep, of k v] rep_set_ex(1) [OF rep, of t k v] by (auto simp: until_def)

lemma malloc_pop_sim:
  assumes rep: "rep A (view s) p"
  shows "\<exists>s'. malloc_pop R A t n c s = Done (fst (spec_malloc_pop (shared A) t n c p)) s' \<and>
     rep A (view s') (snd (spec_malloc_pop (shared A) t n c p))"
proof -
  obtain r q where pop: "spec_pop p = (r, q)" by (cases "spec_pop p")
  with pop_from_head_sim [OF rep] obtain s1 where
    s1: "pop_from_head R A s = Done (map_option (\<lambda>k. (k, members p k)) r) s1" "rep A (view s1) q" by auto
  show ?thesis
  proof (cases r)
    case None
    with pop s1 show ?thesis by (simp add: malloc_pop_def spec_malloc_pop_def)
  next
    case (Some k)
    note wf = repD(3) [OF rep]
    have k: "k \<in> dom (members p)" using spec_pop_Some(1) [of p k] wf_poolD(2) [OF wf] pop Some by auto
    then obtain e where e: "members p k = Some e" by auto
    define q' where "q' = (if shared A then spec_push k e q else set_lock k (''1'', until p t) q)"
    have now: "until q t = until p t" "until q' c = until p c"
      using spec_pop_frame(3) [OF pop] by (simp_all add: until_def q'_def)
    have "\<exists>s2. (if \<not> shared A then
         (if t > 0 then set_ex R (key_str A k) ''1'' t s1 else Done () (r_set R (key_str A k) ''1'' s1))
         else push_to_tail R A k (Some e) s1) = Done () s2 \<and> rep A (view s2) q'"
      using lock_popped_sim [OF s1(2), of t k "''1''"] now
        push_to_tail_sim [OF s1(2) popped_not_free [OF wf pop [unfolded Some]] wf_poolD(4) [OF wf k], of e]
      by (simp add: q'_def)
    then obtain s2 where s2: "(if \<not> shared A then
         (if t > 0 then set_ex R (key_str A k) ''1'' t s1 else Done () (r_set R (key_str A k) ''1'' s1))
         else push_to_tail R A k (Some e) s1) = Done () s2" and rep2: "rep A (view s2) q'" by blast
    from refresh_cache_sim [OF rep2] obtain s3 where
      "refresh_cache R A n c k s2 = Done () s3" "rep A (view s3) (bind_name n c k q')" by blast
    with s1(1) s2 show ?thesis
      by (cases "shared A") (simp_all add: malloc_pop_def spec_malloc_pop_def pop Some e q'_def)
  qed
qed

text \<open>A valid soft binding: the bound key is taken out of the free list before its lock is set.\<close>

lemma malloc_bound_sim:
  assumes rep: "rep A (view s) p" and k: "k \<in> dom (members p)"
  shows "shared A \<Longrightarrow> \<exists>s'. malloc_bound R A t n c k s = Done (Some k) s' \<and> rep A (view s') (bind_name n c k p)"
    and "\<not> shared A \<Longrightarrow> 0 < t \<Longrightarrow> \<exists>s'. malloc_bound R A t n c k s = Done (Some k) s' \<and>
      rep A (view s') (set_lock k (''1'', until p t) (spec_take k (bind_name n c k p)))"
    and "\<not> shared A \<Longrightarrow> t \<le> 0 \<Longrightarrow> \<exists>s'. malloc_bound R A t n c k s = Abort (RedisError ''invalid expire time'') s' \<and>
      rep A (view s') (spec_take k (bind_name n c k p))"
proof -
  obtain s1 where s1: "refresh_cache R A n c k s = Done () s1" "rep A (view s1) (bind_name n c k p)"
    using refresh_cache_sim [OF rep] by blast
  then show "shared A \<Longrightarrow> \<exists>s'. malloc_bound R A t n c k s = Done (Some k) s' \<and> rep A (view s') (bind_name n c k p)"
    by (simp add: malloc_bound_def)
  obtain e where "members (bind_name n c k p) k = Some e" using k by auto
  from set_item_allocated_sim [OF s1(2) this, of None] obtain s2 where
    s2: "set_item_allocated R A k None s1 = Done () s2" "rep A (view s2) (spec_take k (bind_name n c k p))" by blast
  show "\<not> shared A \<Longrightarrow> 0 < t \<Longrightarrow> \<exists>s'. malloc_bound R A t n c k s = Done (Some k) s' \<and>
      rep A (view s') (set_lock k (''1'', until p t) (spec_take k (bind_name n c k p)))"
    using s1 s2 rep_set_ex(1) [OF s2(2), of t k "''1''"] by (auto simp: malloc_bound_def until_def)
  show "\<not> shared A \<Longrightarrow> t \<le> 0 \<Longrightarrow> \<exists>s'. malloc_bound R A t n c k s = Abort (RedisError ''invalid expire time'') s' \<and>
      rep A (view s') (spec_take k (bind_name n c k p))"
    using s1 s2 by (simp add: malloc_bound_def set_ex_nonpos)
qed

lemma bound_branch:
  assumes rep: "rep A (view s) p" and n: "n \<noteq> ''''"
  shows "usable_bind n p = Some k \<Longrightarrow> malloc_script R A t n c s = malloc_bound R A t n c k s"
    and "usable_bind n p = None \<Longrightarrow> \<exists>s1. malloc_script R A t n c s = malloc_pop R A t n c s1 \<and>
      rep A (view s1) (drop_bind n p)"
proof -
  have same: "abind p n = None \<Longrightarrow> drop_bind n p = p"
    by (cases p) (auto simp: drop_bind_def fun_upd_idem)
  note r = rep_reads(1,2,5) [OF rep] and d = rep_writes(2) [OF rep, of n]
  show "usable_bind n p = Some k \<Longrightarrow> malloc_script R A t n c s = malloc_bound R A t n c k s"
    using n r by (auto simp: malloc_script_def usable_bind_def soft_bind_lua split: option.splits if_splits)
  show "usable_bind n p = None \<Longrightarrow> \<exists>s1. malloc_script R A t n c s = malloc_pop R A t n c s1 \<and>
      rep A (view s1) (drop_bind n p)"
    using n r d rep same
    by (cases "abind p n") (auto simp: malloc_script_def usable_bind_def soft_bind_lua split: if_splits)
qed

lemma malloc_script_sim:
  assumes rep: "rep A (view s) p" and ok: "shared A \<or> 0 < t \<or> usable_bind n p = None"
  shows "\<exists>s'. malloc_script R A t n c s = Done (fst (spec_malloc (shared A) t n c p)) s' \<and>
     rep A (view s') (snd (spec_malloc (shared A) t n c p))"
proof (cases "usable_bind n p")
  case (Some k)
  then have n: "n \<noteq> ''''" and k: "k \<in> dom (members p)"
    by (auto simp: usable_bind_def split: if_splits option.splits)
  from bound_branch(1) [OF rep n Some] malloc_bound_sim(1,2) [OF rep k, of t n c] ok Some show ?thesis
    by (cases "shared A") (auto simp: spec_malloc_def Let_def until_def)
next
  case None
  show ?thesis
  proof (cases "n = ''''")
    case True
    with malloc_pop_sim [OF rep] None show ?thesis by (simp add: spec_malloc_def malloc_script_def)
  next
    case False
    from bound_branch(2) [OF rep False None] obtain s1 where
      "malloc_script R A t n c s = malloc_pop R A t n c s1" "rep A (view s1) (drop_bind n p)" by blast
    with malloc_pop_sim [of A s1 "drop_bind n p"] None False show ?thesis by (simp add: spec_malloc_def)
  qed
qed

section \<open>free and gc\<close>

lemma free_one_sim:
  assumes rep: "rep A (view s) p" and ok: "k \<notin> jammed p"
  shows "\<exists>s'. free_one R A e k s = Done () s' \<and> rep A (view s') (spec_free_one e k p)"
proof -
  obtain d s1 where d: "r_del R (key_str A k) s = (d, s1)" by (cases "r_del R (key_str A k) s")
  with rep_reads(3) [OF rep, of k] rep_writes(1) [OF rep, of k]
  have "d = (alock p k \<noteq> None)" and rep1: "rep A (view s1) (drop_lock k p)" by simp_all
  moreover have "alock p k \<noteq> None \<Longrightarrow> k \<in> dom (members p) \<Longrightarrow>
      \<exists>s'. push_to_tail R A k (Some e) s1 = Done () s' \<and> rep A (view s') (spec_push k e (drop_lock k p))"
    using ok wf_poolD(4) [OF repD(3) [OF rep], of k]
    by (intro push_to_tail_sim [OF rep1]) (auto simp: jammed_def)
  ultimately show ?thesis
    using rep_reads(1) [OF rep1, of k] d by (simp add: free_one_def spec_free_one_def)
qed

lemma free_script_sim:
  assumes "rep A (view s) p" and "set ks \<inter> jammed p = {}"
  shows "\<exists>s'. for_each (free_one R A e) ks s = Done () s' \<and> rep A (view s') (fold (spec_free_one e) ks p)"
  using assms
proof (induction ks arbitrary: s p)
  case (Cons k ks)
  then have k: "k \<notin> jammed p" "set ks \<inter> jammed p = {}" by auto
  from free_one_sim [OF Cons.prems(1) k(1)] obtain s1 where
    s1: "free_one R A e k s = Done () s1" "rep A (view s1) (spec_free_one e k p)" by blast
  have "jammed (spec_free_one e k p) \<subseteq> jammed p"
    using inv_free_one [OF inv_poolI [OF repD(3) [OF Cons.prems(1)]] k(1)] by (simp add: inv_pool_def)
  with k(2) have "set ks \<inter> jammed (spec_free_one e k p) = {}" by auto
  from Cons.IH [OF s1(2) this] s1(1) show ?case by simp
qed simp

lemma spec_check_other: "j \<noteq> k \<Longrightarrow> j \<in> dom (members (spec_check k p)) \<longleftrightarrow> j \<in> dom (members p)"
  by (auto simp: spec_check_def)

lemma gc_loop_sim:
  assumes "rep A (view s) p" and "distinct ks" and "set ks \<subseteq> dom (members p)"
  shows "\<exists>s'. for_each (check_item_health R A) ks s = Done () s' \<and> rep A (view s') (spec_gc ks p)"
  using assms
proof (induction ks arbitrary: s p)
  case (Cons k ks)
  then obtain s1 where s1: "check_item_health R A k s = Done () s1" "rep A (view s1) (spec_check k p)"
    using check_item_health_sim [OF Cons.prems(1), of k] by auto
  have "set ks \<subseteq> dom (members (spec_check k p))"
  proof
    fix j assume "j \<in> set ks"
    with Cons.prems(2,3) show "j \<in> dom (members (spec_check k p))"
      using spec_check_other [of j k p] by auto
  qed
  from Cons.IH [OF s1(2) _ this] Cons.prems(2) s1(1) show ?case by (simp add: spec_gc_def)
qed (simp add: spec_gc_def)

lemma gc_script_sim:
  assumes rep: "rep A (view s) p" and scan: "r_hscan R (pool_str A) (get_cursor R A s) n s = (c, kvs)"
    and d: "distinct (map fst kvs)"
  shows "\<exists>s'. gc_script R A n s = Done () s' \<and> rep A (view s') (spec_gc (map fst kvs) p)"
proof -
  have "f \<in> dom (members p)" if "(f, v) \<in> set kvs" for f v
    using hscan [OF typed_keys(1) [OF repD(1) [OF rep]]] scan rep_dom_pool [OF rep] that by (metis domI snd_conv)
  then have "set (map fst kvs) \<subseteq> dom (members p)"
    unfolding set_map by (metis imageE prod.collapse subsetI)
  from gc_loop_sim [OF rep d this] obtain s1 where
    "for_each (check_item_health R A) (map fst kvs) s = Done () s1" "rep A (view s1) (spec_gc (map fst kvs) p)"
    by blast
  with scan rep_writes(5) [of A s1] show ?thesis by (auto simp: gc_script_def)
qed

text \<open>
  Whatever \<open>HSCAN\<close> returns, a duplicate included: the invariants hold where the script stops, and no
  lock has changed.
\<close>

lemma check_item_health_frame:
  assumes "\<exists>q. rep A (view s) q \<and> gc_frame p q"
  shows "\<exists>q. rep A (view (final_state (check_item_health R A k s))) q \<and> gc_frame p q"
proof -
  from assms obtain q where q: "rep A (view s) q" "gc_frame p q" by blast
  show ?thesis
  proof (cases "k \<in> dom (members q)")
    case True
    with q(2) inv_check [of "jammed p" q k] have "gc_frame p (spec_check k q)"
      by (simp add: gc_frame_def spec_check_def)
    moreover obtain s' where "check_item_health R A k s = Done () s'" "rep A (view s') (spec_check k q)"
      using check_item_health_sim [OF q(1) True] by blast
    ultimately show ?thesis by (intro exI [of _ "spec_check k q"]) simp
  next
    case False
    with check_item_health_gone [OF q(1) False] q show ?thesis by (intro exI [of _ q]) simp
  qed
qed

lemma gc_script_frame:
  assumes "rep A (view s) p"
  shows "\<exists>q. rep A (view (final_state (gc_script R A n s))) q \<and> gc_frame p q"
proof -
  obtain c kvs where scan: "r_hscan R (pool_str A) (get_cursor R A s) n s = (c, kvs)" by fastforce
  let ?m = "for_each (check_item_health R A) (map fst kvs) s"
  have "\<exists>q. rep A (view s) q \<and> gc_frame p q" using assms inv_poolI [OF repD(3) [OF assms]] by (auto simp: gc_frame_def)
  then have "\<exists>q. rep A (view (final_state ?m)) q \<and> gc_frame p q"
    by (intro for_each_invariant [where I = "\<lambda>s. \<exists>q. rep A (view s) q \<and> gc_frame p q"] check_item_health_frame)
  with scan show ?thesis by (cases ?m) (auto simp: gc_script_def intro: rep_writes(5))
qed

end

end
