(* ===== verification/Lock_Pool.thy ===== *)
theory Lock_Pool
  imports Redis_Lock
begin

text \<open>
  \<open>BaseLockPool\<close> with what it computes from its abstract methods, its contract as a locale, and
  \<open>RedisLockPool\<close>, which keeps the members in a Redis set. \<open>RedisThreadHealthCheckPool\<close> of
  \<open>allocator.py\<close> is a client of it.
\<close>

section \<open>BaseLockPool\<close>

text \<open>The derived methods, over the replies of \<open>keys()\<close> and \<open>_get_key_lock_status\<close>.\<close>

definition values_lock_status :: "('s \<Rightarrow> string list) \<Rightarrow> (string list \<Rightarrow> 's \<Rightarrow> bool list) \<Rightarrow> 's \<Rightarrow> bool list" where
  "values_lock_status keys_of status s = status (keys_of s) s"

definition items_locked_status ::
  "('s \<Rightarrow> string list) \<Rightarrow> (string list \<Rightarrow> 's \<Rightarrow> bool list) \<Rightarrow> 's \<Rightarrow> (string \<times> bool) list" where
  "items_locked_status keys_of status s = (let all_keys = keys_of s in zip all_keys (status all_keys s))"

definition health_check :: "('s \<Rightarrow> string list) \<Rightarrow> (string list \<Rightarrow> 's \<Rightarrow> bool list) \<Rightarrow> 's \<Rightarrow> nat \<times> nat" where
  "health_check keys_of status s =
     (let items = values_lock_status keys_of status s;
          n_locked = sum_list (map (\<lambda>item. 1) (filter (\<lambda>item. item) items));
          n_free = length items - n_locked in
      (n_locked, n_free))"

definition pool_len :: "('s \<Rightarrow> string list) \<Rightarrow> 's \<Rightarrow> nat" where
  "pool_len keys_of s = length (keys_of s)"

text \<open>
  The contract: the four updates act on the set of members, \<open>keys()\<close> lists it, and the lock status of a
  key is whether it is held. \<open>okk\<close> says which keys the pool accepts.
\<close>

locale key_pool =
  fixes ok :: "'s \<Rightarrow> bool" and okk :: "string \<Rightarrow> bool" and mems :: "'s \<Rightarrow> string set" and held :: "'s \<Rightarrow> string \<Rightarrow> bool"
    and p_extend p_shrink p_assign :: "string list \<Rightarrow> 's \<Rightarrow> (unit, 's) outcome"
    and p_keys :: "'s \<Rightarrow> string list" and p_status :: "string list \<Rightarrow> 's \<Rightarrow> bool list"
  assumes extend_law: "ok s \<Longrightarrow> \<forall>k\<in>set ks. okk k \<Longrightarrow> \<exists>s'. p_extend ks s = Done () s' \<and> ok s' \<and> mems s' = mems s \<union> set ks"
    and shrink_law: "ok s \<Longrightarrow> \<exists>s'. p_shrink ks s = Done () s' \<and> ok s' \<and> mems s' = mems s - set ks"
    and assign_law: "ok s \<Longrightarrow> \<forall>k\<in>set ks. okk k \<Longrightarrow> \<exists>s'. p_assign ks s = Done () s' \<and> ok s' \<and> mems s' = set ks"
    and keys_law: "ok s \<Longrightarrow> set (p_keys s) = mems s" "ok s \<Longrightarrow> distinct (p_keys s)"
    and status_law: "ok s \<Longrightarrow> p_status ks s = map (held s) ks"
begin

lemma members_finite: "ok s \<Longrightarrow> finite (mems s)"
  using keys_law(1) [of s] by (metis List.finite_set)

lemma length_keys: "ok s \<Longrightarrow> length (p_keys s) = card (mems s)"
  using keys_law [of s] by (metis distinct_card)

lemma filter_card: "ok s \<Longrightarrow> length (filter P (p_keys s)) = card {k \<in> mems s. P k}"
proof -
  assume "ok s"
  then have "distinct (filter P (p_keys s))" "set (filter P (p_keys s)) = {k \<in> mems s. P k}"
    using keys_law [of s] by auto
  then show ?thesis by (metis distinct_card)
qed

text \<open>\<open>health_check\<close> counts the held members and the others.\<close>

lemma health_check_counts:
  assumes "ok s"
  shows "health_check p_keys p_status s = (card {k \<in> mems s. held s k}, card {k \<in> mems s. \<not> held s k})"
proof -
  have "filter (\<lambda>b. b) (map (held s) (p_keys s)) = map (held s) (filter (held s) (p_keys s))"
    by (simp add: filter_map comp_def)
  moreover have "length (p_keys s) - length (filter (held s) (p_keys s)) = length (filter (\<lambda>k. \<not> held s k) (p_keys s))"
    using sum_length_filter_compl [of "held s" "p_keys s"] by simp
  ultimately show ?thesis
    using filter_card [OF assms, of "held s"] filter_card [OF assms, of "\<lambda>k. \<not> held s k"]
    by (simp add: health_check_def values_lock_status_def status_law [OF assms] sum_list_triv)
qed

lemma health_check_total:
  assumes "ok s"
  shows "fst (health_check p_keys p_status s) + snd (health_check p_keys p_status s) = pool_len p_keys s"
proof -
  have "card {k \<in> mems s. held s k} + card {k \<in> mems s. \<not> held s k} = card (mems s)"
    using members_finite [OF assms] by (subst card_Un_disjoint [symmetric]) (auto intro: arg_cong [where f = card])
  with health_check_counts [OF assms] length_keys [OF assms] show ?thesis by (simp add: pool_len_def)
qed

lemma items_of: "ok s \<Longrightarrow> set (items_locked_status p_keys p_status s) = (\<lambda>k. (k, held s k)) ` mems s"
  using keys_law(1) [of s] by (auto simp: items_locked_status_def Let_def status_law zip_map2 zip_same_conv_map)

text \<open>\<open>assign\<close> leaves what \<open>shrink\<close> of the unwanted and \<open>extend\<close> by the wanted leave.\<close>

lemma assign_is_shrink_extend:
  assumes "ok s" and ks: "\<forall>k\<in>set ks. okk k"
  shows "\<exists>s1 s2 s3. p_shrink (filter (\<lambda>k. k \<notin> set ks) (p_keys s)) s = Done () s1 \<and> p_extend ks s1 = Done () s2 \<and>
     p_assign ks s = Done () s3 \<and> mems s2 = mems s3"
proof -
  from shrink_law [OF assms(1)] obtain s1 where
    s1: "p_shrink (filter (\<lambda>k. k \<notin> set ks) (p_keys s)) s = Done () s1" "ok s1"
    "mems s1 = mems s - set (filter (\<lambda>k. k \<notin> set ks) (p_keys s))" by blast
  from extend_law [OF s1(2) ks] obtain s2 where s2: "p_extend ks s1 = Done () s2" "mems s2 = mems s1 \<union> set ks" by blast
  from assign_law [OF assms] obtain s3 where "p_assign ks s = Done () s3" "mems s3 = set ks" by blast
  with s1 s2 keys_law(1) [OF assms(1)] show ?thesis by auto
qed

end

section \<open>RedisLockPool\<close>

definition rp_extend :: "'s redis \<Rightarrow> 'a lock_cfg_scheme \<Rightarrow> string list option \<Rightarrow> 's \<Rightarrow> (unit, 's) outcome" where
  "rp_extend R A keys s =
     (case keys of None \<Rightarrow> Done () s
      | Some ks \<Rightarrow> if ks = [] then Done () s else Done () (r_sadd R (pool_str A) ks s))"

definition rp_shrink :: "'s redis \<Rightarrow> 'a lock_cfg_scheme \<Rightarrow> string list option \<Rightarrow> 's \<Rightarrow> (unit, 's) outcome" where
  "rp_shrink R A keys s =
     (case keys of None \<Rightarrow> Done () s
      | Some ks \<Rightarrow> if ks = [] then Done () s else Done () (r_srem R (pool_str A) ks s))"

definition rp_clear :: "'s redis \<Rightarrow> 'a lock_cfg_scheme \<Rightarrow> 's \<Rightarrow> (unit, 's) outcome" where
  "rp_clear R A s = Done () (snd (r_del R (pool_str A) s))"

definition rp_assign :: "'s redis \<Rightarrow> 'a lock_cfg_scheme \<Rightarrow> string list option \<Rightarrow> 's \<Rightarrow> (unit, 's) outcome" where
  "rp_assign R A keys s =
     (case keys of None \<Rightarrow> rp_clear R A s
      | Some ks \<Rightarrow>
          if ks = [] then rp_clear R A s
          else Done () (r_sadd R (pool_str A) ks (snd (r_del R (pool_str A) s))))"

definition rp_keys :: "'s redis \<Rightarrow> 'a lock_cfg_scheme \<Rightarrow> 's \<Rightarrow> string list" where
  "rp_keys R A s = r_smembers R (pool_str A) s"

definition rp_contains :: "'s redis \<Rightarrow> 'a lock_cfg_scheme \<Rightarrow> string \<Rightarrow> 's \<Rightarrow> bool" where
  "rp_contains R A key s = r_sismember R (pool_str A) key s"

definition get_key_lock_status :: "'s redis \<Rightarrow> 'a lock_cfg_scheme \<Rightarrow> string list \<Rightarrow> 's \<Rightarrow> bool list" where
  "get_key_lock_status R A keys s = map (\<lambda>x. x \<noteq> None) (r_mget R (map (key_str A) keys) s)"

section \<open>RedisThreadHealthCheckPool\<close>

text \<open>The thread identifier is a parameter; \<open>timeout\<close> is a field of the pool. \<open>update\<close> writes the value \<open>1\<close>.\<close>

definition health_pool :: "string \<Rightarrow> lock_cfg" where
  "health_pool identity = \<lparr>prefix = identity, suffix = ''thread-health-check-pool''\<rparr>"

definition thread_update :: "'s redis \<Rightarrow> 'a lock_cfg_scheme \<Rightarrow> int \<Rightarrow> string \<Rightarrow> 's \<Rightarrow> (unit, 's) outcome" where
  "thread_update R A timeout current_thread_id s = lock_update R A current_thread_id ''1'' (Some timeout) s"

definition thread_initialize :: "'s redis \<Rightarrow> 'a lock_cfg_scheme \<Rightarrow> int \<Rightarrow> string \<Rightarrow> 's \<Rightarrow> (unit, 's) outcome" where
  "thread_initialize R A timeout current_thread_id s =
     then_do (thread_update R A timeout current_thread_id s) (\<lambda>_. rp_extend R A (Some [current_thread_id]))"

definition thread_finalize :: "'s redis \<Rightarrow> 'a lock_cfg_scheme \<Rightarrow> string \<Rightarrow> 's \<Rightarrow> (unit, 's) outcome" where
  "thread_finalize R A current_thread_id s =
     then_do (rp_shrink R A (Some [current_thread_id]) s)
       (\<lambda>_ s1. then_do (unlock R A current_thread_id s1) (\<lambda>_ s2. Done () s2))"

section \<open>The set of members\<close>

definition pool_ok :: "'a lock_cfg_scheme \<Rightarrow> keyspace \<Rightarrow> bool" where
  "pool_ok A V \<longleftrightarrow> set_key V (pool_str A) \<and> lock_ok A V"

definition pool_members :: "'a lock_cfg_scheme \<Rightarrow> keyspace \<Rightarrow> string set" where
  "pool_members A V = rsets V (pool_str A)"

lemma set_key_other [redis_simps]:
  "set_key (put_str k v ex V) k' \<longleftrightarrow> k' \<noteq> k \<and> set_key V k'"
  "set_key (put_set k S V) k' = set_key V k'" "set_key (erase k V) k' \<longleftrightarrow> k' = k \<or> set_key V k'"
  "set_key V k \<Longrightarrow> set_key (elapse d V) k"
  by (auto simp: set_key_def redis_simps)

lemma pool_ok_put [redis_simps]:
  "pool_ok A V \<Longrightarrow> pool_ok A (put_set (pool_str A) S V)" "pool_ok A V \<Longrightarrow> pool_ok A (erase (pool_str A) V)"
  "pool_ok A V \<Longrightarrow> pool_ok A (put_lock A k v ex V)" "pool_ok A V \<Longrightarrow> pool_ok A (erase (key_str A k) V)"
  "pool_ok A V \<Longrightarrow> pool_ok A (elapse d V)"
  by (auto simp: pool_ok_def put_lock_def lock_ok_def redis_simps key_simps str_key_def)

lemma pool_members_put [redis_simps]:
  "pool_members A (put_set (pool_str A) S V) = S" "pool_members A (erase (pool_str A) V) = {}"
  "pool_members A (put_lock A k v ex V) = pool_members A V" "pool_members A (erase (key_str A k) V) = pool_members A V"
  "pool_members A (elapse d V) = pool_members A V"
  by (simp_all add: pool_members_def put_lock_def redis_simps key_simps)

lemma holder_pool [redis_simps]:
  "holder A (put_set (pool_str A) S V) = holder A V" "holder A (erase (pool_str A) V) = holder A V"
  by (auto simp: holder_def redis_simps key_simps fun_eq_iff)

context redis_server
begin

lemma rp_effects:
  assumes "pool_ok A (view s)"
  shows "\<exists>s'. rp_extend R A (Some ks) s = Done () s' \<and> pool_ok A (view s') \<and> holder A (view s') = holder A (view s) \<and>
      pool_members A (view s') = pool_members A (view s) \<union> set ks"
    and "\<exists>s'. rp_shrink R A (Some ks) s = Done () s' \<and> pool_ok A (view s') \<and> holder A (view s') = holder A (view s) \<and>
      pool_members A (view s') = pool_members A (view s) - set ks"
    and "\<exists>s'. rp_assign R A (Some ks) s = Done () s' \<and> pool_ok A (view s') \<and> holder A (view s') = holder A (view s) \<and>
      pool_members A (view s') = set ks"
proof -
  have key: "set_key (view s) (pool_str A)" using assms by (simp add: pool_ok_def)
  have del_key: "set_key (view (snd (r_del R (pool_str A) s))) (pool_str A)" by (simp add: del redis_simps)
  show "\<exists>s'. rp_extend R A (Some ks) s = Done () s' \<and> pool_ok A (view s') \<and> holder A (view s') = holder A (view s) \<and>
      pool_members A (view s') = pool_members A (view s) \<union> set ks"
    using assms by (simp add: rp_extend_def sadd [OF key] redis_simps) (simp add: pool_members_def)
  show "\<exists>s'. rp_shrink R A (Some ks) s = Done () s' \<and> pool_ok A (view s') \<and> holder A (view s') = holder A (view s) \<and>
      pool_members A (view s') = pool_members A (view s) - set ks"
    using assms by (simp add: rp_shrink_def srem [OF key] redis_simps) (simp add: pool_members_def)
  show "\<exists>s'. rp_assign R A (Some ks) s = Done () s' \<and> pool_ok A (view s') \<and> holder A (view s') = holder A (view s) \<and>
      pool_members A (view s') = set ks"
    using assms by (simp add: rp_assign_def rp_clear_def sadd [OF del_key] del redis_simps)
qed

lemma rp_keys_set: "pool_ok A (view s) \<Longrightarrow> set (rp_keys R A s) = pool_members A (view s)"
  by (simp add: rp_keys_def smembers pool_ok_def pool_members_def)

lemma rp_contains_iff: "pool_ok A (view s) \<Longrightarrow> rp_contains R A k s \<longleftrightarrow> k \<in> pool_members A (view s)"
  by (simp add: rp_contains_def sismember pool_ok_def pool_members_def)

lemma lock_status_eq: "get_key_lock_status R A ks s = map (\<lambda>k. holder A (view s) k \<noteq> None) ks"
  by (simp add: get_key_lock_status_def mget holder_def comp_def)

end

sublocale redis_server \<subseteq> rp: key_pool "\<lambda>s. pool_ok A (view s)" "\<lambda>_. True" "\<lambda>s. pool_members A (view s)"
  "\<lambda>s k. holder A (view s) k \<noteq> None" "\<lambda>ks. rp_extend R A (Some ks)" "\<lambda>ks. rp_shrink R A (Some ks)"
  "\<lambda>ks. rp_assign R A (Some ks)" "rp_keys R A" "get_key_lock_status R A"
  for A :: "'a lock_cfg_scheme"
proof (unfold_locales, goal_cases)
  case (1 s ks)
  from rp_effects(1) [OF 1(1), of ks] show ?case by blast
next
  case (2 s ks)
  from rp_effects(2) [OF 2, of ks] show ?case by blast
next
  case (3 s ks)
  from rp_effects(3) [OF 3(1), of ks] show ?case by blast
next
  case (4 s)
  then show ?case by (rule rp_keys_set)
next
  case (5 s)
  show ?case by (simp add: rp_keys_def smembers_distinct)
next
  case (6 s ks)
  show ?case by (rule lock_status_eq)
qed

context redis_server
begin

text \<open>A registered thread counts as alive until its timeout; \<open>finalize\<close> removes it.\<close>

lemma thread_initialize_effect:
  assumes "pool_ok A (view s)" and "0 < t"
  shows "\<exists>s'. thread_initialize R A t i s = Done () s' \<and> pool_ok A (view s') \<and>
     holder A (view s') = (holder A (view s))(i \<mapsto> ''1'') \<and> pool_members A (view s') = insert i (pool_members A (view s))"
proof -
  from update_effect [of "Some t" A i "''1''" s] assms(2) obtain s1 where
    s1: "lock_update R A i ''1'' (Some t) s = Done () s1" "view s1 = put_lock A i ''1'' (Some t) (view s)" by auto
  with assms(1) have "pool_ok A (view s1)" by (simp add: redis_simps)
  from rp_effects(1) [OF this, of "[i]"] s1 show ?thesis
    by (auto simp: thread_initialize_def thread_update_def redis_simps)
qed

lemma thread_finalize_effect:
  assumes "pool_ok A (view s)"
  shows "\<exists>s'. thread_finalize R A i s = Done () s' \<and> pool_ok A (view s') \<and>
     holder A (view s') = (holder A (view s))(i := None) \<and> pool_members A (view s') = pool_members A (view s) - {i}"
proof -
  from rp_effects(2) [OF assms, of "[i]"] obtain s1 where
    s1: "rp_shrink R A (Some [i]) s = Done () s1" "pool_ok A (view s1)" "holder A (view s1) = holder A (view s)"
      "pool_members A (view s1) = pool_members A (view s) - {i}" by auto
  then have "lock_ok A (view s1)" by (simp add: pool_ok_def)
  from unlock_effect [OF this, of i] s1 show ?thesis by (auto simp: thread_finalize_def redis_simps)
qed

end

end
