(* ===== verification/Allocator_System.thy ===== *)
theory Allocator_System
  imports Allocator_Refine Lock_Pool
begin

text \<open>
  The allocator as a transition system. Each transition is one public operation of one client, run as
  the server runs it, without interleaving inside a script, or the passing of time with whatever other
  clients write under other names. The events record what the caller saw. From any state that
  represents a pool every reachable state represents a pool, errors included; the only way to a free key
  that is locked is to lock it by hand; and a key handed out to one client is not handed out again while
  its lock lives.
\<close>

section \<open>Events and transitions\<close>

datatype event =
    Extended "string list"
  | Shrunk "string list"
  | Assigned "string list"
  | Cleared
  | Allocated "string option"
  | MallocFailed
  | Freed "string list"
  | Collected
  | Relocked string
  | Unlocked string
  | Elapsed int

definition good :: "('s \<Rightarrow> keyspace) \<Rightarrow> 'a lock_cfg_scheme \<Rightarrow> 's \<Rightarrow> bool" where
  "good view A s \<longleftrightarrow> (\<exists>p. rep A (view s) p)"

text \<open>
  Any client may change any lock by hand, as the health check does with the locks of free keys. Two kinds
  of calls are left out, both of which destroy the list: adding a key that starts with a bar, and freeing
  a key that is locked while it is in the free list.
\<close>

definition no_bars :: "py_key list \<Rightarrow> bool" where
  "no_bars ks \<longleftrightarrow> (\<forall>k. PyStr k \<in> set ks \<longrightarrow> \<not> starts_bar k)"

definition is_jammed :: "'s redis \<Rightarrow> 'a lock_cfg_scheme \<Rightarrow> string \<Rightarrow> 's \<Rightarrow> bool" where
  "is_jammed R A k s \<longleftrightarrow> k \<in> set (get_free_list R A s) \<and> is_locked R A k s"

inductive alloc_step ::
  "'s redis \<Rightarrow> ('s \<Rightarrow> keyspace) \<Rightarrow> 'a config_scheme \<Rightarrow> rat \<Rightarrow> (string list \<Rightarrow> string list) \<Rightarrow> 's \<Rightarrow> event \<Rightarrow> 's \<Rightarrow> bool"
  for R view A far pairs where
  step_extend: "no_bars ks \<Longrightarrow>
    alloc_step R view A far pairs s (Extended (map key_name ks)) (final_state (extend_pool R A (Some ks) timeout s))"
| step_shrink: "alloc_step R view A far pairs s (Shrunk ks) (final_state (shrink R A (Some ks) s))"
| step_assign: "no_bars ks \<Longrightarrow>
    alloc_step R view A far pairs s (Assigned (map key_name ks)) (final_state (assign R A pairs (Some ks) t s))"
| step_clear: "alloc_step R view A far pairs s Cleared (final_state (clear R A s))"
| step_malloc: "malloc_key R A far timeout name cache_timeout s = Done r s' \<Longrightarrow>
    alloc_step R view A far pairs s (Allocated r) s'"
| step_malloc_fails: "malloc_key R A far timeout name cache_timeout s = Abort e s' \<Longrightarrow>
    alloc_step R view A far pairs s MallocFailed s'"
| step_free: "\<forall>k\<in>set ks. \<not> is_jammed R A k s \<Longrightarrow>
    alloc_step R view A far pairs s (Freed ks) (final_state (free_keys R A ks t s))"
| step_gc: "alloc_step R view A far pairs s Collected (final_state (gc R A n s))"
| step_update: "alloc_step R view A far pairs s (Relocked k) (final_state (lock_update R A k v ex s))"
| step_lock: "alloc_step R view A far pairs s (Relocked k) (final_state (lock R A k v ex s))"
| step_rlock: "alloc_step R view A far pairs s (Relocked k) (final_state (rlock R A k v ex s))"
| step_conditional: "alloc_step R view A far pairs s (Relocked k)
    (final_state (conditional_setdel R A (N :: rat numerals) eps op k x sv ex isdel s))"
| step_unlock: "alloc_step R view A far pairs s (Unlocked k) (final_state (unlock R A k s))"
| step_env: "typed A (view s') \<Longrightarrow> av A (view s') = av A (elapse d (view s)) \<Longrightarrow> 0 \<le> d \<Longrightarrow>
    alloc_step R view A far pairs s (Elapsed d) s'"

inductive alloc_trace for R view A far pairs where
  trace_nil: "alloc_trace R view A far pairs s [] s"
| trace_step: "alloc_trace R view A far pairs s es s1 \<Longrightarrow> alloc_step R view A far pairs s1 e s2 \<Longrightarrow>
    alloc_trace R view A far pairs s (es @ [e]) s2"

text \<open>
  An event that \<open>touches\<close> \<open>k\<close> may change its lock. Adding a key that is a member already does not; so an event
  \<open>disturbs\<close> \<open>k\<close> only if it frees or locks \<open>k\<close> by hand, or adds \<open>k\<close> while it is not a member: then its lock
  is deleted, whoever holds it. A trace is calm for \<open>k\<close> if no event disturbs \<open>k\<close>.
\<close>

definition touches :: "string \<Rightarrow> event \<Rightarrow> bool" where
  "touches k e = (case e of Extended ks \<Rightarrow> k \<in> set ks | Assigned ks \<Rightarrow> k \<in> set ks | Freed ks \<Rightarrow> k \<in> set ks
     | Relocked j \<Rightarrow> j = k | Unlocked j \<Rightarrow> j = k | _ \<Rightarrow> False)"

definition adds :: "event \<Rightarrow> bool" where
  "adds e = (case e of Extended _ \<Rightarrow> True | Assigned _ \<Rightarrow> True | _ \<Rightarrow> False)"

lemma adds_simps [simp]:
  "adds (Extended ks)" "adds (Assigned ks)" "\<not> adds (Shrunk ks)" "\<not> adds Cleared" "\<not> adds (Allocated r)"
  "\<not> adds MallocFailed" "\<not> adds (Freed ks)" "\<not> adds Collected" "\<not> adds (Relocked k)" "\<not> adds (Unlocked k)"
  "\<not> adds (Elapsed d)"
  by (simp_all add: adds_def)

definition disturbs :: "'s redis \<Rightarrow> 'a lock_cfg_scheme \<Rightarrow> string \<Rightarrow> 's \<Rightarrow> event \<Rightarrow> bool" where
  "disturbs R A k s e \<longleftrightarrow> touches k e \<and> \<not> (adds e \<and> contains R A k s)"

inductive calm_trace for R view A far pairs k where
  calm_nil: "calm_trace R view A far pairs k s [] s"
| calm_step: "calm_trace R view A far pairs k s es s1 \<Longrightarrow> alloc_step R view A far pairs s1 e s2 \<Longrightarrow>
    \<not> disturbs R A k s1 e \<Longrightarrow> calm_trace R view A far pairs k s (es @ [e]) s2"

lemma calm_alloc: "calm_trace R view A far pairs k s es s' \<Longrightarrow> alloc_trace R view A far pairs s es s'"
  by (induction rule: calm_trace.induct) (auto intro: alloc_trace.intros)

lemma untouched_calm:
  "alloc_trace R view A far pairs s es s' \<Longrightarrow> \<forall>e\<in>set es. \<not> touches k e \<Longrightarrow> calm_trace R view A far pairs k s es s'"
  by (induction rule: alloc_trace.induct) (auto simp: disturbs_def intro: calm_trace.intros)

inductive_cases elapsed_stepE: "alloc_step R view A far pairs s (Elapsed d) s'"
inductive_cases allocated_stepE: "alloc_step R view A far pairs s (Allocated r) s'"
inductive_simps trace_nil_iff: "alloc_trace R view A far pairs s [] s'"

section \<open>What one transition does to the abstract pool\<close>

lemma fold_lock_kept:
  "(\<And>x q. x \<in> set xs \<Longrightarrow> alock (f x q) k = alock q k) \<Longrightarrow> alock (fold f xs p) k = alock p k"
  by (induction xs arbitrary: p) simp_all

lemma fold_now: "(\<And>x q. x \<in> set xs \<Longrightarrow> anow (f x q) = anow q) \<Longrightarrow> anow (fold f xs p) = anow p"
  by (induction xs arbitrary: p) simp_all

lemma lock_kept:
  "k \<notin> set ks \<or> members p k \<noteq> None \<Longrightarrow> alock (spec_extend t ks p) k = alock p k" "anow (spec_extend t ks p) = anow p"
  "alock (spec_shrink ks p) k = alock p k" "anow (spec_shrink ks p) = anow p"
  "k \<notin> set new \<Longrightarrow> alock (spec_assign t S new p) k = alock p k" "anow (spec_assign t S new p) = anow p"
  "alock (spec_clear p) k = alock p k" "anow (spec_clear p) = anow p"
  "k \<notin> set ks \<Longrightarrow> alock (spec_free t ks p) k = alock p k" "anow (spec_free t ks p) = anow p"
proof -
  have "members q k \<noteq> None \<Longrightarrow> alock (fold (spec_extend_one e) ks q) k = alock q k" for e q
    by (induction ks arbitrary: q) (auto simp: spec_extend_one_def spec_add_def)
  moreover have "k \<notin> set ks \<Longrightarrow> alock (fold (spec_extend_one e) ks p) k = alock p k" for e
    by (rule fold_lock_kept) (auto simp: spec_extend_one_def spec_add_def)
  ultimately show "k \<notin> set ks \<or> members p k \<noteq> None \<Longrightarrow> alock (spec_extend t ks p) k = alock p k"
    unfolding spec_extend_def by blast
  show "alock (spec_shrink ks p) k = alock p k"
    unfolding spec_shrink_def by (rule fold_lock_kept) simp
  show "k \<notin> set new \<Longrightarrow> alock (spec_assign t S new p) k = alock p k"
    unfolding spec_assign_def
    by (subst fold_lock_kept) (auto simp: spec_add_def keep_only_def)
  show "k \<notin> set ks \<Longrightarrow> alock (spec_free t ks p) k = alock p k"
    unfolding spec_free_def by (rule fold_lock_kept) (auto simp: spec_free_one_def)
  show "anow (spec_extend t ks p) = anow p"
    unfolding spec_extend_def by (rule fold_now) (auto simp: spec_extend_one_def spec_add_def)
  show "anow (spec_shrink ks p) = anow p" unfolding spec_shrink_def by (rule fold_now) simp
  show "anow (spec_assign t S new p) = anow p"
    unfolding spec_assign_def by (subst fold_now) (auto simp: spec_add_def keep_only_def)
  show "anow (spec_free t ks p) = anow p"
    unfolding spec_free_def by (rule fold_now) (auto simp: spec_free_one_def)
  show "alock (spec_clear p) k = alock p k" "anow (spec_clear p) = anow p" by (simp_all add: spec_clear_def)
qed

lemma malloc_picks:
  assumes "fst (spec_malloc sh t n c p) = Some k"
  shows "alock p k = None" "wf_pool p \<Longrightarrow> k \<in> dom (members p)"
proof -
  have pop: "fst (spec_pop q) = Some k \<Longrightarrow> alock q k = None \<and> (wf_pool q \<longrightarrow> k \<in> dom (members q))" for q
    using spec_pop_Some [of q k] wf_poolD(2) [of q k] by (auto simp: available_def)
  from assms show "alock p k = None" "wf_pool p \<Longrightarrow> k \<in> dom (members p)"
    using pop [of p] pop [of "drop_bind n p"]
    by (auto simp: spec_malloc_def spec_malloc_pop_def usable_bind_def split: if_splits option.splits prod.splits)
qed

lemma malloc_pop_lock: "alock p k \<noteq> None \<Longrightarrow> alock (snd (spec_malloc_pop sh t n c p)) k = alock p k"
proof -
  obtain r q where pop: "spec_pop p = (r, q)" by (cases "spec_pop p")
  then show "alock p k \<noteq> None \<Longrightarrow> ?thesis"
    using spec_pop_frame(1) [OF pop] spec_pop_Some(2) [of p "the r"]
    by (auto simp: spec_malloc_pop_def available_def split: option.split)
qed

lemma malloc_lock: "alock p k \<noteq> None \<Longrightarrow> alock (snd (spec_malloc sh t n c p)) k = alock p k"
  using malloc_pop_lock [of p k] malloc_pop_lock [of "drop_bind n p" k]
  by (auto simp: spec_malloc_def Let_def usable_bind_def split: option.splits if_splits)

lemma spec_malloc_locks:
  "fst (spec_malloc False t n c p) = Some k \<Longrightarrow> alock (snd (spec_malloc False t n c p)) k = Some (''1'', until p t)"
proof -
  have pop: "fst (spec_malloc_pop False t n c q) = Some k \<Longrightarrow>
      alock (snd (spec_malloc_pop False t n c q)) k = Some (''1'', until q t)" for q
    by (auto simp: spec_malloc_pop_def split: prod.splits option.splits)
  have "until (drop_bind n p) t = until p t" by (simp add: until_def)
  then show "fst (spec_malloc False t n c p) = Some k \<Longrightarrow> ?thesis"
    using pop [of p] pop [of "drop_bind n p"]
    by (auto simp: spec_malloc_def Let_def split: option.splits if_splits)
qed

lemma malloc_now: "anow (snd (spec_malloc sh t n c p)) = anow p"
proof -
  have "anow (snd (spec_malloc_pop sh t n c q)) = anow q" for q
  proof -
    obtain r q' where "spec_pop q = (r, q')" by (cases "spec_pop q")
    with spec_pop_frame(3) show ?thesis by (auto simp: spec_malloc_pop_def split: option.split)
  qed
  then show ?thesis by (auto simp: spec_malloc_def Let_def split: option.split)
qed

text \<open>The keys an event may leave locked in the free list.\<close>

definition jams :: "event \<Rightarrow> string set" where
  "jams e = (case e of Relocked k \<Rightarrow> {k} | _ \<Rightarrow> {})"

definition advances :: "apool \<Rightarrow> event \<Rightarrow> apool \<Rightarrow> bool" where
  "advances p e q \<longleftrightarrow> inv_pool (jammed p \<union> jams e) q \<and>
     (\<forall>k. alock p k \<noteq> None \<longrightarrow> \<not> touches k e \<or> adds e \<and> members p k \<noteq> None \<longrightarrow>
        alock q k = (case e of Elapsed d \<Rightarrow> alock (spec_elapse d p) k | _ \<Rightarrow> alock p k)) \<and>
     anow q = anow p + (case e of Elapsed d \<Rightarrow> d | _ \<Rightarrow> 0)"

lemma advancesI:
  "inv_pool (jammed p \<union> jams e) q \<Longrightarrow> (\<And>k. alock p k \<noteq> None \<Longrightarrow> \<not> touches k e \<or> adds e \<and> members p k \<noteq> None \<Longrightarrow> alock q k = alock p k) \<Longrightarrow>
     anow q = anow p \<Longrightarrow> (\<And>d. e \<noteq> Elapsed d) \<Longrightarrow> advances p e q"
  by (auto simp: advances_def split: event.split)

lemma inv_jams: "wf_pool p \<Longrightarrow> inv_pool (jammed p \<union> X) p"
  by (simp add: inv_pool_def)

lemma advances_refl: "wf_pool p \<Longrightarrow> (\<And>d. e \<noteq> Elapsed d) \<Longrightarrow> advances p e p"
  by (intro advancesI inv_jams) simp_all

lemma advances_elapse: "wf_pool p \<Longrightarrow> advances p (Elapsed d) (spec_elapse d p)"
  by (simp add: advances_def inv_elapse inv_jams) (simp add: spec_elapse_def Let_def)

lemma validate_safe: "\<forall>k\<in>set ks. safe_key k \<Longrightarrow> validate_keys (map PyStr ks) = None"
  using safe_key_link(5) by (auto simp: validate_keys_iff)

lemma key_names: "map key_name (map PyStr ks) = ks"
  by (simp add: comp_def)

lemma valid_names:
  assumes "validate_keys ks = None" and "no_bars ks"
  shows "\<forall>k\<in>set (map key_name ks). safe_key k" and "map PyStr (map key_name ks) = ks"
proof -
  have str: "\<exists>x. k = PyStr x \<and> safe_key x" if "k \<in> set ks" for k
    using assms that by (fastforce simp: validate_keys_iff no_bars_def safe_key_def)
  then show "\<forall>k\<in>set (map key_name ks). safe_key k" by fastforce
  have "PyStr (key_name k) = k" if "k \<in> set ks" for k using str [OF that] by auto
  then show "map PyStr (map key_name ks) = ks" by (simp add: map_idI)
qed

text \<open>Before the deadline of a lock; a lock without one never ends.\<close>

definition in_time :: "keyspace \<Rightarrow> int option \<Rightarrow> bool" where
  "in_time V d = (case d of None \<Rightarrow> True | Some t \<Rightarrow> now_ms V < t)"

section \<open>Every transition keeps the invariants\<close>

context redis_server
begin

lemma extend_advances:
  assumes "rep A (view s) p" and bars: "no_bars ks"
  shows "\<exists>q. rep A (view (final_state (extend_pool R A (Some ks) t s))) q \<and> advances p (Extended (map key_name ks)) q"
proof (cases "validate_keys ks")
  case None
  define t' where "t' = (case t of None \<Rightarrow> -1 | Some t \<Rightarrow> t)"
  let ?ks = "map key_name ks"
  note safe = valid_names(1) [OF None bars]
  from extend_script_sim [OF assms(1) safe, of t'] obtain s' where
    s': "extend_script R A t' ?ks s = Done () s'" "rep A (view s') (spec_extend t' ?ks p)" by blast
  moreover have "advances p (Extended ?ks) (spec_extend t' ?ks p)"
    using inv_extend [OF inv_jams [OF repD(3) [OF assms(1)]] safe]
    by (intro advancesI) (auto simp: lock_kept touches_def simp del: set_map)
  ultimately show ?thesis
    using assms(1) advances_refl [OF repD(3) [OF assms(1)]]
    by (cases "ks = []") (auto simp: extend_pool_def None t'_def)
next
  case (Some e)
  then show ?thesis
    using assms(1) advances_refl [OF repD(3) [OF assms(1)]] by (auto simp: extend_pool_def)
qed

lemma shrink_advances:
  assumes "rep A (view s) p"
  shows "\<exists>q. rep A (view (final_state (shrink R A (Some ks) s))) q \<and> advances p (Shrunk ks) q"
proof (cases "ks = []")
  case False
  from shrink_script_sim [OF assms, of ks] inv_shrink [OF inv_jams [OF repD(3) [OF assms]], where ks = ks] False show ?thesis
    by (auto simp: shrink_def intro!: exI [of _ "spec_shrink ks p"] advancesI simp: lock_kept)
qed (use assms advances_refl [OF repD(3) [OF assms]] in \<open>auto simp: shrink_def\<close>)

lemma clear_advances:
  assumes "rep A (view s) p" and "\<And>d. e \<noteq> Elapsed d"
  shows "\<exists>q. rep A (view (final_state (clear R A s))) q \<and> advances p e q"
  using clear_sim [OF assms(1)] inv_clear assms(2)
  by (auto intro!: exI [of _ "spec_clear p"] advancesI simp: lock_kept)

lemma assign_advances:
  assumes "rep A (view s) p" and bars: "no_bars ks" and "table_order pairs"
  shows "\<exists>q. rep A (view (final_state (assign R A pairs (Some ks) t s))) q \<and> advances p (Assigned (map key_name ks)) q"
proof (cases "ks = []")
  case True
  with clear_advances [OF assms(1), of "Assigned []"] show ?thesis by (simp add: assign_def)
next
  case nonempty: False
  show ?thesis
  proof (cases "validate_keys ks")
    case None
    let ?ks = "map key_name ks"
    note safe = valid_names(1) [OF None bars]
    from assign_script_sim [OF assms(1) safe assms(3), of t] obtain new s' where
      s': "assign_script R A pairs t ?ks s = Done () s'" "rep A (view s') (spec_assign t (set ?ks) new p)"
      and new: "distinct new" "set new = set ?ks - dom (members p)" by blast
    have "inv_pool (jammed p \<union> jams (Assigned ?ks)) (spec_assign t (set ?ks) new p)"
      using new(2) safe by (intro inv_assign inv_jams repD(3) [OF assms(1)] new(1)) (auto simp: keep_only_def)
    then have "advances p (Assigned ?ks) (spec_assign t (set ?ks) new p)"
      using new by (intro advancesI) (auto simp: lock_kept touches_def simp del: set_map)
    with s' nonempty show ?thesis by (auto simp: assign_def None)
  next
    case (Some e)
    with nonempty show ?thesis
      using assms(1) advances_refl [OF repD(3) [OF assms(1)]] by (auto simp: assign_def)
  qed
qed

lemma malloc_advances:
  assumes "rep A (view s) p"
  shows "malloc_script R A t n c s = Done r s' \<Longrightarrow> \<exists>q. rep A (view s') q \<and> advances p (Allocated r) q"
    and "malloc_script R A t n c s = Abort err s' \<Longrightarrow> \<exists>q. rep A (view s') q \<and> advances p MallocFailed q"
proof -
  have good: "advances p e (snd (spec_malloc (shared A) t n c p))" if "\<And>d. e \<noteq> Elapsed d" for e
    using inv_malloc [OF inv_jams [OF repD(3) [OF assms]]] malloc_lock malloc_now that by (intro advancesI) auto
  have bad: "\<exists>k s1. malloc_script R A t n c s = Abort (RedisError ''invalid expire time'') s1 \<and>
      rep A (view s1) (spec_take k (bind_name n c k p))"
    if "\<not> (shared A \<or> 0 < t \<or> usable_bind n p = None)"
  proof -
    from that obtain k where k: "usable_bind n p = Some k" by auto
    then have "n \<noteq> ''''" "k \<in> dom (members p)" by (auto simp: usable_bind_def split: if_splits option.splits)
    with bound_branch(1) [OF assms _ k] malloc_bound_sim(3) [OF assms, of k t n c] that
    show ?thesis by auto
  qed
  have spoilt: "advances p MallocFailed (spec_take k (bind_name n c k p))" for k
    using inv_jams [OF repD(3) [OF assms]] by (intro advancesI) (simp_all add: inv_take inv_bind)
  show "malloc_script R A t n c s = Done r s' \<Longrightarrow> \<exists>q. rep A (view s') q \<and> advances p (Allocated r) q"
    and "malloc_script R A t n c s = Abort err s' \<Longrightarrow> \<exists>q. rep A (view s') q \<and> advances p MallocFailed q"
  proof -
    consider (ok) s1 where "malloc_script R A t n c s = Done (fst (spec_malloc (shared A) t n c p)) s1"
        "rep A (view s1) (snd (spec_malloc (shared A) t n c p))"
      | (failed) k s1 where "malloc_script R A t n c s = Abort (RedisError ''invalid expire time'') s1"
        "rep A (view s1) (spec_take k (bind_name n c k p))"
    proof (cases "shared A \<or> 0 < t \<or> usable_bind n p = None")
      case True
      from malloc_script_sim [OF assms this] ok show thesis by blast
    next
      case False
      from bad [OF this] failed show thesis by blast
    qed
    then show "malloc_script R A t n c s = Done r s' \<Longrightarrow> \<exists>q. rep A (view s') q \<and> advances p (Allocated r) q"
      and "malloc_script R A t n c s = Abort err s' \<Longrightarrow> \<exists>q. rep A (view s') q \<and> advances p MallocFailed q"
      using good [of "Allocated r"] spoilt by (cases; auto)+
  qed
qed

lemma free_advances:
  assumes "rep A (view s) p" and "set ks \<inter> jammed p = {}"
  shows "\<exists>q. rep A (view (final_state (free_keys R A ks t s))) q \<and> advances p (Freed ks) q"
proof (cases "ks = []")
  case False
  from free_script_sim [OF assms, of "expiry_of p t"] obtain s' where
    "for_each (free_one R A (expiry_of p t)) ks s = Done () s'" "rep A (view s') (spec_free t ks p)"
    by (auto simp: spec_free_def)
  moreover have "advances p (Freed ks) (spec_free t ks p)"
    using inv_free [OF inv_poolI [OF repD(3) [OF assms(1)]] assms(2)] inv_pool_mono [of "jammed p" _ "jammed p \<union> X" for X]
    by (intro advancesI) (auto simp: lock_kept touches_def)
  ultimately show ?thesis
    using False by (auto simp: free_keys_def rep_reads(6) [OF assms(1)])
qed (use assms advances_refl [OF repD(3) [OF assms(1)]] in \<open>auto simp: free_keys_def\<close>)

lemma gc_advances:
  assumes "rep A (view s) p"
  shows "\<exists>q. rep A (view (final_state (gc R A n s))) q \<and> advances p Collected q"
proof (cases "n > 0")
  case True
  from gc_script_frame [OF assms, of n] obtain q where
    "rep A (view (final_state (gc_script R A n s))) q" "gc_frame p q" by blast
  then show ?thesis
    using True by (auto simp: gc_def gc_frame_def intro!: exI [of _ q] advancesI intro: inv_pool_mono)
qed (use assms advances_refl [OF repD(3) [OF assms]] in \<open>auto simp: gc_def\<close>)

text \<open>
  Locks taken and dropped by hand: each lock operation leaves everything as it is, writes the lock of its
  key or deletes it.
\<close>

lemma rep_lock_ok: "rep A V p \<Longrightarrow> lock_ok A V"
  by (simp add: lock_ok_def typed_keys(4) repD(1))

definition relocks :: "'a lock_cfg_scheme \<Rightarrow> string \<Rightarrow> keyspace \<Rightarrow> keyspace \<Rightarrow> bool" where
  "relocks A k V V' \<longleftrightarrow> V' = V \<or> (\<exists>v ex. V' = put_lock A k v ex V) \<or> V' = erase (key_str A k) V"

lemma relocksI [simp]: "relocks A k V V" "relocks A k V (put_lock A k v ex V)" "relocks A k V (erase (key_str A k) V)"
  by (auto simp: relocks_def)

lemma relocks_set: "relocks A k (view s) (view (final_state (lock_update R A k v ex s)))"
proof (cases "ex_ok ex")
  case True
  with update_effect [of ex A k v s] show ?thesis by auto
next
  case False
  then obtain n where "ex = Some n" "n \<le> 0" by (cases ex) auto
  then show ?thesis by (simp add: lock_update_def set_ex_nonpos)
qed

lemma relocks_lock:
  assumes "lock_ok A (view s)"
  shows "relocks A k (view s) (view (final_state (lock R A k v ex s)))"
    and "relocks A k (view s) (view (final_state (rlock R A k v ex s)))"
proof -
  show "relocks A k (view s) (view (final_state (lock R A k v ex s)))"
  proof (cases "ex_ok ex")
    case True
    with lock_free [OF assms True, of k v] lock_taken [OF assms True, of k v] show ?thesis
      by (cases "holder A (view s) k") auto
  qed (simp add: lock_def setnx_error)
  show "relocks A k (view s) (view (final_state (rlock R A k v ex s)))"
  proof (cases "ex_ok ex")
    case True
    with rlock_free [OF assms True, of k v] rlock_taken [OF assms True, of k _ v] show ?thesis
      by (cases "holder A (view s) k") auto
  qed (simp add: rlock_def setnxget_error)
qed

lemma relocks_conditional: "relocks A k (view s) (view (final_state (conditional_setdel R A N eps op k x sv ex isdel s)))"
proof -
  have put: "relocks A k (view s) (view (r_set R (key_str A k) w s))"
    and del: "relocks A k (view s) (view (snd (r_del R (key_str A k) s)))" for w
    using relocksI(2) [of A k "view s" w None] by (simp_all add: set_cmd put_lock_def del)
  have ex: "\<exists>s'. set_ex R (key_str A k) w n s = Done () s' \<and> relocks A k (view s) (view s')" if "0 < n" for w n
    using set_ex_pos [OF that, of "key_str A k" w s] relocksI(2) [of A k "view s" w "Some n"] by (auto simp: put_lock_def)
  have "relocks A k (view s) (view (final_state
      (then_do (set_ex R (key_str A k) w n s) (\<lambda>_ s1. Done True s1))))" if "0 < n" for w n
    using ex [OF that, of w] by auto
  with put del show ?thesis
    by (simp add: conditional_setdel_def Let_def split: option.split)
qed

lemma relock_advances:
  assumes "rep A (view s) p" and "relocks A k (view s) (view s')"
  shows "\<exists>q. rep A (view s') q \<and> advances p (Relocked k) q"
proof -
  note inv = inv_jams [OF repD(3) [OF assms(1)], of "{k}"]
  have "advances p (Relocked k) p" using repD(3) [OF assms(1)] by (simp add: advances_refl)
  moreover have "advances p (Relocked k) (set_lock k e p)" for e
    using inv_set_lock [OF inv, of k e] by (auto simp: touches_def jams_def intro!: advancesI)
  moreover have "advances p (Relocked k) (drop_lock k p)"
    using inv_drop_lock [OF inv, of k] by (auto simp: touches_def jams_def intro!: advancesI)
  ultimately show ?thesis
    using assms rep_put(1,4) [OF assms(1)] unfolding relocks_def put_lock_def by metis
qed

lemma unlock_advances:
  assumes "rep A (view s) p"
  shows "\<exists>q. rep A (view (final_state (unlock R A k s))) q \<and> advances p (Unlocked k) q"
proof -
  from unlock_effect [OF rep_lock_ok [OF assms]] obtain s' where
    "final_state (unlock R A k s) = s'" "view s' = erase (key_str A k) (view s)" by (metis final_state.simps(1))
  with rep_put(4) [OF assms, of k] inv_drop_lock [OF inv_jams [OF repD(3) [OF assms]], of "jams (Unlocked k)" k] show ?thesis
    by (auto simp: touches_def intro!: exI [of _ "drop_lock k p"] advancesI)
qed

lemma env_advances:
  assumes "rep A (view s) p" and "typed A (view s')" and "av A (view s') = av A (elapse d (view s))"
  shows "\<exists>q. rep A (view s') q \<and> advances p (Elapsed d) q"
  using advances_elapse [OF repD(3) [OF assms(1)]] assms(2,3) repD(2) [OF rep_elapse [OF assms(1)]]
    repD(3) [OF rep_elapse [OF assms(1)]] by (metis repI)

lemma is_jammed_iff: "rep A (view s) p \<Longrightarrow> is_jammed R A k s \<longleftrightarrow> k \<in> jammed p"
  by (simp add: is_jammed_def jammed_def get_free_list_def get_free_list_eq is_locked_def rep_reads(2))

lemma step_advances:
  assumes "alloc_step R view A far pairs s e s'" and "rep A (view s) p" and "table_order pairs"
  shows "\<exists>q. rep A (view s') q \<and> advances p e q"
  using assms
proof cases
  case (step_malloc t n c r)
  with malloc_advances(1) [OF assms(2)] show ?thesis by (auto simp: malloc_key_def Let_def)
next
  case (step_malloc_fails t n c err)
  with malloc_advances(2) [OF assms(2)] show ?thesis by (auto simp: malloc_key_def Let_def)
next
  case (step_env d)
  with env_advances [OF assms(2)] show ?thesis by blast
next
  case (step_extend ks t)
  with extend_advances [OF assms(2), of ks t] show ?thesis by simp
next
  case (step_shrink ks)
  with shrink_advances [OF assms(2), of ks] show ?thesis by simp
next
  case (step_assign ks t)
  with assign_advances [OF assms(2) _ assms(3), of ks t] show ?thesis by simp
next
  case step_clear
  with clear_advances [OF assms(2)] show ?thesis by simp
next
  case (step_free ks t)
  then have "set ks \<inter> jammed p = {}" by (auto simp: is_jammed_iff [OF assms(2)])
  with free_advances [OF assms(2) this, of t] step_free show ?thesis by simp
next
  case (step_gc n)
  with gc_advances [OF assms(2), of n] show ?thesis by simp
next
  case (step_unlock k)
  with unlock_advances [OF assms(2), of k] show ?thesis by simp
next
  case (step_update k v ex)
  with relock_advances [OF assms(2) relocks_set] show ?thesis by simp
next
  case (step_lock k v ex)
  with relock_advances [OF assms(2) relocks_lock(1) [OF rep_lock_ok [OF assms(2)]]] show ?thesis by simp
next
  case (step_rlock k v ex)
  with relock_advances [OF assms(2) relocks_lock(2) [OF rep_lock_ok [OF assms(2)]]] show ?thesis by simp
next
  case (step_conditional k N eps op x sv ex isdel)
  with relock_advances [OF assms(2) relocks_conditional] show ?thesis by simp
qed

section \<open>Reachable states\<close>

lemma trace_good:
  "alloc_trace R view A far pairs s es s' \<Longrightarrow> good view A s \<Longrightarrow> table_order pairs \<Longrightarrow> good view A s'"
proof (induction rule: alloc_trace.induct)
  case (trace_step s es s1 e s2)
  then obtain p where "rep A (view s1) p" by (auto simp: good_def)
  from step_advances [OF trace_step(2) this trace_step(5)] show ?case by (auto simp: good_def)
qed

lemma step_clock:
  assumes "alloc_step R view A far pairs s e s'" and "good view A s" and "table_order pairs"
  shows "now_ms (view s) \<le> now_ms (view s')"
proof -
  from assms(2) obtain p where p: "rep A (view s) p" by (auto simp: good_def)
  from step_advances [OF assms(1) p assms(3)] obtain q where q: "rep A (view s') q" "advances p e q" by blast
  have "0 \<le> (case e of Elapsed d \<Rightarrow> d | _ \<Rightarrow> 0)" using assms(1) by (cases rule: alloc_step.cases) simp_all
  then show ?thesis using q(2) rep_now [OF p(1)] rep_now [OF q(1)] by (simp add: advances_def)
qed

text \<open>A key is jammed only if it was at the start or somebody locked it by hand on the way.\<close>

lemma trace_jammed:
  assumes "alloc_trace R view A far pairs s es s'" and "rep A (view s) p" and "table_order pairs"
  shows "\<exists>q. rep A (view s') q \<and> jammed q \<subseteq> jammed p \<union> {k. Relocked k \<in> set es}"
  using assms
proof (induction rule: alloc_trace.induct)
  case (trace_step s es s1 e s2)
  then obtain q where q: "rep A (view s1) q" "jammed q \<subseteq> jammed p \<union> {k. Relocked k \<in> set es}" by blast
  from step_advances [OF trace_step(2) q(1) trace_step.prems(2)] obtain r where
    r: "rep A (view s2) r" "advances q e r" by blast
  have "jams e \<subseteq> {k. Relocked k \<in> set (es @ [e])}" by (auto simp: jams_def split: event.splits)
  with q(2) r show ?case by (auto simp: advances_def inv_pool_def)
qed auto

text \<open>
  The lock of a key nobody touches stays until its deadline, whether or not the key is in the free list, and
  until then no \<open>malloc\<close> returns the key. A key is \<open>secured\<close> when it is locked and not in the free list; it
  stays outside the free list as long.
\<close>

definition secured :: "apool \<Rightarrow> string \<Rightarrow> string \<times> int option \<Rightarrow> bool" where
  "secured p k e \<longleftrightarrow> alock p k = Some e \<and> k \<notin> set (free p)"

lemma malloc_result:
  assumes "malloc_script R A t n c s = Done (Some k) s'" and "rep A (view s) p"
  shows "alock p k = None" and "k \<in> dom (members p)"
    and "\<exists>q. rep A (view s') q \<and> (\<not> shared A \<longrightarrow> secured q k (''1'', until p t))"
proof -
  have ok: "shared A \<or> 0 < t \<or> usable_bind n p = None"
  proof (rule ccontr)
    assume not: "\<not> ?thesis"
    then obtain j where j: "usable_bind n p = Some j" by auto
    then have "n \<noteq> ''''" "j \<in> dom (members p)" by (auto simp: usable_bind_def split: if_splits option.splits)
    with bound_branch(1) [OF assms(2) _ j] malloc_bound_sim(3) [OF assms(2), of j t n c] not assms(1)
    show False by auto
  qed
  from malloc_script_sim [OF assms(2) ok, of c] assms(1) have
    k: "fst (spec_malloc (shared A) t n c p) = Some k"
    and rep': "rep A (view s') (snd (spec_malloc (shared A) t n c p))" by auto
  show *: "alock p k = None" "k \<in> dom (members p)" using malloc_picks [OF k] repD(3) [OF assms(2)] by auto
  have inv': "inv_pool (jammed p) (snd (spec_malloc (shared A) t n c p))" using inv_malloc [OF inv_poolI [OF repD(3) [OF assms(2)]]] .
  have "alock (snd (spec_malloc (shared A) t n c p)) k = Some (''1'', until p t)" if "\<not> shared A"
    using k that spec_malloc_locks [of t n c p k] by simp
  with rep' inv_poolD(3) [OF inv', of k] * show
    "\<exists>q. rep A (view s') q \<and> (\<not> shared A \<longrightarrow> secured q k (''1'', until p t))"
    by (auto simp: secured_def jammed_def)
qed

lemma step_lock_survives:
  assumes "alloc_step R view A far pairs s e s'" and "rep A (view s) p" and "table_order pairs"
    and "alock p k = Some (v, d)" and "\<not> disturbs R A k s e" and "in_time (view s') d"
  shows "\<exists>q. rep A (view s') q \<and> alock q k = Some (v, d) \<and> (k \<notin> set (free p) \<longrightarrow> k \<notin> set (free q))"
proof -
  from step_advances [OF assms(1-3)] obtain q where q: "rep A (view s') q" "advances p e q" by blast
  have calm: "\<not> touches k e \<or> adds e \<and> members p k \<noteq> None"
    using assms(5) rep_reads(1) [OF assms(2)] by (auto simp: disturbs_def contains_def)
  then have jam: "k \<notin> jams e" by (auto simp: jams_def touches_def split: event.splits)
  have "alock q k = (case e of Elapsed d \<Rightarrow> alock (spec_elapse d p) k | _ \<Rightarrow> alock p k)"
    and "now_ms (view s') = anow p + (case e of Elapsed d \<Rightarrow> d | _ \<Rightarrow> 0)"
    using assms(4) calm q(2) rep_now [OF q(1)] by (auto simp: advances_def)
  then have "alock q k = Some (v, d)"
    using assms(4,6) by (auto simp: spec_elapse_def Let_def in_time_def live_def split: event.splits option.splits)
  moreover from this have "k \<notin> set (free p) \<longrightarrow> k \<notin> set (free q)"
    using q(2) jam inv_poolD(3) [of "jammed p \<union> jams e" q k] by (auto simp: advances_def jammed_def)
  ultimately show ?thesis using q(1) by auto
qed

lemma trace_lock_survives:
  assumes "calm_trace R view A far pairs k s es s'" and "rep A (view s) p" and "table_order pairs"
    and "alock p k = Some (v, d)" and "in_time (view s') d"
  shows "Allocated (Some k) \<notin> set es \<and>
    (\<exists>q. rep A (view s') q \<and> alock q k = Some (v, d) \<and> (k \<notin> set (free p) \<longrightarrow> k \<notin> set (free q)))"
  using assms
proof (induction rule: calm_trace.induct)
  case (calm_step s es s1 e s2)
  from calm_step.prems have "good view A s" by (auto simp: good_def)
  from step_clock [OF calm_step(2) trace_good [OF calm_alloc [OF calm_step(1)] this] calm_step.prems(2)] calm_step.prems(2,4)
  have "in_time (view s1) d" by (auto simp: in_time_def split: option.splits)
  with calm_step obtain q where q: "rep A (view s1) q" "alock q k = Some (v, d)" and es: "Allocated (Some k) \<notin> set es"
    and qf: "k \<notin> set (free p) \<longrightarrow> k \<notin> set (free q)" by auto
  have "e \<noteq> Allocated (Some k)"
  proof
    assume "e = Allocated (Some k)"
    with calm_step(2) obtain t n c where "malloc_script R A t n c s1 = Done (Some k) s2"
      by (auto elim!: allocated_stepE simp: malloc_key_def Let_def)
    from malloc_result(1) [OF this q(1)] q(2) show False by simp
  qed
  moreover from step_lock_survives [OF calm_step(2) q(1) calm_step.prems(2) q(2) calm_step(3)] calm_step.prems(4)
  obtain r where "rep A (view s2) r" "alock r k = Some (v, d)" "k \<notin> set (free q) \<longrightarrow> k \<notin> set (free r)" by auto
  ultimately show ?case using es qf by auto
qed auto

end

section \<open>The allocator is a lock pool\<close>

text \<open>
  \<open>RedisAllocator\<close> inherits \<open>values_lock_status\<close>, \<open>health_check\<close> and the like from \<open>BaseLockPool\<close> and
  replaces the set of members by the pool hash: it keeps the contract of the pool.
\<close>

definition hash_members :: "'a lock_cfg_scheme \<Rightarrow> keyspace \<Rightarrow> string set" where
  "hash_members A V = dom (hashes V (pool_str A))"

lemma rep_members: "rep A V p \<Longrightarrow> hash_members A V = dom (members p)"
  by (simp add: hash_members_def rep_dom_pool)

lemma goodI: "rep A (view s) p \<Longrightarrow> good view A s"
  by (auto simp: good_def)

lemma dom_spec_extend: "dom (members (spec_extend t ks p)) = dom (members p) \<union> set ks"
proof -
  have "dom (members (fold (spec_extend_one e) ks p)) = dom (members p) \<union> set ks" for e
    by (induction ks arbitrary: p) (auto simp: spec_extend_one_def spec_add_def)
  then show ?thesis by (simp add: spec_extend_def)
qed

lemma dom_spec_shrink: "wf_pool p \<Longrightarrow> dom (members (spec_shrink ks p)) = dom (members p) - set ks"
  using fold_remove_sel [OF wf_poolD(1), of p ks] by (auto simp: spec_shrink_def)

lemma dom_spec_assign:
  "set new = S - dom (members p) \<Longrightarrow> dom (members (spec_assign t S new p)) = S"
proof -
  have "dom (members (fold (spec_add e) new q)) = dom (members q) \<union> set new" for e q
    by (induction new arbitrary: q) (auto simp: spec_add_def)
  then show "set new = S - dom (members p) \<Longrightarrow> ?thesis"
    by (auto simp: spec_assign_def keep_only_def)
qed

context redis_server
begin

lemmas good_state = goodI [where view = view]

lemma allocator_extend:
  assumes "good view A s" and ks: "\<forall>k\<in>set ks. safe_key k"
  shows "\<exists>s'. extend_pool R A (Some (map PyStr ks)) t s = Done () s' \<and> good view A s' \<and>
    hash_members A (view s') = hash_members A (view s) \<union> set ks"
proof -
  from assms(1) obtain p where p: "rep A (view s) p" by (auto simp: good_def)
  define t' where "t' = (case t of None \<Rightarrow> -1 | Some t \<Rightarrow> t)"
  from extend_script_sim [OF p ks, of t'] obtain s' where
    s': "extend_script R A t' ks s = Done () s'" "rep A (view s') (spec_extend t' ks p)" by blast
  show ?thesis
  proof (cases "ks = []")
    case False
    with s' good_state [OF s'(2)] show ?thesis
      by (auto simp: extend_pool_def validate_safe ks key_names t'_def rep_members [OF p] rep_members [OF s'(2)] dom_spec_extend
          simp del: map_map)
  qed (use assms in \<open>simp add: extend_pool_def\<close>)
qed

lemma allocator_shrink:
  assumes "good view A s"
  shows "\<exists>s'. shrink R A (Some ks) s = Done () s' \<and> good view A s' \<and>
    hash_members A (view s') = hash_members A (view s) - set ks"
proof -
  from assms(1) obtain p where p: "rep A (view s) p" by (auto simp: good_def)
  from shrink_script_sim [OF p, of ks] obtain s' where
    s': "for_each (shrink_one R A) ks s = Done () s'" "rep A (view s') (spec_shrink ks p)" by blast
  show ?thesis
  proof (cases "ks = []")
    case False
    with s' good_state [OF s'(2)] show ?thesis
      by (auto simp: shrink_def rep_members [OF p] rep_members [OF s'(2)] dom_spec_shrink repD(3) [OF p])
  qed (use assms in \<open>simp add: shrink_def\<close>)
qed

lemma allocator_assign:
  assumes "good view A s" and "table_order pairs" and ks: "\<forall>k\<in>set ks. safe_key k"
  shows "\<exists>s'. assign R A pairs (Some (map PyStr ks)) t s = Done () s' \<and> good view A s' \<and>
    hash_members A (view s') = set ks"
proof -
  from assms(1) obtain p where p: "rep A (view s) p" by (auto simp: good_def)
  show ?thesis
  proof (cases "ks = []")
    case True
    from clear_sim [OF p] obtain s' where s': "clear R A s = Done () s'" "rep A (view s') (spec_clear p)" by blast
    with True good_state [OF s'(2)] show ?thesis
      by (simp add: assign_def rep_members) (simp add: spec_clear_def)
  next
    case False
    from assign_script_sim [OF p ks assms(2), of t] obtain new s' where
      s': "assign_script R A pairs t ks s = Done () s'" "rep A (view s') (spec_assign t (set ks) new p)"
      and new: "distinct new" "set new = set ks - dom (members p)" by blast
    from good_state [OF s'(2)] s' False dom_spec_assign [OF new(2)] show ?thesis
      by (auto simp: assign_def validate_safe ks key_names rep_members simp del: map_map)
  qed
qed

lemma allocator_keys:
  assumes "good view A s"
  shows "set (pool_keys R A s) = hash_members A (view s)" and "distinct (pool_keys R A s)"
proof -
  from assms obtain p where "rep A (view s) p" by (auto simp: good_def)
  then show "set (pool_keys R A s) = hash_members A (view s)"
    by (simp add: pool_keys_def rep_reads(4) rep_members)
  show "distinct (pool_keys R A s)" by (simp add: pool_keys_def hkeys_distinct)
qed

end

sublocale redis_server \<subseteq> ap: key_pool "\<lambda>s. good view A s \<and> table_order pairs" safe_key
  "\<lambda>s. hash_members A (view s)" "\<lambda>s k. holder A (view s) k \<noteq> None"
  "\<lambda>ks. extend_pool R A (Some (map PyStr ks)) t" "\<lambda>ks. shrink R A (Some ks)"
  "\<lambda>ks. assign R A pairs (Some (map PyStr ks)) t'" "pool_keys R A" "get_key_lock_status R A"
  for A :: "'a config_scheme" and pairs t t'
proof (unfold_locales, goal_cases)
  case (1 s ks)
  with allocator_extend [of A s ks t] show ?case by auto
next
  case (2 s ks)
  with allocator_shrink [of A s ks] show ?case by auto
next
  case (3 s ks)
  with allocator_assign [of A s pairs ks t'] show ?case by auto
next
  case (4 s)
  with allocator_keys(1) show ?case by auto
next
  case (5 s)
  with allocator_keys(2) show ?case by auto
next
  case (6 s ks)
  show ?case by (rule lock_status_eq)
qed

end
