(* ===== verification/Allocator_Facts.thy ===== *)
theory Allocator_Facts
  imports Allocator_System
begin

text \<open>
  The abstract operations in terms of what a client observes: the free list, the members, the locks and
  the bindings. The properties of the allocator are read off these facts and the simulations.
\<close>

section \<open>Observations\<close>

context redis_server
begin

lemma observe:
  assumes "rep A (view s) p"
  shows "get_free_list R A s = free p" and "set (pool_keys R A s) = dom (members p)"
    and "contains R A k s \<longleftrightarrow> k \<in> dom (members p)" and "is_locked R A k s \<longleftrightarrow> alock p k \<noteq> None"
    and "lock_value R A k s = map_option fst (alock p k)" and "get_soft_bind R A n s = map_option fst (abind p n)"
proof -
  show "get_free_list R A s = free p" by (simp add: get_free_list_def get_free_list_eq [OF assms])
  show "set (pool_keys R A s) = dom (members p)" by (simp add: pool_keys_def rep_reads(4) [OF assms])
  show "contains R A k s \<longleftrightarrow> k \<in> dom (members p)" by (simp only: contains_def rep_reads(1) [OF assms])
  show "is_locked R A k s \<longleftrightarrow> alock p k \<noteq> None" by (simp add: is_locked_def rep_reads(2) [OF assms])
  show "lock_value R A k s = map_option fst (alock p k)"
    using lock_value_eq [OF rep_lock_ok [OF assms], of k] rep_lock [OF assms, of k] by (simp add: holder_def)
  show "get_soft_bind R A n s = map_option fst (abind p n)" by (simp add: get_soft_bind_def rep_reads(5) [OF assms])
qed

lemma good_rep: "good view A s \<Longrightarrow> (\<And>p. rep A (view s) p \<Longrightarrow> wf_pool p \<Longrightarrow> thesis) \<Longrightarrow> thesis"
  by (auto simp: good_def dest: repD(3))

end

section \<open>The free list after each operation\<close>

text \<open>The first occurrences of the keys that are not members yet, in order.\<close>

fun new_keys :: "string set \<Rightarrow> string list \<Rightarrow> string list" where
  "new_keys S [] = []"
| "new_keys S (k # ks) = (if k \<in> S then new_keys S ks else k # new_keys (insert k S) ks)"

lemma new_keys_set: "set (new_keys S ks) = set ks - S" "distinct (new_keys S ks)"
  by (induction ks arbitrary: S) auto

lemma extend_free: "free (spec_extend t ks p) = free p @ new_keys (dom (members p)) ks"
proof -
  have "free (fold (spec_extend_one e) ks p) = free p @ new_keys (dom (members p)) ks" for e
  proof (induction ks arbitrary: p)
    case (Cons k ks)
    have "dom ((members p)(k \<mapsto> e)) = insert k (dom (members p))" by simp
    with Cons.IH [of "spec_extend_one e k p"] show ?case
      by (auto simp: spec_extend_one_def spec_add_def insert_absorb)
  qed simp
  then show ?thesis by (simp add: spec_extend_def)
qed

lemma shrink_free: "wf_pool p \<Longrightarrow> free (spec_shrink ks p) = filter (\<lambda>k. k \<notin> set ks) (free p)"
  by (simp add: spec_shrink_def fold_remove_sel wf_poolD(1))

lemma assign_free: "free (spec_assign t S new p) = filter (\<lambda>k. k \<in> S) (free p) @ new"
proof -
  have "free (fold (spec_add e) new q) = free q @ new" for e q
    by (induction new arbitrary: q) (simp_all add: spec_add_def)
  then show ?thesis by (simp add: spec_assign_def keep_only_def)
qed

text \<open>A key that enters the pool loses the lock of an earlier life.\<close>

lemma extend_locks:
  "alock (spec_extend t ks p) k \<noteq> None \<longleftrightarrow> alock p k \<noteq> None \<and> \<not> (k \<in> set ks \<and> k \<notin> dom (members p))"
proof -
  have "alock (fold (spec_extend_one e) ks p) k \<noteq> None \<longleftrightarrow>
      alock p k \<noteq> None \<and> \<not> (k \<in> set ks \<and> k \<notin> dom (members p))" for e
  proof (induction ks arbitrary: p)
    case (Cons j ks)
    have "dom (members (spec_extend_one e j p)) = insert j (dom (members p))"
      by (auto simp: spec_extend_one_def spec_add_def)
    moreover have "alock (spec_extend_one e j p) k \<noteq> None \<longleftrightarrow> alock p k \<noteq> None \<and> \<not> (k = j \<and> j \<notin> dom (members p))"
      by (auto simp: spec_extend_one_def spec_add_def)
    moreover have "fold (spec_extend_one e) (j # ks) p = fold (spec_extend_one e) ks (spec_extend_one e j p)" by simp
    ultimately show ?case using Cons.IH [of "spec_extend_one e j p"] by (auto simp del: fold_simps not_None_eq)
  qed simp
  then show ?thesis by (simp add: spec_extend_def)
qed

lemma assign_locks: "alock (spec_assign t S new p) k \<noteq> None \<longleftrightarrow> alock p k \<noteq> None \<and> k \<notin> set new"
proof -
  have "alock (fold (spec_add e) new q) k \<noteq> None \<longleftrightarrow> alock q k \<noteq> None \<and> k \<notin> set new" for e q
    by (induction new arbitrary: q) (auto simp: spec_add_def)
  then show ?thesis by (simp add: spec_assign_def keep_only_def)
qed

lemma free_one_sel:
  "free (spec_free_one e k p) = free p @ (if alock p k \<noteq> None \<and> k \<in> dom (members p) then [k] else [])"
  "dom (members (spec_free_one e k p)) = dom (members p)" "alock (spec_free_one e k p) = (alock p)(k := None)"
  "abind (spec_free_one e k p) = abind p" "anow (spec_free_one e k p) = anow p"
  by (auto simp: spec_free_one_def)

text \<open>A pop takes the first available item and what was in front of it.\<close>

lemma takeWhile_drop: "drop (length (takeWhile P xs)) xs = dropWhile P xs"
  by (induction xs) auto

lemma find_dropWhile: "find P xs = (case dropWhile (\<lambda>x. \<not> P x) xs of [] \<Rightarrow> None | x # _ \<Rightarrow> Some x)"
  by (induction xs) auto

lemma pop_free:
  "fst (spec_pop p) = find (available p) (free p)"
  "free (snd (spec_pop p)) = (case dropWhile (\<lambda>k. \<not> available p k) (free p) of [] \<Rightarrow> [] | k # ks \<Rightarrow> ks)"
  by (cases "dropWhile (\<lambda>k. \<not> available p k) (free p)";
      simp only: spec_pop_def Let_def takeWhile_drop find_dropWhile drop_stale_sel spec_sel list.case prod.sel remove1.simps simp_thms if_True)+

lemma malloc_pop_free:
  "fst (spec_malloc_pop sh t n c p) = find (available p) (free p)"
  "free (snd (spec_malloc_pop sh t n c p)) = (case dropWhile (\<lambda>k. \<not> available p k) (free p) of [] \<Rightarrow> []
     | k # ks \<Rightarrow> if sh then ks @ [k] else ks)"
proof -
  obtain r q where pop: "spec_pop p = (r, q)" by (cases "spec_pop p")
  with pop_free(1) [of p] show "fst (spec_malloc_pop sh t n c p) = find (available p) (free p)"
    by (simp add: spec_malloc_pop_def split: option.split)
  have r: "r = (case dropWhile (\<lambda>k. \<not> available p k) (free p) of [] \<Rightarrow> None | k # ks \<Rightarrow> Some k)"
    and q: "free q = (case dropWhile (\<lambda>k. \<not> available p k) (free p) of [] \<Rightarrow> [] | k # ks \<Rightarrow> ks)"
    using pop pop_free [of p] by (simp_all only: prod.sel find_dropWhile)
  show "free (snd (spec_malloc_pop sh t n c p)) = (case dropWhile (\<lambda>k. \<not> available p k) (free p) of [] \<Rightarrow> []
     | k # ks \<Rightarrow> if sh then ks @ [k] else ks)"
    using r q unfolding spec_malloc_pop_def pop
    by (cases "dropWhile (\<lambda>k. \<not> available p k) (free p)") (simp_all del: dropWhile_eq_Nil_conv)
qed

text \<open>After checking every member, the live members are the unexpired ones, and the free ones the unlocked ones.\<close>

lemma check_sel:
  assumes "wf_pool p" and "k \<in> dom (members p)"
  shows "members (spec_check k p) = (if expired p k then (members p)(k := None) else members p)"
    and "alock (spec_check k p) = alock p" and "anow (spec_check k p) = anow p"
    and "set (free (spec_check k p)) = (if \<not> expired p k \<and> alock p k = None then insert k (set (free p)) else set (free p) - {k})"
  using assms wf_poolD(1) [OF assms(1)]
  by (auto simp: spec_check_def fun_eq_iff)

lemma gc_reconciles:
  assumes "wf_pool p" and "distinct ks" and "set ks \<subseteq> dom (members p)"
  shows "wf_pool (spec_gc ks p) \<and> alock (spec_gc ks p) = alock p \<and> anow (spec_gc ks p) = anow p \<and>
     (\<forall>k. members (spec_gc ks p) k = (if k \<in> set ks \<and> expired p k then None else members p k)) \<and>
     (\<forall>k. k \<in> set (free (spec_gc ks p)) \<longleftrightarrow>
        (if k \<in> set ks then \<not> expired p k \<and> alock p k = None else k \<in> set (free p)))"
  using assms
proof (induction ks arbitrary: p)
  case Nil
  then show ?case by (simp add: spec_gc_def)
next
  case (Cons k ks)
  let ?q = "spec_check k p"
  from Cons.prems have k: "k \<in> dom (members p)" "k \<notin> set ks" by auto
  note sel = check_sel [OF Cons.prems(1) k(1)]
  have "set ks \<subseteq> dom (members ?q)" using Cons.prems k by (auto simp: sel)
  with Cons.IH [of ?q] Cons.prems k(1) have IH: "wf_pool (spec_gc ks ?q)" "alock (spec_gc ks ?q) = alock ?q"
    "anow (spec_gc ks ?q) = anow ?q"
    "\<And>j. members (spec_gc ks ?q) j = (if j \<in> set ks \<and> expired ?q j then None else members ?q j)"
    "\<And>j. j \<in> set (free (spec_gc ks ?q)) \<longleftrightarrow>
       (if j \<in> set ks then \<not> expired ?q j \<and> alock ?q j = None else j \<in> set (free ?q))"
    by (simp_all add: wf_check)
  have same: "j \<noteq> k \<Longrightarrow> expired ?q j = expired p j" for j by (simp add: expired_def sel)
  have "members (spec_gc ks ?q) j = (if j \<in> set (k # ks) \<and> expired p j then None else members p j)" for j
    using k(2) IH(4) [of j] sel(1) same [of j] by (cases "j = k") auto
  moreover have "j \<in> set (free (spec_gc ks ?q)) \<longleftrightarrow>
       (if j \<in> set (k # ks) then \<not> expired p j \<and> alock p j = None else j \<in> set (free p))" for j
    using k(2) IH(5) [of j] sel(2,4) same [of j] by (cases "j = k") (simp_all split: if_splits)
  ultimately show ?case
    using IH(1-3) sel(2,3) by (simp add: spec_gc_def)
qed

section \<open>The operations as a client observes them\<close>

context redis_server
begin

lemma observe_expired:
  assumes "rep A (view s) p"
  shows "is_expired R (pool_get R A k s) s \<longleftrightarrow> expired p k"
proof (cases "members p k")
  case None
  with rep_reads(7) [OF assms, of k] have "pool_get R A k s = None" by (simp add: domIff)
  with None show ?thesis by (simp add: is_expired_def split_pool_value_def is_expiry_invalid_def expired_def expired_at_def)
next
  case (Some e)
  with pool_entry(1-3) [OF assms Some] show ?thesis by (simp add: is_expired_def)
qed

lemma observe_stale: "rep A (view s) p \<Longrightarrow> available p k \<longleftrightarrow> \<not> (is_expired R (pool_get R A k s) s \<or> is_locked R A k s)"
  by (simp add: observe_expired observe(4) available_def del: not_None_eq)

text \<open>The public operations simulate the abstract ones.\<close>

lemma operations_refine:
  assumes "rep A (view s) p"
  shows "\<forall>k\<in>set ks. safe_key k \<Longrightarrow> ks \<noteq> [] \<Longrightarrow> \<exists>s'. extend_pool R A (Some (map PyStr ks)) (Some t) s = Done () s' \<and>
      rep A (view s') (spec_extend t ks p)"
    and "ks \<noteq> [] \<Longrightarrow> \<exists>s'. shrink R A (Some ks) s = Done () s' \<and> rep A (view s') (spec_shrink ks p)"
    and "set ks \<inter> jammed p = {} \<Longrightarrow> ks \<noteq> [] \<Longrightarrow> \<exists>s'. free_keys R A ks t s = Done () s' \<and> rep A (view s') (spec_free t ks p)"
    and "shared A \<or> 0 < py_int (to_seconds far timeout) \<or> usable_bind (case name of None \<Rightarrow> '''' | Some n \<Rightarrow> n) p = None \<Longrightarrow>
      \<exists>s'. malloc_key R A far timeout name cache_timeout s = Done (fst (spec_malloc (shared A) (py_int (to_seconds far timeout))
          (case name of None \<Rightarrow> '''' | Some n \<Rightarrow> n) (py_int (to_seconds far cache_timeout)) p)) s' \<and>
        rep A (view s') (snd (spec_malloc (shared A) (py_int (to_seconds far timeout))
          (case name of None \<Rightarrow> '''' | Some n \<Rightarrow> n) (py_int (to_seconds far cache_timeout)) p))"
    and "\<exists>s'. clear R A s = Done () s' \<and> rep A (view s') (spec_clear p)"
    and "\<forall>k\<in>set ks. safe_key k \<Longrightarrow> ks \<noteq> [] \<Longrightarrow> table_order pairs \<Longrightarrow>
      \<exists>new s'. assign R A pairs (Some (map PyStr ks)) t s = Done () s' \<and> rep A (view s') (spec_assign t (set ks) new p) \<and>
        distinct new \<and> set new = set ks - dom (members p)"
    and "0 < n \<Longrightarrow> r_hscan R (pool_str A) (get_cursor R A s) n s = (c, kvs) \<Longrightarrow> distinct (map fst kvs) \<Longrightarrow>
      \<exists>s'. gc R A n s = Done () s' \<and> rep A (view s') (spec_gc (map fst kvs) p)"
proof -
  show "\<exists>s'. clear R A s = Done () s' \<and> rep A (view s') (spec_clear p)" by (rule clear_sim [OF assms])
  show "\<forall>k\<in>set ks. safe_key k \<Longrightarrow> ks \<noteq> [] \<Longrightarrow> table_order pairs \<Longrightarrow>
      \<exists>new s'. assign R A pairs (Some (map PyStr ks)) t s = Done () s' \<and> rep A (view s') (spec_assign t (set ks) new p) \<and>
        distinct new \<and> set new = set ks - dom (members p)"
    using assign_script_sim [OF assms, of ks pairs t] by (auto simp: assign_def validate_safe key_names simp del: map_map)
  show "0 < n \<Longrightarrow> r_hscan R (pool_str A) (get_cursor R A s) n s = (c, kvs) \<Longrightarrow> distinct (map fst kvs) \<Longrightarrow>
      \<exists>s'. gc R A n s = Done () s' \<and> rep A (view s') (spec_gc (map fst kvs) p)"
    using gc_script_sim [OF assms] by (simp add: gc_def)
  show "\<forall>k\<in>set ks. safe_key k \<Longrightarrow> ks \<noteq> [] \<Longrightarrow> \<exists>s'. extend_pool R A (Some (map PyStr ks)) (Some t) s = Done () s' \<and>
      rep A (view s') (spec_extend t ks p)"
    using extend_script_sim [OF assms, of ks t] by (auto simp: extend_pool_def validate_safe key_names simp del: map_map)
  show "ks \<noteq> [] \<Longrightarrow> \<exists>s'. shrink R A (Some ks) s = Done () s' \<and> rep A (view s') (spec_shrink ks p)"
    using shrink_script_sim [OF assms, of ks] by (simp add: shrink_def)
  show "set ks \<inter> jammed p = {} \<Longrightarrow> ks \<noteq> [] \<Longrightarrow> \<exists>s'. free_keys R A ks t s = Done () s' \<and> rep A (view s') (spec_free t ks p)"
    using free_script_sim [OF assms, of ks "expiry_of p t"] by (simp add: free_keys_def rep_reads(6) [OF assms] spec_free_def)
  show "shared A \<or> 0 < py_int (to_seconds far timeout) \<or> usable_bind (case name of None \<Rightarrow> '''' | Some n \<Rightarrow> n) p = None \<Longrightarrow>
      \<exists>s'. malloc_key R A far timeout name cache_timeout s = Done (fst (spec_malloc (shared A) (py_int (to_seconds far timeout))
          (case name of None \<Rightarrow> '''' | Some n \<Rightarrow> n) (py_int (to_seconds far cache_timeout)) p)) s' \<and>
        rep A (view s') (snd (spec_malloc (shared A) (py_int (to_seconds far timeout))
          (case name of None \<Rightarrow> '''' | Some n \<Rightarrow> n) (py_int (to_seconds far cache_timeout)) p))"
    unfolding malloc_key_def Let_def by (rule malloc_script_sim [OF assms])
qed

lemma extend_refine:
  assumes "rep (A :: 'a config_scheme) (view s) p" and "\<forall>k\<in>set ks. safe_key k" and "ks \<noteq> []"
  shows "\<exists>s'. extend_pool R A (Some (map PyStr ks)) timeout s = Done () s' \<and>
    rep A (view s') (spec_extend (case timeout of None \<Rightarrow> -1 | Some t \<Rightarrow> t) ks p)"
proof -
  have "extend_pool R A (Some (map PyStr ks)) timeout s =
    extend_pool R A (Some (map PyStr ks)) (Some (case timeout of None \<Rightarrow> -1 | Some t \<Rightarrow> t)) s"
    by (simp add: extend_pool_def cong: option.case_cong)
  with operations_refine(1) [OF assms] show ?thesis by simp
qed

lemma unnamed_malloc:
  assumes "rep A (view s) p"
  shows "\<exists>s'. malloc_key R A far timeout None cache_timeout s =
      Done (find (\<lambda>k. \<not> (is_expired R (pool_get R A k s) s \<or> is_locked R A k s)) (get_free_list R A s)) s' \<and> good view A s' \<and>
    rep A (view s') (snd (spec_malloc_pop (shared A) (py_int (to_seconds far timeout)) ''''  (py_int (to_seconds far cache_timeout)) p)) \<and>
    get_free_list R A s' = (case dropWhile (\<lambda>k. is_expired R (pool_get R A k s) s \<or> is_locked R A k s) (get_free_list R A s) of
      [] \<Rightarrow> [] | k # ks \<Rightarrow> if shared A then ks @ [k] else ks)"
proof -
  let ?t = "py_int (to_seconds far timeout)" and ?c = "py_int (to_seconds far cache_timeout)"
  have stale: "(\<lambda>k. is_expired R (pool_get R A k s) s \<or> is_locked R A k s) = (\<lambda>k. \<not> available p k)"
    using observe_stale [OF assms] by (auto simp: fun_eq_iff)
  then have avail: "(\<lambda>k. \<not> (is_expired R (pool_get R A k s) s \<or> is_locked R A k s)) = available p"
    by (auto simp: fun_eq_iff dest: fun_cong)
  have pop: "spec_malloc (shared A) ?t '''' ?c p = spec_malloc_pop (shared A) ?t '''' ?c p"
    by (simp add: spec_malloc_def usable_bind_def)
  from operations_refine(4) [OF assms, of far timeout None cache_timeout] obtain s' where
    s': "malloc_key R A far timeout None cache_timeout s = Done (fst (spec_malloc_pop (shared A) ?t '''' ?c p)) s'"
      "rep A (view s') (snd (spec_malloc_pop (shared A) ?t '''' ?c p))"
    by (auto simp: pop usable_bind_def)
  with malloc_pop_free [of "shared A" ?t "''''" ?c p] show ?thesis
    unfolding observe(1) [OF assms] avail stale by (simp add: good_state observe(1) [OF s'(2)])
qed

end

context redis_server
begin

lemma free_observed:
  assumes "good view (A :: 'a config_scheme) s" and ok: "\<forall>k\<in>set ks. \<not> is_jammed R A k s"
  shows "\<exists>s'. free_keys R A ks t s = Done () s' \<and> good view A s' \<and> set (pool_keys R A s') = set (pool_keys R A s) \<and>
    get_free_list R A s' = get_free_list R A s @ new_keys {k. \<not> (is_locked R A k s \<and> contains R A k s)} ks \<and>
    (\<forall>k. is_locked R A k s' \<longleftrightarrow> is_locked R A k s \<and> k \<notin> set ks)"
proof (cases "ks = []")
  case False
  from assms(1) obtain p where p: "rep A (view s) p" "wf_pool p" by (rule good_rep)
  have "set ks \<inter> jammed p = {}" using ok by (auto simp: is_jammed_iff [OF p(1)])
  from operations_refine(3) [OF p(1) this False, of t] obtain s' where
    s': "free_keys R A ks t s = Done () s'" "rep A (view s') (spec_free t ks p)" by blast
  have sel: "free (fold (spec_free_one e) ks q) = free q @ new_keys {k. \<not> (alock q k \<noteq> None \<and> k \<in> dom (members q))} ks \<and>
      dom (members (fold (spec_free_one e) ks q)) = dom (members q) \<and>
      (\<forall>k. alock (fold (spec_free_one e) ks q) k \<noteq> None \<longleftrightarrow> alock q k \<noteq> None \<and> k \<notin> set ks)" for e q ks
  proof (induction ks arbitrary: q)
    case (Cons k ks)
    have "{j. \<not> (alock (spec_free_one e k q) j \<noteq> None \<and> j \<in> dom (members (spec_free_one e k q)))} =
        insert k {j. \<not> (alock q j \<noteq> None \<and> j \<in> dom (members q))}"
      by (auto simp: free_one_sel)
    with Cons.IH [of "spec_free_one e k q"] show ?case
      by (auto simp: free_one_sel insert_absorb)
  qed simp
  from s' sel [of "expiry_of p t" ks p] good_state [OF s'(2)] show ?thesis
    by (auto simp: observe [OF p(1)] observe [OF s'(2)] spec_free_def)
qed (use assms in \<open>simp add: free_keys_def\<close>)

lemma malloc_then_free:
  assumes "good view A s" and "\<not> shared A"
    and "malloc_key R A far timeout None cache_timeout s = Done (Some k) s1"
  shows "\<exists>before after s2. get_free_list R A s = before @ k # after \<and>
    (\<forall>j\<in>set before. is_expired R (pool_get R A j s) s \<or> is_locked R A j s) \<and>
    \<not> is_expired R (pool_get R A k s) s \<and> \<not> is_locked R A k s \<and>
    free_keys R A [k] t s1 = Done () s2 \<and> get_free_list R A s2 = after @ [k] \<and>
    set (pool_keys R A s2) = set (pool_keys R A s) - {j \<in> set before. is_expired R (pool_get R A j s) s} \<and>
    (\<forall>j. is_locked R A j s2 \<longleftrightarrow> is_locked R A j s)"
proof -
  from assms(1) obtain p where p: "rep A (view s) p" "wf_pool p" by (rule good_rep)
  let ?t = "py_int (to_seconds far timeout)"
  let ?q = "snd (spec_malloc_pop (shared A) ?t '''' (py_int (to_seconds far cache_timeout)) p)"
  from unnamed_malloc [OF p(1), of far timeout cache_timeout] assms(3) have
    find: "find (\<lambda>k. \<not> (is_expired R (pool_get R A k s) s \<or> is_locked R A k s)) (get_free_list R A s) = Some k"
    and s1: "good view A s1" "rep A (view s1) ?q" by auto
  have "(\<lambda>k. \<not> (is_expired R (pool_get R A k s) s \<or> is_locked R A k s)) = available p"
    using observe_stale [OF p(1)] by (auto simp: fun_eq_iff)
  with find have found: "find (available p) (free p) = Some k" by (simp only: observe(1) [OF p(1)])
  then obtain after where dw: "dropWhile (\<lambda>j. \<not> available p j) (free p) = k # after"
    by (auto simp: find_dropWhile split: list.splits)
  define before where "before = takeWhile (\<lambda>j. \<not> available p j) (free p)"
  have fl: "free p = before @ k # after" unfolding before_def using dw by (metis takeWhile_dropWhile_id)
  have stale: "\<forall>j\<in>set before. \<not> available p j" by (auto simp: before_def dest: set_takeWhileD)
  have "find (available p) xs = Some k \<Longrightarrow> available p k" for xs by (induction xs) (auto split: if_splits)
  with found have av: "available p k" by blast
  have "distinct (before @ k # after)" using wf_poolD(1) [OF p(2)] fl by simp
  then have k: "k \<notin> set before" "k \<notin> set after" by auto
  have dom: "k \<in> dom (members p)" by (rule wf_poolD(2) [OF p(2)]) (simp add: fl)
  have q: "free ?q = after" "members ?q = (\<lambda>j. if j \<in> set before \<and> expired p j then None else members p j)"
    "alock ?q = (alock p)(k \<mapsto> (''1'', until p ?t))"
    using assms(2) malloc_pop_free(2) [of "shared A" ?t "''''" _ p]
    by (simp_all add: dw spec_malloc_pop_def spec_pop_def Let_def bind_name_def before_def drop_stale_def spec_take_def)
  have rest: "get_free_list R A s1 = after" by (simp add: observe(1) [OF s1(2)] q)
  have keys: "set (pool_keys R A s1) = set (pool_keys R A s) - {j \<in> set before. expired p j}"
    unfolding observe(2) [OF p(1)] observe(2) [OF s1(2)] q(2) by (auto split: if_splits)
  have locks: "is_locked R A j s1 \<longleftrightarrow> is_locked R A j s \<or> j = k" for j
    by (simp only: observe(4) [OF p(1)] observe(4) [OF s1(2)]) (simp add: q)
  have "contains R A k s1" unfolding observe(3) [OF s1(2)] q(2) using dom k(1) by auto
  with locks have new: "new_keys {k. \<not> (is_locked R A k s1 \<and> contains R A k s1)} [k] = [k]" by simp
  have unlocked: "\<not> is_locked R A k s" using av by (simp add: observe_stale [OF p(1)])
  have "\<forall>j\<in>set [k]. \<not> is_jammed R A j s1" using k(2) rest by (simp add: is_jammed_def)
  from free_observed [OF s1(1) this, of t] new rest obtain s2 where
    s2: "free_keys R A [k] t s1 = Done () s2" "set (pool_keys R A s2) = set (pool_keys R A s1)"
      "get_free_list R A s2 = after @ [k]" "\<forall>j. is_locked R A j s2 \<longleftrightarrow> is_locked R A j s1 \<and> j \<notin> set [k]" by auto
  have "\<forall>j. is_locked R A j s2 \<longleftrightarrow> is_locked R A j s" using s2(4) locks unlocked by auto
  moreover have "\<forall>j\<in>set before. is_expired R (pool_get R A j s) s \<or> is_locked R A j s"
    "\<not> is_expired R (pool_get R A k s) s"
    using stale av by (simp_all add: observe_stale [OF p(1)])
  moreover have "set (pool_keys R A s2) = set (pool_keys R A s) - {j \<in> set before. is_expired R (pool_get R A j s) s}"
    by (simp add: s2(2) keys observe_expired [OF p(1)])
  moreover have "get_free_list R A s = before @ k # after" by (simp add: observe(1) [OF p(1)] fl)
  ultimately show ?thesis using s2(1,3) unlocked by blast
qed

lemma extend_observed:
  assumes "good view (A :: 'a config_scheme) s" and "\<forall>k\<in>set ks. safe_key k"
  shows "\<exists>s'. extend_pool R A (Some (map PyStr ks)) timeout s = Done () s' \<and> good view A s' \<and>
    set (pool_keys R A s') = set (pool_keys R A s) \<union> set ks \<and>
    get_free_list R A s' = get_free_list R A s @ new_keys (set (pool_keys R A s)) ks \<and>
    (\<forall>k. is_locked R A k s' \<longleftrightarrow> is_locked R A k s \<and> \<not> (k \<in> set ks \<and> k \<notin> set (pool_keys R A s)))"
proof (cases "ks = []")
  case False
  from assms(1) obtain p where p: "rep A (view s) p" "wf_pool p" by (rule good_rep)
  from extend_refine [OF p(1) assms(2) False, of timeout] obtain s' where
    "extend_pool R A (Some (map PyStr ks)) timeout s = Done () s'"
    and s': "rep A (view s') (spec_extend (case timeout of None \<Rightarrow> -1 | Some t \<Rightarrow> t) ks p)" by blast
  then show ?thesis
    using good_state [OF s']
    by (simp add: observe [OF p(1)] observe [OF s'] dom_spec_extend extend_free extend_locks del: not_None_eq)
qed (use assms in \<open>simp add: extend_pool_def\<close>)

lemma shrink_observed:
  assumes "good view (A :: 'a config_scheme) s"
  shows "\<exists>s'. shrink R A (Some ks) s = Done () s' \<and> good view A s' \<and>
    set (pool_keys R A s') = set (pool_keys R A s) - set ks \<and>
    get_free_list R A s' = filter (\<lambda>k. k \<notin> set ks) (get_free_list R A s) \<and>
    (\<forall>k. is_locked R A k s' \<longleftrightarrow> is_locked R A k s)"
proof (cases "ks = []")
  case False
  from assms(1) obtain p where p: "rep A (view s) p" "wf_pool p" by (rule good_rep)
  note wf = p(2)
  from operations_refine(2) [OF p(1) False] obtain s' where
    "shrink R A (Some ks) s = Done () s'" and s': "rep A (view s') (spec_shrink ks p)" by blast
  then show ?thesis
    using good_state [OF s']
    by (simp add: observe [OF p(1)] observe [OF s'] dom_spec_shrink wf shrink_free lock_kept)
qed (use assms in \<open>simp add: shrink_def\<close>)

lemma assign_observed:
  assumes "good view (A :: 'a config_scheme) s" and "table_order pairs" and "\<forall>k\<in>set ks. safe_key k"
  shows "\<exists>new s'. assign R A pairs (Some (map PyStr ks)) t s = Done () s' \<and> good view A s' \<and>
    set (pool_keys R A s') = set ks \<and> distinct new \<and> set new = set ks - set (pool_keys R A s) \<and>
    get_free_list R A s' = filter (\<lambda>k. k \<in> set ks) (get_free_list R A s) @ new \<and>
    (\<forall>k. is_locked R A k s' \<longleftrightarrow> is_locked R A k s \<and> k \<notin> set new)"
proof (cases "ks = []")
  case True
  from assms(1) obtain p where p: "rep A (view s) p" by (rule good_rep)
  from operations_refine(5) [OF p] obtain s' where
    s': "clear R A s = Done () s'" "rep A (view s') (spec_clear p)" by blast
  have "spec_clear p = p\<lparr>free := [], members := Map.empty\<rparr>" by (simp add: spec_clear_def)
  with s' good_state [OF s'(2)] True show ?thesis
    by (intro exI [of _ "[]"] exI [of _ s']) (simp add: assign_def observe [OF p] observe [OF s'(2)] del: not_None_eq)
next
  case False
  from assms(1) obtain p where p: "rep A (view s) p" "wf_pool p" by (rule good_rep)
  from assign_script_sim [OF p(1) assms(3,2), of t] obtain new s' where
    run: "assign_script R A pairs t ks s = Done () s'" and s': "rep A (view s') (spec_assign t (set ks) new p)"
    and new: "distinct new" "set new = set ks - dom (members p)" by blast
  from good_state [OF s'] run new assms(3) False show ?thesis
    by (intro exI [of _ new] exI [of _ s'])
      (simp add: assign_def validate_safe key_names observe [OF p(1)] observe [OF s'] dom_spec_assign assign_free assign_locks del: map_map not_None_eq)
qed

lemma gc_observed:
  assumes "good view A s" and "0 < n" and scan: "r_hscan R (pool_str A) (get_cursor R A s) n s = (c, kvs)"
    and all: "distinct (map fst kvs)" "set (map fst kvs) = set (pool_keys R A s)"
  shows "\<exists>s'. gc R A n s = Done () s' \<and> good view A s' \<and>
    set (pool_keys R A s') = {k \<in> set (pool_keys R A s). \<not> is_expired R (pool_get R A k s) s} \<and>
    (\<forall>k\<in>set (pool_keys R A s'). k \<in> set (get_free_list R A s') \<longleftrightarrow> \<not> is_locked R A k s') \<and>
    (\<forall>k. is_locked R A k s' \<longleftrightarrow> is_locked R A k s)"
proof -
  from assms(1) obtain p where p: "rep A (view s) p" "wf_pool p" by (rule good_rep)
  note wf = p(2)
  let ?q = "spec_gc (map fst kvs) p"
  from gc_script_sim [OF p(1) scan all(1)] obtain s' where
    run: "gc_script R A n s = Done () s'" and s': "rep A (view s') ?q" by blast
  have ks: "set (map fst kvs) = dom (members p)" using all(2) by (simp only: observe(2) [OF p(1)])
  from gc_reconciles [OF wf all(1)] ks have q: "wf_pool ?q" "alock ?q = alock p"
    "\<And>k. members ?q k = (if k \<in> dom (members p) \<and> expired p k then None else members p k)"
    "\<And>k. k \<in> set (free ?q) \<longleftrightarrow> (if k \<in> dom (members p) then \<not> expired p k \<and> alock p k = None else k \<in> set (free p))"
    by simp_all
  have dom: "dom (members ?q) = {k \<in> dom (members p). \<not> expired p k}"
    using q(3) by (auto simp: dom_def split: if_splits)
  from good_state [OF s'] run assms(2) dom q(2,4) show ?thesis
    by (intro exI [of _ s']) (simp add: gc_def observe [OF p(1)] observe [OF s'] observe_expired [OF p(1)] del: not_None_eq)
qed

end

section \<open>Soft bindings and errors\<close>

context redis_server
begin

lemma observe_usable:
  assumes "rep A (view s) p" and "n \<noteq> ''''"
  shows "usable_bind n p = Some k \<longleftrightarrow>
    get_soft_bind R A n s = Some k \<and> contains R A k s \<and> \<not> is_locked R A k s"
  using assms(2) by (auto simp: usable_bind_def observe [OF assms(1)] split: option.split)

text \<open>The bound branch of \<open>malloc\<close>: the key is handed out again, or the lock command fails.\<close>

lemma malloc_bound_observed:
  assumes "good view A s" and "n \<noteq> ''''" and bound: "get_soft_bind R A n s = Some k" "contains R A k s" "\<not> is_locked R A k s"
  shows "shared A \<or> 0 < py_int (to_seconds far timeout) \<Longrightarrow>
      \<exists>s'. malloc_key R A far timeout (Some n) cache_timeout s = Done (Some k) s' \<and> good view A s' \<and>
        get_soft_bind R A n s' = Some k \<and>
        get_free_list R A s' = (if shared A then get_free_list R A s else remove1 k (get_free_list R A s)) \<and>
        (is_locked R A k s' \<longleftrightarrow> \<not> shared A)"
    and "\<not> shared A \<Longrightarrow> py_int (to_seconds far timeout) \<le> 0 \<Longrightarrow>
      \<exists>s'. malloc_key R A far timeout (Some n) cache_timeout s = Abort (RedisError ''invalid expire time'') s' \<and> good view A s' \<and>
        get_free_list R A s' = remove1 k (get_free_list R A s) \<and> contains R A k s' \<and> \<not> is_locked R A k s'"
proof -
  from assms(1) obtain p where p: "rep A (view s) p" "wf_pool p" by (rule good_rep)
  let ?t = "py_int (to_seconds far timeout)" and ?c = "py_int (to_seconds far cache_timeout)"
  from bound observe_usable [OF p(1) assms(2)] have k: "usable_bind n p = Some k" by blast
  then have mem: "k \<in> dom (members p)" and unlocked: "alock p k = None"
    by (auto simp: usable_bind_def split: if_splits option.splits)
  have run: "malloc_key R A far timeout (Some n) cache_timeout s = malloc_bound R A ?t n ?c k s"
    by (simp add: malloc_key_def bound_branch(1) [OF p(1) assms(2) k])
  let ?b = "bind_name n ?c k p"
  have b: "abind ?b n = Some (k, until p ?c)" using assms(2) by (simp add: bind_name_def)
  show "shared A \<or> 0 < ?t \<Longrightarrow> \<exists>s'. malloc_key R A far timeout (Some n) cache_timeout s = Done (Some k) s' \<and> good view A s' \<and>
        get_soft_bind R A n s' = Some k \<and>
        get_free_list R A s' = (if shared A then get_free_list R A s else remove1 k (get_free_list R A s)) \<and>
        (is_locked R A k s' \<longleftrightarrow> \<not> shared A)"
  proof (cases "shared A")
    case True
    from malloc_bound_sim(1) [OF p(1) mem True, of ?t n ?c] obtain s' where
      s': "malloc_bound R A ?t n ?c k s = Done (Some k) s'" "rep A (view s') ?b" by blast
    with True b unlocked good_state [OF s'(2)] show ?thesis
      by (simp add: run observe [OF p(1)] observe [OF s'(2)])
  next
    case False
    assume "shared A \<or> 0 < ?t"
    with False malloc_bound_sim(2) [OF p(1) mem False, of ?t n ?c] obtain s' where
      s': "malloc_bound R A ?t n ?c k s = Done (Some k) s'"
      "rep A (view s') (set_lock k (''1'', until p ?t) (spec_take k ?b))" by blast
    with False b good_state [OF s'(2)] show ?thesis
      by (simp add: run observe [OF p(1)] observe [OF s'(2)])
  qed
  show "\<exists>s'. malloc_key R A far timeout (Some n) cache_timeout s = Abort (RedisError ''invalid expire time'') s' \<and> good view A s' \<and>
        get_free_list R A s' = remove1 k (get_free_list R A s) \<and> contains R A k s' \<and> \<not> is_locked R A k s'"
    if excl: "\<not> shared A" and t: "?t \<le> 0"
  proof -
    from malloc_bound_sim(3) [OF p(1) mem excl t, of n ?c] obtain s' where
      s': "malloc_bound R A ?t n ?c k s = Abort (RedisError ''invalid expire time'') s'" "rep A (view s') (spec_take k ?b)" by blast
    with mem unlocked good_state [OF s'(2)] show ?thesis
      by (simp add: run observe [OF p(1)] observe [OF s'(2)] domIff)
  qed
qed

text \<open>The only error of \<open>malloc\<close> on a well-formed pool.\<close>

lemma malloc_error_cases:
  assumes "good view A s" and "malloc_key R A far timeout name cache_timeout s = Abort e s'"
  shows "e = RedisError ''invalid expire time'' \<and> \<not> shared A \<and> py_int (to_seconds far timeout) \<le> 0 \<and> good view A s' \<and>
    (\<exists>n k. name = Some n \<and> n \<noteq> '''' \<and> get_soft_bind R A n s = Some k \<and> contains R A k s \<and> \<not> is_locked R A k s)"
proof -
  from assms(1) obtain p where p: "rep A (view s) p" "wf_pool p" by (rule good_rep)
  let ?t = "py_int (to_seconds far timeout)" and ?n = "case name of None \<Rightarrow> '''' | Some n \<Rightarrow> n"
  from operations_refine(4) [OF p(1), of far timeout name cache_timeout] assms(2)
  have bad: "\<not> (shared A \<or> 0 < ?t \<or> usable_bind ?n p = None)" by auto
  then obtain k where k: "usable_bind ?n p = Some k" by auto
  then obtain n where n: "name = Some n" "n \<noteq> ''''"
    by (auto simp: usable_bind_def split: option.splits if_splits)
  with k observe_usable [OF p(1) n(2), of k] have
    bound: "get_soft_bind R A n s = Some k" "contains R A k s" "\<not> is_locked R A k s" by auto
  from malloc_bound_observed(2) [OF assms(1) n(2) bound, of far timeout cache_timeout] bad assms(2) n bound show ?thesis by auto
qed

text \<open>The Python methods for soft bindings write under another name than the one they read.\<close>

lemma soft_bind_methods:
  assumes "good view A s" and "ex_ok ex"
  shows "\<exists>s'. update_soft_bind R A n k ex s = Done () s' \<and> (\<forall>m. get_soft_bind R A m s' = get_soft_bind R A m s)"
    and "\<exists>b s'. unbind_soft_bind R A n s = Done b s' \<and> (\<forall>m. get_soft_bind R A m s' = get_soft_bind R A m s)"
proof -
  from assms(1) obtain p where p: "rep A (view s) p" "wf_pool p" by (rule good_rep)
  let ?n = "py_soft_bind_name A n"
  from update_effect [OF assms(2), of A ?n k s] obtain s' where
    s': "lock_update R A ?n k ex s = Done () s'" "view s' = put_lock A ?n k ex (view s)" by blast
  then have "rep A (view s') (set_lock ?n (k, deadline (view s) ex) p)"
    using rep_put(1) [OF p(1), of ?n k ex] by (simp add: put_lock_def)
  from observe(6) [OF this] s'(1) show "\<exists>s'. update_soft_bind R A n k ex s = Done () s' \<and>
      (\<forall>m. get_soft_bind R A m s' = get_soft_bind R A m s)"
    by (simp add: update_soft_bind_def observe(6) [OF p(1)])
  from unlock_effect [OF rep_lock_ok [OF p(1)], of ?n] obtain s' where
    s': "unlock R A ?n s = Done (holder A (view s) ?n \<noteq> None) s'" "view s' = erase (key_str A ?n) (view s)" by blast
  then have "rep A (view s') (drop_lock ?n p)" using rep_put(4) [OF p(1), of ?n] by simp
  from observe(6) [OF this] s'(1) show "\<exists>b s'. unbind_soft_bind R A n s = Done b s' \<and>
      (\<forall>m. get_soft_bind R A m s' = get_soft_bind R A m s)"
    by (simp add: unbind_soft_bind_def observe(6) [OF p(1)])
qed

text \<open>Exclusive allocation: the lock of the returned key survives every calm trace until its deadline.\<close>

lemma malloc_key_locks:
  assumes "good view A s" and "\<not> shared A" and "malloc_key R A far timeout name cache_timeout s = Done (Some k) s1"
  shows "\<exists>p q. rep A (view s) p \<and> rep A (view s1) q \<and>
    secured q k (''1'', until p (py_int (to_seconds far timeout)))"
proof -
  from assms(1) obtain p where p: "rep A (view s) p" by (rule good_rep)
  have "malloc_script R A (py_int (to_seconds far timeout)) (case name of None \<Rightarrow> '''' | Some n \<Rightarrow> n)
      (py_int (to_seconds far cache_timeout)) s = Done (Some k) s1"
    using assms(3) by (simp add: malloc_key_def)
  from malloc_result(3) [OF this p] p assms(2) show ?thesis by blast
qed

lemma exclusive_trace:
  assumes "good view A s" and "table_order pairs" and "\<not> shared A"
    and "malloc_key R A far timeout name cache_timeout s = Done (Some k) s1"
    and "calm_trace R view A far pairs k s1 es s2"
    and time: "py_int (to_seconds far timeout) \<le> 0 \<or>
      now_ms (view s2) < now_ms (view s) + 1000 * py_int (to_seconds far timeout)"
  shows "Allocated (Some k) \<notin> set es \<and> is_locked R A k s2 \<and> k \<notin> set (get_free_list R A s2)"
proof -
  from malloc_key_locks [OF assms(1,3,4)] obtain p q where p: "rep A (view s) p" and q: "rep A (view s1) q"
    "secured q k (''1'', until p (py_int (to_seconds far timeout)))" by blast
  have live: "in_time (view s2) (until p (py_int (to_seconds far timeout)))"
    using time rep_now [OF p] by (auto simp: in_time_def until_def)
  from q(2) have "alock q k = Some (''1'', until p (py_int (to_seconds far timeout)))" by (simp add: secured_def)
  from trace_lock_survives [OF assms(5) q(1) assms(2) this live] q(2) obtain q2 where
    "Allocated (Some k) \<notin> set es" "rep A (view s2) q2" "alock q2 k \<noteq> None" "k \<notin> set (free q2)"
    by (auto simp: secured_def)
  then show ?thesis by (simp add: observe(1,4))
qed

end

text \<open>Validation happens before anything is written.\<close>

lemma extend_refuses:
  assumes "validate_keys ks \<noteq> None"
  shows "extend_pool R A (Some ks) t s = Abort ValueError s" "assign R A pairs (Some ks) t' s = Abort ValueError s"
proof -
  from assms have "validate_keys ks = Some ValueError" using validate_keys_error by auto
  moreover from this have "ks \<noteq> []" by auto
  ultimately show "extend_pool R A (Some ks) t s = Abort ValueError s" "assign R A pairs (Some ks) t' s = Abort ValueError s"
    by (simp_all add: extend_pool_def assign_def)
qed

end
