(* ===== verification/Mem_Redis.thy ===== *)
theory Mem_Redis
  imports Redis_API "HOL-Library.AList"
begin

text \<open>
  An in-memory server with every command of \<open>Redis_API\<close>, over association lists. It shows that the
  laws of \<open>redis_server\<close> can be met, and it is the concrete server on which the witnesses and the
  counterexamples of the development run.
\<close>

datatype mobj = MStr string "int option" | MHash "(string \<times> string) list" | MSet "string list" | MList "string list"

record mem =
  m_now :: int
  m_objs :: "(string \<times> mobj) list"

definition m_obj :: "mem \<Rightarrow> string \<Rightarrow> mobj option" where
  "m_obj m k = map_of (m_objs m) k"

definition m_put :: "string \<Rightarrow> mobj \<Rightarrow> mem \<Rightarrow> mem" where
  "m_put k x m = m\<lparr>m_objs := AList.update k x (m_objs m)\<rparr>"

definition m_str :: "mem \<Rightarrow> string \<Rightarrow> (string \<times> int option) option" where
  "m_str m k = (case m_obj m k of Some (MStr v d) \<Rightarrow> if live (m_now m) (v, d) then Some (v, d) else None
     | _ \<Rightarrow> None)"

definition m_hash :: "mem \<Rightarrow> string \<Rightarrow> (string \<times> string) list" where
  "m_hash m k = (case m_obj m k of Some (MHash h) \<Rightarrow> h | _ \<Rightarrow> [])"

definition m_set :: "mem \<Rightarrow> string \<Rightarrow> string list" where
  "m_set m k = (case m_obj m k of Some (MSet xs) \<Rightarrow> xs | _ \<Rightarrow> [])"

definition m_list :: "mem \<Rightarrow> string \<Rightarrow> string list" where
  "m_list m k = (case m_obj m k of Some (MList xs) \<Rightarrow> xs | _ \<Rightarrow> [])"

definition mem_view :: "mem \<Rightarrow> keyspace" where
  "mem_view m = \<lparr>now_ms = m_now m, strs = m_str m, hashes = (\<lambda>k. map_of (m_hash m k)),
     rsets = (\<lambda>k. set (m_set m k)), rlists = m_list m\<rparr>"

definition m_present :: "mem \<Rightarrow> string \<Rightarrow> bool" where
  "m_present m k = (m_str m k \<noteq> None \<or> m_hash m k \<noteq> [] \<or> m_set m k \<noteq> [] \<or> m_list m k \<noteq> [])"

definition m_deadline :: "mem \<Rightarrow> int option \<Rightarrow> int option" where
  "m_deadline m ex = map_option (\<lambda>n. m_now m + 1000 * n) ex"

definition m_setnx :: "string \<Rightarrow> string \<Rightarrow> int option \<Rightarrow> mem \<Rightarrow> (bool \<times> mem) option" where
  "m_setnx k v ex m = (if \<not> ex_ok ex then None
     else if m_present m k then Some (False, m)
     else Some (True, m_put k (MStr v (m_deadline m ex)) m))"

definition m_setnxget :: "string \<Rightarrow> string \<Rightarrow> int option \<Rightarrow> mem \<Rightarrow> (string option \<times> mem) option" where
  "m_setnxget k v ex m = (if \<not> ex_ok ex then None
     else if m_present m k then Some (map_option fst (m_str m k), m)
     else Some (None, m_put k (MStr v (m_deadline m ex)) m))"

definition m_ttl :: "string \<Rightarrow> mem \<Rightarrow> int" where
  "m_ttl k m = (case m_str m k of None \<Rightarrow> (if m_present m k then -1 else -2)
     | Some (v, None) \<Rightarrow> -1 | Some (v, Some d) \<Rightarrow> (d - m_now m) div 1000)"

definition m_blpop :: "string list \<Rightarrow> mem \<Rightarrow> (string \<times> string) option \<times> mem" where
  "m_blpop ks m = (case find (\<lambda>k. m_list m k \<noteq> []) ks of
     None \<Rightarrow> (None, m)
   | Some k \<Rightarrow> (Some (k, hd (m_list m k)), m_put k (MList (tl (m_list m k))) m))"

definition mem_redis :: "mem redis" where
  "mem_redis = \<lparr>
     r_time = (\<lambda>m. m_now m div 1000),
     r_get = (\<lambda>k m. map_option fst (m_str m k)),
     r_mget = (\<lambda>ks m. map (\<lambda>k. map_option fst (m_str m k)) ks),
     r_set = (\<lambda>k v m. m_put k (MStr v None) m),
     r_setex = (\<lambda>k v n m. if 0 < n then Some (m_put k (MStr v (m_deadline m (Some n))) m) else None),
     r_setnx = m_setnx,
     r_setnxget = m_setnxget,
     r_del = (\<lambda>k m. (m_present m k, m\<lparr>m_objs := AList.delete k (m_objs m)\<rparr>)),
     r_exists = (\<lambda>k m. m_present m k),
     r_ttl = m_ttl,
     r_hget = (\<lambda>k f m. map_of (m_hash m k) f),
     r_hset = (\<lambda>k f v m. m_put k (MHash (AList.update f v (m_hash m k))) m),
     r_hdel = (\<lambda>k f m. m_put k (MHash (AList.delete f (m_hash m k))) m),
     r_hexists = (\<lambda>k f m. map_of (m_hash m k) f \<noteq> None),
     r_hlen = (\<lambda>k m. length (remdups (map fst (m_hash m k)))),
     r_hkeys = (\<lambda>k m. remdups (map fst (m_hash m k))),
     r_hscan = (\<lambda>k c n m. (''0'', AList.clearjunk (m_hash m k))),
     r_hgetall = (\<lambda>k m. AList.clearjunk (m_hash m k)),
     r_sadd = (\<lambda>k vs m. m_put k (MSet (m_set m k @ vs)) m),
     r_srem = (\<lambda>k vs m. m_put k (MSet (filter (\<lambda>v. v \<notin> set vs) (m_set m k))) m),
     r_smembers = (\<lambda>k m. remdups (m_set m k)),
     r_sismember = (\<lambda>k v m. v \<in> set (m_set m k)),
     r_getdel = (\<lambda>k m. (map_option fst (m_str m k), m\<lparr>m_objs := AList.delete k (m_objs m)\<rparr>)),
     r_rpush = (\<lambda>k v m. m_put k (MList (m_list m k @ [v])) m),
     r_blpop = m_blpop\<rparr>"

text \<open>Time passes in the in-memory server.\<close>

definition mem_elapse :: "int \<Rightarrow> mem \<Rightarrow> mem" where
  "mem_elapse d m = m\<lparr>m_now := m_now m + d\<rparr>"

lemma map_of_empty_iff: "map_of xs = Map.empty \<longleftrightarrow> xs = []"
  by (cases xs) (auto simp: fun_eq_iff)

lemma m_present_view: "m_present m k = present (mem_view m) k"
  by (auto simp: m_present_def present_def mem_view_def map_of_empty_iff)

lemma m_obj_put: "m_obj (m_put k x m) k' = (if k' = k then Some x else m_obj m k')"
  by (simp add: m_obj_def m_put_def update_conv')

lemma m_now_put [simp]: "m_now (m_put k x m) = m_now m"
  by (simp add: m_put_def)

lemma m_put_sel:
  "m_str (m_put k x m) j = (if j = k
     then (case x of MStr v d \<Rightarrow> if live (m_now m) (v, d) then Some (v, d) else None | _ \<Rightarrow> None)
     else m_str m j)"
  "m_hash (m_put k x m) j = (if j = k then (case x of MHash h \<Rightarrow> h | _ \<Rightarrow> []) else m_hash m j)"
  "m_set (m_put k x m) j = (if j = k then (case x of MSet xs \<Rightarrow> xs | _ \<Rightarrow> []) else m_set m j)"
  "m_list (m_put k x m) j = (if j = k then (case x of MList xs \<Rightarrow> xs | _ \<Rightarrow> []) else m_list m j)"
  by (simp_all add: m_str_def m_hash_def m_set_def m_list_def m_obj_put split: option.split mobj.split)

lemma m_del_sel:
  "m_str (m\<lparr>m_objs := AList.delete k (m_objs m)\<rparr>) j = (if j = k then None else m_str m j)"
  "m_hash (m\<lparr>m_objs := AList.delete k (m_objs m)\<rparr>) j = (if j = k then [] else m_hash m j)"
  "m_set (m\<lparr>m_objs := AList.delete k (m_objs m)\<rparr>) j = (if j = k then [] else m_set m j)"
  "m_list (m\<lparr>m_objs := AList.delete k (m_objs m)\<rparr>) j = (if j = k then [] else m_list m j)"
  by (simp_all add: m_str_def m_hash_def m_set_def m_list_def m_obj_def delete_conv' split: option.split mobj.split)

lemma view_sel [simp]:
  "now_ms (mem_view m) = m_now m" "strs (mem_view m) = m_str m"
  "hashes (mem_view m) k = map_of (m_hash m k)" "rsets (mem_view m) k = set (m_set m k)"
  "rlists (mem_view m) k = m_list m k"
  by (simp_all add: mem_view_def)

lemma view_eqI:
  assumes "m_now m = now_ms V" and "\<And>k. m_str m k = strs V k"
    and "\<And>k. map_of (m_hash m k) = hashes V k" and "\<And>k. set (m_set m k) = rsets V k"
    and "\<And>k. m_list m k = rlists V k"
  shows "mem_view m = V"
  using assms by (simp add: mem_view_def fun_eq_iff)

lemma view_put_str_ex:
  "ex_ok ex \<Longrightarrow> mem_view (m_put k (MStr v (m_deadline m ex)) m) = put_str k v ex (mem_view m)"
  by (cases ex; rule view_eqI)
    (auto simp: redis_simps m_put_sel live_def m_deadline_def deadline_def)

lemma view_put_hash:
  "hash_key (mem_view m) k \<Longrightarrow> mem_view (m_put k (MHash h) m) = put_hash k (map_of h) (mem_view m)"
  by (rule view_eqI) (auto simp: redis_simps m_put_sel hash_key_def)

lemma view_put_set:
  "set_key (mem_view m) k \<Longrightarrow> mem_view (m_put k (MSet xs) m) = put_set k (set xs) (mem_view m)"
  by (rule view_eqI) (auto simp: redis_simps m_put_sel set_key_def)

lemma view_put_list:
  "list_key (mem_view m) k \<Longrightarrow> mem_view (m_put k (MList xs) m) = put_list k xs (mem_view m)"
  by (rule view_eqI) (auto simp: redis_simps m_put_sel list_key_def map_of_empty_iff)

lemma view_del: "mem_view (m\<lparr>m_objs := AList.delete k (m_objs m)\<rparr>) = erase k (mem_view m)"
  by (rule view_eqI) (auto simp: redis_simps m_del_sel)

lemma view_elapse: "0 \<le> d \<Longrightarrow> mem_view (mem_elapse d m) = elapse d (mem_view m)"
  by (rule view_eqI) (auto simp: redis_simps mem_elapse_def m_str_def m_hash_def m_set_def m_list_def m_obj_def
      live_def split: option.splits mobj.splits)

lemma m_str_live: "m_str m k = Some e \<Longrightarrow> live (m_now m) e"
  by (auto simp: m_str_def split: option.splits mobj.splits if_splits)

lemma clearjunk_lookup: "(f, v) \<in> set (AList.clearjunk h) \<Longrightarrow> map_of h f = Some v"
  by (metis distinct_clearjunk map_of_clearjunk map_of_is_SomeI)

lemma m_present_str: "m_str m k = Some e \<Longrightarrow> m_present m k"
  by (simp add: m_present_def)

lemma m_absent: "\<not> m_present m k \<Longrightarrow> m_str m k = None"
  using m_present_str by (cases "m_str m k") auto

lemma m_blpop_none: "\<forall>k\<in>set ks. m_list m k = [] \<Longrightarrow> m_blpop ks m = (None, m)"
  by (induction ks) (auto simp: m_blpop_def)

lemma m_blpop_some:
  assumes "\<forall>k\<in>set ks. list_key (mem_view m) k" and "find (\<lambda>k. m_list m k \<noteq> []) ks = Some k"
  shows "fst (m_blpop ks m) = Some (k, hd (m_list m k))"
    and "mem_view (snd (m_blpop ks m)) = put_list k (tl (m_list m k)) (mem_view m)"
proof -
  have "k \<in> set ks" using assms(2) by (auto simp: find_Some_iff)
  with assms show "fst (m_blpop ks m) = Some (k, hd (m_list m k))"
    "mem_view (snd (m_blpop ks m)) = put_list k (tl (m_list m k)) (mem_view m)"
    by (simp_all add: m_blpop_def view_put_list)
qed

lemmas mem_update_conv = update_conv' delete_conv'

interpretation mem: redis_server mem_redis mem_view
proof (unfold_locales, goal_cases)
  case (18 s k v d)
  then have "live (m_now s) (v, Some d)" using m_str_live by simp
  with 18 show ?case
    by (simp add: mem_redis_def m_ttl_def live_def pos_imp_zdiv_nonneg_iff)
qed (auto simp: mem_redis_def m_present_view [symmetric] view_put_str_ex [of None, unfolded m_deadline_def, simplified]
    view_put_str_ex view_put_hash view_put_set view_put_list m_blpop_none m_blpop_some view_del m_setnx_def m_setnxget_def m_ttl_def
    mem_update_conv dom_map_of_conv_image_fst finite_dom_map_of m_str_live
    length_remdups_card_conv clearjunk_lookup map_of_clearjunk m_present_str m_absent
    set_diff_eq)

end
