(* ===== verification/Policy.thy ===== *)
theory Policy
  imports Allocator_System "HOL-Library.AList"
begin

text \<open>
  \<open>RedisAllocatorObject\<close>, \<open>RedisAllocatorUpdater\<close> and \<open>DefaultRedisAllocatorPolicy\<close>: the Python layer
  over the scripts. The caller's classes are parameters: the methods of the wrapped object and the keys an
  updater fetches, or the exception it raises. So are the choices of the Python runtime: the permutation
  \<open>random.shuffle\<close> picks, the objects the garbage collector has not reclaimed yet, and the order in which a
  thread pool runs its tasks.
\<close>

section \<open>Allocated objects\<close>

text \<open>The methods of \<open>RedisAllocatableClass\<close> as the package calls them.\<close>

record ('o, 's) methods =
  m_name :: "'o \<Rightarrow> string option"
  m_unique_id :: "'o \<Rightarrow> string"
  m_set_config :: "'o \<Rightarrow> string \<Rightarrow> 's \<Rightarrow> (unit, 's) outcome"
  m_open :: "'o \<Rightarrow> 's \<Rightarrow> (unit, 's) outcome"
  m_close :: "'o \<Rightarrow> 's \<Rightarrow> (unit, 's) outcome"
  m_is_healthy :: "'o \<Rightarrow> 's \<Rightarrow> (bool, 's) outcome"

record 'o aobject =
  ao_key :: string
  ao_obj :: "'o option"
  ao_released :: bool

definition new_object :: "('o, 's) methods \<Rightarrow> string \<Rightarrow> 'o option \<Rightarrow> 's \<Rightarrow> ('o aobject, 's) outcome" where
  "new_object M key obj s =
     (let ao = \<lparr>ao_key = key, ao_obj = obj, ao_released = False\<rparr> in
      case obj of None \<Rightarrow> Done ao s | Some x \<Rightarrow> then_do (m_set_config M x key s) (\<lambda>_. Done ao))"

definition obj_open :: "('o, 's) methods \<Rightarrow> 'o aobject \<Rightarrow> 's \<Rightarrow> (unit, 's) outcome" where
  "obj_open M ao s = (case ao_obj ao of None \<Rightarrow> Done () s | Some x \<Rightarrow> m_open M x s)"

definition obj_close :: "('o, 's) methods \<Rightarrow> 'o aobject \<Rightarrow> 's \<Rightarrow> (unit, 's) outcome" where
  "obj_close M ao s = (case ao_obj ao of None \<Rightarrow> Done () s | Some x \<Rightarrow> m_close M x s)"

definition obj_update :: "'s redis \<Rightarrow> 'a lock_cfg_scheme \<Rightarrow> 'o aobject \<Rightarrow> int \<Rightarrow> 's \<Rightarrow> (unit, 's) outcome" where
  "obj_update R A ao timeout s =
     (if timeout > 0 then lock_update R A (ao_key ao) ''1'' (Some timeout) s
      else free_keys R A [ao_key ao] (-1) s)"

text \<open>\<open>try: close() finally: free()\<close>: the key is freed even when closing fails, and the failure is raised again.\<close>

definition obj_release :: "('o, 's) methods \<Rightarrow> 's redis \<Rightarrow> 'a lock_cfg_scheme \<Rightarrow> int \<Rightarrow> 'o aobject \<times> 's \<Rightarrow>
    (unit, 'o aobject \<times> 's) outcome" where
  "obj_release M R A timeout st =
     (case st of (ao, s) \<Rightarrow>
        if ao_released ao then Done () (ao, s)
        else
          (let closed = obj_close M ao s in
           case free_keys R A [ao_key ao] timeout (final_state closed) of
             Abort e s2 \<Rightarrow> Abort e (ao, s2)
           | Done _ s2 \<Rightarrow>
               (case closed of
                  Done _ _ \<Rightarrow> Done () (ao\<lparr>ao_released := True\<rparr>, s2)
                | Abort e _ \<Rightarrow> Abort e (ao\<lparr>ao_released := True\<rparr>, s2))))"

definition obj_is_healthy :: "('o, 's) methods \<Rightarrow> 'o aobject \<Rightarrow> 's \<Rightarrow> (bool, 's) outcome" where
  "obj_is_healthy M ao s = (case ao_obj ao of None \<Rightarrow> Done True s | Some x \<Rightarrow> m_is_healthy M x s)"

definition obj_name :: "('o, 's) methods \<Rightarrow> 'o aobject \<Rightarrow> string option" where
  "obj_name M ao = Option.bind (ao_obj ao) (m_name M)"

definition obj_unique_id :: "('o, 's) methods \<Rightarrow> 'o aobject \<Rightarrow> string" where
  "obj_unique_id M ao = (case ao_obj ao of None \<Rightarrow> ao_key ao | Some x \<Rightarrow> ao_key ao @ '':'' @ m_unique_id M x)"

definition set_healthy :: "('o, 's) methods \<Rightarrow> 's redis \<Rightarrow> 'a config_scheme \<Rightarrow> int option \<Rightarrow> 'o aobject \<Rightarrow> 's \<Rightarrow> (unit, 's) outcome" where
  "set_healthy M R A duration ao s =
     then_do
       (case obj_name M ao of None \<Rightarrow> Done () s | Some n \<Rightarrow> update_soft_bind R A n (ao_key ao) duration s)
       (\<lambda>_ s1. if shared A then then_do (unlock R A (ao_key ao) s1) (\<lambda>_. Done ()) else Done () s1)"

definition set_unhealthy :: "('o, 's) methods \<Rightarrow> 's redis \<Rightarrow> 'a config_scheme \<Rightarrow> int option \<Rightarrow> 'o aobject \<Rightarrow> 's \<Rightarrow> (unit, 's) outcome" where
  "set_unhealthy M R A duration ao s =
     then_do
       (case obj_name M ao of None \<Rightarrow> Done () s | Some n \<Rightarrow> then_do (unbind_soft_bind R A n s) (\<lambda>_. Done ()))
       (\<lambda>_. lock_update R A (ao_key ao) ''1'' duration)"

section \<open>The updater\<close>

record 'q updater =
  u_params :: "'q list"
  u_index :: nat

definition new_updater :: "'q list \<Rightarrow> error + 'q updater" where
  "new_updater params = (if length params > 0 then Inr \<lparr>u_params = params, u_index = 0\<rparr> else Inl AssertionError)"

text \<open>The index moves on before \<open>fetch\<close> runs, so it also moves when \<open>fetch\<close> raises.\<close>

definition updater_call :: "('q \<Rightarrow> error + string list) \<Rightarrow> 'q updater \<Rightarrow> (error + string list) \<times> 'q updater" where
  "updater_call fetch u =
     (let current_param = u_params u ! u_index u in
      (fetch current_param, u\<lparr>u_index := (u_index u + 1) mod length (u_params u)\<rparr>))"

definition updater_len :: "'q updater \<Rightarrow> nat" where
  "updater_len u = length (u_params u)"

fun updater_calls :: "('q \<Rightarrow> error + string list) \<Rightarrow> nat \<Rightarrow> 'q updater \<Rightarrow> (error + string list) \<times> 'q updater" where
  "updater_calls fetch 0 u = (Inr [], u)"
| "updater_calls fetch (Suc n) u =
     (case updater_call fetch u of
        (Inl e, u1) \<Rightarrow> (Inl e, u1)
      | (Inr keys, u1) \<Rightarrow>
          (case updater_calls fetch n u1 of
             (Inl e, u2) \<Rightarrow> (Inl e, u2)
           | (Inr keys1, u2) \<Rightarrow> (Inr (keys @ keys1), u2)))"

section \<open>The default policy\<close>

record policy_cfg =
  gc_count :: int
  update_interval :: int
  expiry_duration :: int
  auto_close :: bool

text \<open>
  The mutable part of a policy, beside the state of the world: the updater and the allocated objects by
  their unique id. The code keeps the objects in a dictionary of weak references, in the order of insertion.
\<close>

record ('q, 'o) policy_state =
  ps_updater :: "'q updater option"
  ps_objects :: "(string \<times> 'o aobject) list"

definition update_lock_key :: "'a lock_cfg_scheme \<Rightarrow> string" where
  "update_lock_key A = pool_str A @ ''|policy_update_lock''"

text \<open>
  The parameters of one call: Lua's table order, the shuffle, what a fetch returns or raises, the entries of
  the dictionary whose object is still alive, and the far timestamp.
\<close>

record ('q) chooser =
  c_pairs :: "string list \<Rightarrow> string list"
  c_shuffle :: "string list \<Rightarrow> string list"
  c_fetch :: "'q \<Rightarrow> error + string list"
  c_alive :: "string \<Rightarrow> bool"
  c_far :: rat

definition refresh_pool :: "'s redis \<Rightarrow> 'a config_scheme \<Rightarrow> policy_cfg \<Rightarrow> 'q chooser \<Rightarrow> bool \<Rightarrow> nat \<Rightarrow>
    ('q, 'o) policy_state \<times> 's \<Rightarrow> (unit, ('q, 'o) policy_state \<times> 's) outcome" where
  "refresh_pool R A P ch shuffle n st =
     (case st of (ps, s) \<Rightarrow>
        case ps_updater ps of
          None \<Rightarrow> Done () (ps, s)
        | Some u \<Rightarrow>
            (case updater_calls (c_fetch ch) n u of
               (Inl e, u1) \<Rightarrow> Abort e (ps\<lparr>ps_updater := Some u1\<rparr>, s)
             | (Inr keys0, u1) \<Rightarrow>
                 let ps1 = ps\<lparr>ps_updater := Some u1\<rparr> in
                 if keys0 = [] then Done () (ps1, s)
                 else
                 (let keys = (if shuffle then c_shuffle ch keys0 else keys0);
                      out = (if updater_len u1 = 1
                             then assign R A (c_pairs ch) (Some (map PyStr keys)) (expiry_duration P) s
                             else extend_pool R A (Some (map PyStr keys)) (Some (expiry_duration P)) s) in
                  case out of Done _ s1 \<Rightarrow> Done () (ps1, s1) | Abort e s1 \<Rightarrow> Abort e (ps1, s1))))"

text \<open>\<open>len(self.updater.params)\<close> fails without an updater, after the pool has been cleared.\<close>

definition refresh_pool_all :: "'s redis \<Rightarrow> 'a config_scheme \<Rightarrow> policy_cfg \<Rightarrow> 'q chooser \<Rightarrow>
    ('q, 'o) policy_state \<times> 's \<Rightarrow> (unit, ('q, 'o) policy_state \<times> 's) outcome" where
  "refresh_pool_all R A P ch st =
     (case st of (ps, s) \<Rightarrow>
        case clear R A s of
          Abort e s1 \<Rightarrow> Abort e (ps, s1)
        | Done _ s1 \<Rightarrow>
            (case ps_updater ps of
               None \<Rightarrow> Abort AttributeError (ps, s1)
             | Some u \<Rightarrow> refresh_pool R A P ch True (length (u_params u)) (ps, s1)))"

text \<open>
  \<open>cached_call\<close>: the time-limited cache still holds the reply of an earlier call. An exception of the refresh
  goes to the caller, and the update lock stays until its expiry.
\<close>

definition try_refresh_pool :: "'s redis \<Rightarrow> 'a config_scheme \<Rightarrow> policy_cfg \<Rightarrow> 'q chooser \<Rightarrow> bool \<Rightarrow>
    ('q, 'o) policy_state \<times> 's \<Rightarrow> (unit, ('q, 'o) policy_state \<times> 's) outcome" where
  "try_refresh_pool R A P ch cached_call st =
     (case st of (ps, s) \<Rightarrow>
        if cached_call then Done () (ps, s)
        else if ps_updater ps = None then Done () (ps, s)
        else
          (case lock R A (update_lock_key A) ''1'' (Some (update_interval P)) s of
             Abort e s1 \<Rightarrow> Abort e (ps, s1)
           | Done acquired s1 \<Rightarrow>
               if acquired then refresh_pool R A P ch True 1 (ps, s1) else Done () (ps, s1)))"

definition live_objects :: "(string \<Rightarrow> bool) \<Rightarrow> ('q, 'o) policy_state \<Rightarrow> (string \<times> 'o aobject) list" where
  "live_objects alive ps = filter (\<lambda>(uid, _). alive uid) (ps_objects ps)"

definition policy_malloc :: "('o, 's) methods \<Rightarrow> 's redis \<Rightarrow> 'a config_scheme \<Rightarrow> policy_cfg \<Rightarrow> 'q chooser \<Rightarrow> bool \<Rightarrow>
    timeout \<Rightarrow> 'o option \<Rightarrow> timeout \<Rightarrow> ('q, 'o) policy_state \<times> 's \<Rightarrow>
    ('o aobject option, ('q, 'o) policy_state \<times> 's) outcome" where
  "policy_malloc M R A P ch cached_call timeout obj cache_timeout st =
     then_do (try_refresh_pool R A P ch cached_call st)
       (\<lambda>_ (ps, s).
          case then_do (gc R A (gc_count P) s)
                 (\<lambda>_. malloc_key R A (c_far ch) timeout (Option.bind obj (m_name M)) cache_timeout) of
            Abort e s1 \<Rightarrow> Abort e (ps, s1)
          | Done None s1 \<Rightarrow> Done None (ps, s1)
          | Done (Some key) s1 \<Rightarrow>
              (case new_object M key obj s1 of
                 Abort e s2 \<Rightarrow> Abort e (ps, s2)
               | Done ao s2 \<Rightarrow>
                   (let uid = obj_unique_id M ao; objects = live_objects (c_alive ch) ps in
                    case (if auto_close P
                          then (case map_of objects uid of
                                  None \<Rightarrow> Done () s2 | Some old \<Rightarrow> obj_close M old s2)
                          else Done () s2) of
                      Abort e s3 \<Rightarrow> Abort e (ps, s3)
                    | Done _ s3 \<Rightarrow>
                        Done (Some ao) (ps\<lparr>ps_objects := AList.update uid ao objects\<rparr>, s3))))"

definition policy_finalize :: "('o, 's) methods \<Rightarrow> (string \<Rightarrow> bool) \<Rightarrow> ('q, 'o) policy_state \<Rightarrow> 's \<Rightarrow> (unit, 's) outcome" where
  "policy_finalize M alive ps s = for_each (\<lambda>(_, ao). obj_close M ao) (live_objects alive ps) s"

section \<open>Refreshing an object\<close>

text \<open>The object takes over the key of a new allocation; when there is none it keeps its own.\<close>

definition obj_refresh :: "('o, 's) methods \<Rightarrow> 's redis \<Rightarrow> 'a config_scheme \<Rightarrow> policy_cfg \<Rightarrow> 'q chooser \<Rightarrow> bool \<Rightarrow>
    timeout \<Rightarrow> timeout \<Rightarrow> 'o aobject \<times> ('q, 'o) policy_state \<times> 's \<Rightarrow>
    (unit, 'o aobject \<times> ('q, 'o) policy_state \<times> 's) outcome" where
  "obj_refresh M R A P ch cached_call timeout cache_timeout st =
     (case st of (ao, ps, s) \<Rightarrow>
        case obj_close M ao s of
          Abort e s1 \<Rightarrow> Abort e (ao, ps, s1)
        | Done _ s1 \<Rightarrow>
            (case policy_malloc M R A P ch cached_call timeout (ao_obj ao) cache_timeout (ps, s1) of
               Abort e (ps2, s2) \<Rightarrow> Abort e (ao, ps2, s2)
             | Done None (ps2, s2) \<Rightarrow> Done () (ao, ps2, s2)
             | Done (Some new) (ps2, s2) \<Rightarrow>
                 (let ao1 = ao\<lparr>ao_obj := ao_obj new, ao_key := ao_key new\<rparr> in
                  case obj_open M ao1 s2 of
                    Done _ s3 \<Rightarrow> Done () (ao1, ps2, s3)
                  | Abort e s3 \<Rightarrow> Abort e (ao1, ps2, s3))))"

fun refresh_until_healthy :: "('o, 's) methods \<Rightarrow> 's redis \<Rightarrow> 'a config_scheme \<Rightarrow> policy_cfg \<Rightarrow> 'q chooser \<Rightarrow> bool \<Rightarrow>
    timeout \<Rightarrow> nat \<Rightarrow> int option \<Rightarrow> timeout \<Rightarrow> 'o aobject \<times> ('q, 'o) policy_state \<times> 's \<Rightarrow>
    (unit, 'o aobject \<times> ('q, 'o) policy_state \<times> 's) outcome" where
  "refresh_until_healthy M R A P ch cached_call timeout 0 lock_duration cache_timeout st = Abort RuntimeError st"
| "refresh_until_healthy M R A P ch cached_call timeout (Suc n) lock_duration cache_timeout (ao, ps, s) =
     (case obj_is_healthy M ao s of
        Done True s1 \<Rightarrow> Done () (ao, ps, s1)
      | out \<Rightarrow>
          (case set_unhealthy M R A lock_duration ao (final_state out) of
             Abort e s2 \<Rightarrow> Abort e (ao, ps, s2)
           | Done _ s2 \<Rightarrow>
               then_do (obj_refresh M R A P ch cached_call timeout cache_timeout (ao, ps, s2))
                 (\<lambda>_. refresh_until_healthy M R A P ch cached_call timeout n lock_duration cache_timeout)))"

section \<open>Health checks\<close>

text \<open>
  \<open>with closing(r_obj.open())\<close>: a failing \<open>open\<close> leaves before the body; the object is closed after the
  body whatever happened, and an error of closing replaces the body's.
\<close>

definition check_health_once :: "('o, 's) methods \<Rightarrow> 's redis \<Rightarrow> 'a config_scheme \<Rightarrow> int option \<Rightarrow> 'o aobject \<Rightarrow> 's \<Rightarrow> (bool, 's) outcome" where
  "check_health_once M R A duration ao s =
     then_do (obj_open M ao s)
       (\<lambda>_ s1.
          let body =
            (case obj_is_healthy M ao s1 of
               Done True s2 \<Rightarrow>
                 if shared A then
                   (case unlock R A (ao_key ao) s2 of
                      Done _ s3 \<Rightarrow> Done True s3
                    | Abort e s3 \<Rightarrow> then_do (set_unhealthy M R A duration ao s3) (\<lambda>_ s4. Abort e s4))
                 else Done True s2
             | Done False s2 \<Rightarrow>
                 (case set_unhealthy M R A duration ao s2 of
                    Done _ s3 \<Rightarrow> Done False s3
                  | Abort e s3 \<Rightarrow> then_do (set_unhealthy M R A duration ao s3) (\<lambda>_ s4. Abort e s4))
             | Abort e s2 \<Rightarrow> then_do (set_unhealthy M R A duration ao s2) (\<lambda>_ s3. Abort e s3)) in
          then_do (obj_close M ao (final_state body))
            (\<lambda>_ s5. case body of Done b _ \<Rightarrow> Done b s5 | Abort e _ \<Rightarrow> Abort e s5))"

fun make_objects :: "('o, 's) methods \<Rightarrow> (string \<Rightarrow> 'o option) \<Rightarrow> string list \<Rightarrow> 's \<Rightarrow> ('o aobject list, 's) outcome" where
  "make_objects M obj_fn [] s = Done [] s"
| "make_objects M obj_fn (key # keys) s =
     then_do (new_object M key (obj_fn key) s)
       (\<lambda>ao s1. then_do (make_objects M obj_fn keys s1) (\<lambda>aos. Done (ao # aos)))"

text \<open>
  The checks are handed to a thread pool. \<open>sched\<close> is the order in which those that run do so, each as one
  step; when the wait ends early the executor cancels the checks that have not started, so \<open>sched\<close> may lack
  some. The results are awaited in the order of the keys: the first exception is raised, and a result that
  has not arrived when \<open>lock_duration\<close> is over is a TimeoutError. That is all \<open>lock_duration\<close> bounds: each
  check locks an unhealthy object for the default of one hour.
\<close>

fun run_checks :: "('o, 's) methods \<Rightarrow> 's redis \<Rightarrow> 'a config_scheme \<Rightarrow> int option \<Rightarrow> 'o aobject list \<Rightarrow> nat list \<Rightarrow> 's \<Rightarrow>
    (nat \<rightharpoonup> error + bool) \<times> 's" where
  "run_checks M R A duration inputs [] s = (Map.empty, s)"
| "run_checks M R A duration inputs (i # sched) s =
     (if i < length inputs then
        (case check_health_once M R A duration (inputs ! i) s of
           Done b s1 \<Rightarrow>
             (case run_checks M R A duration inputs sched s1 of (results, s2) \<Rightarrow> (results(i \<mapsto> Inr b), s2))
         | Abort e s1 \<Rightarrow>
             (case run_checks M R A duration inputs sched s1 of (results, s2) \<Rightarrow> (results(i \<mapsto> Inl e), s2)))
      else run_checks M R A duration inputs sched s)"

fun await_results :: "(nat \<rightharpoonup> error + bool) \<Rightarrow> (nat \<Rightarrow> bool) \<Rightarrow> nat list \<Rightarrow> error + bool list" where
  "await_results results arrives [] = Inr []"
| "await_results results arrives (i # is) =
     (case (if arrives i then results i else None) of
        None \<Rightarrow> Inl TimeoutError
      | Some (Inl e) \<Rightarrow> Inl e
      | Some (Inr b) \<Rightarrow>
          (case await_results results arrives is of Inl e \<Rightarrow> Inl e | Inr bs \<Rightarrow> Inr (b # bs)))"

definition check_health :: "('o, 's) methods \<Rightarrow> 's redis \<Rightarrow> 'a config_scheme \<Rightarrow> int \<Rightarrow> (string \<Rightarrow> 'o option) \<Rightarrow>
    nat list \<Rightarrow> (nat \<Rightarrow> bool) \<Rightarrow> 's \<Rightarrow> (nat \<times> nat, 's) outcome" where
  "check_health M R A max_threads obj_fn sched arrives s =
     (if max_threads \<le> 0 then Abort ValueError s
      else
        then_do (make_objects M obj_fn (pool_keys R A s) s)
          (\<lambda>inputs s1.
             case run_checks M R A (Some 3600) inputs sched s1 of (results, s2) \<Rightarrow>
             (case await_results results arrives [0..<length inputs] of
                Inl e \<Rightarrow> Abort e s2
              | Inr bs \<Rightarrow>
                  (let healthy = length (filter (\<lambda>b. b) bs) in Done (healthy, length bs - healthy) s2))))"

section \<open>The allocator's own entry points\<close>

text \<open>\<open>str(obj)\<close> is the argument \<open>shown\<close>.\<close>

definition object_key :: "'a config_scheme \<Rightarrow> string \<Rightarrow> string \<Rightarrow> string" where
  "object_key A key shown = (if \<not> shared A then key else key @ '':'' @ shown)"

text \<open>\<open>malloc\<close> asks the policy when there is one, and otherwise allocates and wraps the key itself.\<close>

definition malloc :: "('o, 's) methods \<Rightarrow> 's redis \<Rightarrow> 'a config_scheme \<Rightarrow> (policy_cfg \<times> 'q chooser \<times> bool) option \<Rightarrow> rat \<Rightarrow>
    timeout \<Rightarrow> 'o option \<Rightarrow> timeout \<Rightarrow> ('q, 'o) policy_state \<times> 's \<Rightarrow>
    ('o aobject option, ('q, 'o) policy_state \<times> 's) outcome" where
  "malloc M R A policy far timeout obj cache_timeout st =
     (case policy of
        Some (P, ch, cached_call) \<Rightarrow> policy_malloc M R A P ch cached_call timeout obj cache_timeout st
      | None \<Rightarrow>
          (case st of (ps, s) \<Rightarrow>
             case malloc_key R A far timeout (Option.bind obj (m_name M)) cache_timeout s of
               Abort e s1 \<Rightarrow> Abort e (ps, s1)
             | Done None s1 \<Rightarrow> Done None (ps, s1)
             | Done (Some key) s1 \<Rightarrow>
                 (case new_object M key obj s1 of
                    Abort e s2 \<Rightarrow> Abort e (ps, s2)
                  | Done ao s2 \<Rightarrow> Done (Some ao) (ps, s2))))"

definition free_object :: "'s redis \<Rightarrow> 'a lock_cfg_scheme \<Rightarrow> 'o aobject \<Rightarrow> int \<Rightarrow> 's \<Rightarrow> (unit, 's) outcome" where
  "free_object R A ao timeout s = free_keys R A [ao_key ao] timeout s"

text \<open>
  The \<open>with\<close> statement: \<open>open\<close> on entry, \<open>release\<close> on exit, and an error of the body goes on. The body may change the
  object, as \<open>release\<close> and \<open>refresh\<close> do, and any other state \<open>x\<close> of the caller; what is released is the object
  as the body leaves it.
\<close>

definition with_object :: "('o, 's) methods \<Rightarrow> 's redis \<Rightarrow> 'a lock_cfg_scheme \<Rightarrow>
    ('o aobject \<times> 'x \<times> 's \<Rightarrow> ('b, 'o aobject \<times> 'x \<times> 's) outcome) \<Rightarrow>
    'o aobject \<times> 'x \<times> 's \<Rightarrow> ('b, 'o aobject \<times> 'x \<times> 's) outcome" where
  "with_object M R A body st =
     (case st of (ao, x, s) \<Rightarrow>
        case obj_open M ao s of
          Abort e s1 \<Rightarrow> Abort e (ao, x, s1)
        | Done _ s1 \<Rightarrow>
            (let result = body (ao, x, s1) in
             case final_state result of (ao2, x2, s2) \<Rightarrow>
             case obj_release M R A (-1) (ao2, s2) of
               Abort e (ao3, s3) \<Rightarrow> Abort e (ao3, x2, s3)
             | Done _ (ao3, s3) \<Rightarrow>
                 (case result of Done b _ \<Rightarrow> Done b (ao3, x2, s3) | Abort e _ \<Rightarrow> Abort e (ao3, x2, s3))))"

end
