(* ===== verification/Policy_Proofs.thy ===== *)
theory Policy_Proofs
  imports Policy
begin

text \<open>
  The Python layer keeps the promises of the scripts: the updater walks over its parameters in turn, a
  refresh leaves the fetched keys in the pool, a policy allocation is an exclusive allocation, and a
  release returns the key even when closing the object fails.
\<close>

section \<open>The updater\<close>

lemma updater_call_index:
  "u_index (snd (updater_call fetch u)) = (u_index u + 1) mod length (u_params u)"
  "u_params (snd (updater_call fetch u)) = u_params u" "fst (updater_call fetch u) = fetch (u_params u ! u_index u)"
  by (simp_all add: updater_call_def Let_def)

text \<open>What the \<open>i\<close>-th call from here fetches: the parameters are taken in turn, starting over at the end.\<close>

definition nth_fetch :: "('q \<Rightarrow> error + string list) \<Rightarrow> 'q updater \<Rightarrow> nat \<Rightarrow> error + string list" where
  "nth_fetch fetch u i = fetch (u_params u ! ((u_index u + i) mod length (u_params u)))"

definition moved_on :: "nat \<Rightarrow> 'q updater \<Rightarrow> 'q updater" where
  "moved_on i u = u\<lparr>u_index := (u_index u + i) mod length (u_params u)\<rparr>"

lemma moved_on_sel: "u_params (moved_on i u) = u_params u" "nth_fetch fetch (moved_on (Suc 0) u) i = nth_fetch fetch u (Suc i)"
  "moved_on i (moved_on (Suc 0) u) = moved_on (Suc i) u"
  by (simp_all add: moved_on_def nth_fetch_def mod_simps)

lemma updater_call_nth:
  "u_index u < length (u_params u) \<Longrightarrow> updater_call fetch u = (nth_fetch fetch u 0, moved_on (Suc 0) u)"
  by (simp add: updater_call_def Let_def nth_fetch_def moved_on_def)

lemma moved_on_index: "u_index u < length (u_params u) \<Longrightarrow> u_index (moved_on i u) < length (u_params (moved_on i u))"
  by (simp add: moved_on_def) (metis less_zeroE mod_less_divisor neq0_conv)

text \<open>\<open>n\<close> calls collect what \<open>n\<close> consecutive parameters give, or stop at the first fetch that raises.\<close>

lemma updater_round_robin:
  assumes "u_index u < length (u_params u)"
  shows "(\<And>i. i < n \<Longrightarrow> \<not> isl (nth_fetch fetch u i)) \<Longrightarrow>
      updater_calls fetch n u = (Inr (concat (map (\<lambda>i. projr (nth_fetch fetch u i)) [0..<n])), moved_on n u)"
    and "i < n \<Longrightarrow> (\<And>j. j < i \<Longrightarrow> \<not> isl (nth_fetch fetch u j)) \<Longrightarrow> nth_fetch fetch u i = Inl e \<Longrightarrow>
      updater_calls fetch n u = (Inl e, moved_on (Suc i) u)"
  using assms
proof (induction n arbitrary: u i)
  case 0
  { case 1 then show ?case by (simp add: moved_on_def) }
  { case 2 then show ?case by simp }
next
  case (Suc n)
  { case 1
    note idx = moved_on_index [OF 1(2), of "Suc 0"]
    from 1(1) [of 0] obtain ks where ks: "nth_fetch fetch u 0 = Inr ks" by (cases "nth_fetch fetch u 0") auto
    have "\<not> isl (nth_fetch fetch (moved_on (Suc 0) u) i)" if "i < n" for i using 1(1) [of "Suc i"] that by (simp add: moved_on_sel)
    from Suc.IH(1) [OF this idx] have
      "updater_calls fetch n (moved_on (Suc 0) u) = (Inr (concat (map (\<lambda>i. projr (nth_fetch fetch u (Suc i))) [0..<n])), moved_on (Suc n) u)"
      by (simp add: moved_on_sel)
    moreover have "[0..<Suc n] = 0 # map Suc [0..<n]" by (simp add: upt_conv_Cons map_Suc_upt del: upt_Suc)
    ultimately show ?case by (simp add: updater_call_nth [OF 1(2)] ks comp_def del: upt_Suc) }
  { case 2
    note idx = moved_on_index [OF 2(4), of "Suc 0"]
    show ?case
    proof (cases i)
      case 0
      with 2(3) show ?thesis by (simp add: updater_call_nth [OF 2(4)])
    next
      case (Suc k)
      then obtain ks where ks: "nth_fetch fetch u 0 = Inr ks" using 2(2) [of 0] by (cases "nth_fetch fetch u 0") auto
      have "\<not> isl (nth_fetch fetch (moved_on (Suc 0) u) j)" if "j < k" for j using 2(2) [of "Suc j"] that Suc by (simp add: moved_on_sel)
      from Suc.IH(2) [OF _ this _ idx, of k] 2(1,3) Suc have
        "updater_calls fetch n (moved_on (Suc 0) u) = (Inl e, moved_on (Suc (Suc k)) u)" by (simp add: moved_on_sel)
      with Suc show ?thesis by (simp add: updater_call_nth [OF 2(4)] ks)
    qed }
qed

section \<open>Refreshing the pool\<close>

definition fetches_plain :: "'q chooser \<Rightarrow> bool" where
  "fetches_plain ch \<longleftrightarrow> (\<forall>q keys. c_fetch ch q = Inr keys \<longrightarrow> (\<forall>k\<in>set keys. \<not> starts_bar k)) \<and>
     (\<forall>ks. set (c_shuffle ch ks) = set ks) \<and> table_order (c_pairs ch)"

definition fetchable :: "'q chooser \<Rightarrow> string set" where
  "fetchable ch = {k. \<exists>q keys. c_fetch ch q = Inr keys \<and> k \<in> set keys}"

lemma updater_calls_keys:
  "updater_calls (c_fetch ch) n u = (Inr keys, u1) \<Longrightarrow> set keys \<subseteq> fetchable ch"
proof (induction n arbitrary: u keys)
  case (Suc n)
  then obtain ks u2 rest where k: "updater_call (c_fetch ch) u = (Inr ks, u2)"
    "updater_calls (c_fetch ch) n u2 = (Inr rest, u1)" "keys = ks @ rest"
    by (auto split: prod.splits sum.splits)
  then have "set ks \<subseteq> fetchable ch" by (auto simp: updater_call_def Let_def fetchable_def)
  with Suc.IH [OF k(2)] k(3) show ?case by simp
qed simp

lemma updater_calls_len: "updater_len (snd (updater_calls fetch n u)) = updater_len u"
proof (induction n arbitrary: u)
  case (Suc n)
  have "updater_len (snd (updater_call fetch u)) = updater_len u"
    by (simp add: updater_call_index updater_len_def)
  with Suc.IH [of "snd (updater_call fetch u)"] show ?case
    by (auto split: prod.split sum.split)
qed simp

text \<open>Methods of a wrapped object that do not touch the server.\<close>

definition quiet_config :: "('o, 's) methods \<Rightarrow> bool" where
  "quiet_config M \<longleftrightarrow> (\<forall>x k s. final_state (m_set_config M x k s) = s) \<and> (\<forall>x s. final_state (m_close M x s) = s)"

context redis_server
begin

lemma refresh_pool_effect:
  assumes "good view A s" and "fetches_plain ch" and "ps_updater ps = Some u"
    and keys: "updater_calls (c_fetch ch) n u = (Inr keys, u1)" and safe_keys: "\<forall>k\<in>set keys. safe_key k"
  shows "\<exists>s'. refresh_pool R A P ch shuffle n (ps, s) = Done () (ps\<lparr>ps_updater := Some u1\<rparr>, s') \<and> good view A s' \<and>
    hash_members A (view s') =
      (if keys = [] then hash_members A (view s)
       else if updater_len u = 1 then set keys else hash_members A (view s) \<union> set keys)"
proof (cases "keys = []")
  case True
  with assms show ?thesis by (simp add: refresh_pool_def)
next
  case False
  let ?keys = "if shuffle then c_shuffle ch keys else keys"
  have safe: "\<forall>k\<in>set ?keys. safe_key k" and set: "set ?keys = set keys" and pairs: "table_order (c_pairs ch)"
    using assms(2) safe_keys unfolding fetches_plain_def by auto
  have len: "updater_len u1 = updater_len u" using updater_calls_len [of "c_fetch ch" n u] keys by simp
  from allocator_assign [OF assms(1) pairs safe, of "expiry_duration P"]
    allocator_extend [OF assms(1) safe, of "Some (expiry_duration P)"] False assms(3) keys len set
  show ?thesis by (auto simp: refresh_pool_def Let_def)
qed

text \<open>Whatever is fetched, a refresh touches only locks of fetched keys.\<close>

lemma install_advances:
  assumes "rep A (view s) p" and "fetches_plain ch" and sub: "set keys \<subseteq> fetchable ch"
    and out: "out = (if single then assign R A (c_pairs ch) (Some (map PyStr keys)) t s
      else extend_pool R A (Some (map PyStr keys)) (Some t) s)"
  shows "\<exists>q. rep A (view (final_state out)) q \<and> (\<forall>k. k \<notin> fetchable ch \<longrightarrow> alock p k \<noteq> None \<longrightarrow> alock q k = alock p k)"
proof -
  have "\<not> starts_bar k" if "k \<in> fetchable ch" for k
    using that assms(2) unfolding fetches_plain_def fetchable_def by blast
  then have bars: "no_bars (map PyStr keys)" unfolding no_bars_def set_map using sub by blast
  have ev: "map key_name (map PyStr keys) = keys" by (simp add: comp_def)
  obtain e q where q: "rep A (view (final_state out)) q" "advances p e q" "e = Extended keys \<or> e = Assigned keys"
  proof (cases single)
    case True
    with assign_advances [OF assms(1) bars, of "c_pairs ch" t, unfolded ev] assms(2) that show thesis
      unfolding out fetches_plain_def by auto
  next
    case False
    with extend_advances [OF assms(1) bars, of "Some t", unfolded ev] that show thesis unfolding out by auto
  qed
  have "\<forall>k. k \<notin> fetchable ch \<longrightarrow> alock p k \<noteq> None \<longrightarrow> alock q k = alock p k"
  proof (intro allI impI)
    fix k assume "k \<notin> fetchable ch" "alock p k \<noteq> None"
    moreover from this sub have "k \<notin> set keys" by blast
    ultimately show "alock q k = alock p k" using q(2,3) by (auto simp: advances_def touches_def)
  qed
  with q(1) show ?thesis by blast
qed

lemma refresh_pool_advances:
  assumes "rep A (view s) p" and "fetches_plain ch"
  shows "\<exists>q. rep A (view (snd (final_state (refresh_pool R A P ch shuffle n (ps, s))))) q \<and>
    (\<forall>k. k \<notin> fetchable ch \<longrightarrow> alock p k \<noteq> None \<longrightarrow> alock q k = alock p k)"
proof (cases "ps_updater ps")
  case None
  with assms(1) show ?thesis by (auto simp: refresh_pool_def)
next
  case (Some u)
  obtain r u1 where calls: "updater_calls (c_fetch ch) n u = (r, u1)" by fastforce
  show ?thesis
  proof (cases "\<exists>keys. r = Inr keys \<and> keys \<noteq> []")
    case False
    with assms(1) Some calls show ?thesis by (cases r) (auto simp: refresh_pool_def Let_def)
  next
    case True
    then obtain keys where keys: "r = Inr keys" "keys \<noteq> []" by blast
    let ?keys = "if shuffle then c_shuffle ch keys else keys"
    let ?out = "if updater_len u1 = 1 then assign R A (c_pairs ch) (Some (map PyStr ?keys)) (expiry_duration P) s
      else extend_pool R A (Some (map PyStr ?keys)) (Some (expiry_duration P)) s"
    have "set ?keys = set keys" using assms(2) by (simp add: fetches_plain_def)
    then have "set ?keys \<subseteq> fetchable ch" using updater_calls_keys [of ch n u keys u1] calls keys(1) by simp
    from install_advances [OF assms this refl] obtain q where
      "rep A (view (final_state ?out)) q" "\<forall>k. k \<notin> fetchable ch \<longrightarrow> alock p k \<noteq> None \<longrightarrow> alock q k = alock p k" by blast
    moreover have "snd (final_state (refresh_pool R A P ch shuffle n (ps, s))) = final_state ?out"
      using Some calls keys by (simp add: refresh_pool_def Let_def split: outcome.split)
    ultimately show ?thesis by metis
  qed
qed

text \<open>Taking the update lock by hand does not disturb the pool, not even when its name is a member.\<close>

lemma relocks_good: "good view A s \<Longrightarrow> relocks A k (view s) (view s') \<Longrightarrow> good view A s'"
  using relock_advances by (fastforce simp: good_def)

lemma try_refresh_good:
  assumes "good view A s" and "fetches_plain ch"
  shows "good view A (snd (final_state (try_refresh_pool R A P ch cached (ps, s))))"
proof -
  from assms(1) have "lock_ok A (view s)" by (auto simp: good_def dest: rep_lock_ok)
  from relocks_good [OF assms(1) relocks_lock(1) [OF this]]
  have lock: "good view A (final_state (lock R A (update_lock_key A) ''1'' (Some (update_interval P)) s))" .
  have refresh: "good view A (snd (final_state (refresh_pool R A P ch True 1 (ps, s1))))" if "good view A s1" for s1
    using that refresh_pool_advances [OF _ assms(2)] by (fastforce simp: good_def)
  show ?thesis
  proof (cases "lock R A (update_lock_key A) ''1'' (Some (update_interval P)) s")
    case (Done acquired s1)
    with lock have "good view A s1" by simp
    with refresh [OF this] Done assms(1) show ?thesis by (simp add: try_refresh_pool_def)
  next
    case (Abort e s1)
    with lock assms(1) show ?thesis by (simp add: try_refresh_pool_def)
  qed
qed

text \<open>
  After a refresh the update lock keeps every process from refreshing until it expires, whether the refresh
  succeeded or raised.
\<close>

lemma refresh_once:
  assumes "good view A s" and "fetches_plain ch" and "update_lock_key A \<notin> fetchable ch" and "0 < update_interval P"
    and free: "\<not> is_locked R A (update_lock_key A) s" and upd: "ps_updater ps \<noteq> None"
    and trace: "alloc_trace R view A far pairs (snd (final_state (try_refresh_pool R A P ch False (ps, s)))) es s2"
    and "table_order pairs" and "\<forall>e\<in>set es. \<not> touches (update_lock_key A) e"
    and "now_ms (view s2) < now_ms (view s) + 1000 * update_interval P" and "0 < update_interval P2"
  shows "try_refresh_pool R A P2 ch2 cached (ps2, s2) = Done () (ps2, s2)"
proof -
  let ?k = "update_lock_key A"
  from assms(1) obtain p where p: "rep A (view s) p" by (auto simp: good_def)
  note ok = rep_lock_ok [OF p]
  have "holder A (view s) ?k = None" using free is_locked_iff [OF ok] by simp
  with lock_free [OF ok, of "Some (update_interval P)" ?k "''1''"] assms(4) obtain s1 where
    s1: "lock R A ?k ''1'' (Some (update_interval P)) s = Done True s1"
      "view s1 = put_lock A ?k ''1'' (Some (update_interval P)) (view s)" by auto
  let ?d = "Some (now_ms (view s) + 1000 * update_interval P)"
  have p1: "rep A (view s1) (set_lock ?k (''1'', ?d) p)"
    using rep_put(1) [OF p, of ?k "''1''" "Some (update_interval P)"] s1(2) by (simp add: put_lock_def deadline_def)
  from refresh_pool_advances [OF p1 assms(2), of P True 1 ps] assms(3) obtain q where
    q: "rep A (view (snd (final_state (refresh_pool R A P ch True 1 (ps, s1))))) q" "alock q ?k = Some (''1'', ?d)"
    by auto
  have "try_refresh_pool R A P ch False (ps, s) = refresh_pool R A P ch True 1 (ps, s1)"
    using upd s1(1) by (cases "ps_updater ps") (simp_all add: try_refresh_pool_def)
  with q trace have r: "rep A (view (snd (final_state (try_refresh_pool R A P ch False (ps, s))))) q" by simp
  have "in_time (view s2) ?d" using assms(10) by (simp add: in_time_def)
  from trace_lock_survives [OF untouched_calm [OF trace assms(9)] r assms(8) q(2) this] obtain q2 where
    q2: "rep A (view s2) q2" "alock q2 ?k = Some (''1'', ?d)" by blast
  then have "holder A (view s2) ?k \<noteq> None" by (simp add: holder_def rep_lock)
  with lock_taken [OF rep_lock_ok [OF q2(1)], of "Some (update_interval P2)" ?k "''1''"] assms(11) show ?thesis
    by (simp add: try_refresh_pool_def)
qed

lemma gc_good: "good view A s \<Longrightarrow> good view A (final_state (gc R A n s))"
proof -
  assume "good view A s"
  then obtain p where "rep A (view s) p" by (auto simp: good_def)
  from gc_advances [OF this, of n] show ?thesis by (auto simp: good_def advances_def)
qed

text \<open>Cleaning and allocating: the returned key was free for the taking and is now locked.\<close>

lemma gc_then_malloc:
  assumes "good view A s" and "\<not> shared A"
    and "then_do (gc R A n s) (\<lambda>_. malloc_key R A far t nm c) = Done (Some k) s'"
  shows "good view A s' \<and> holder A (view s') k = Some ''1'' \<and> k \<notin> set (get_free_list R A s')"
proof -
  from assms(3) obtain s1 where s1: "gc R A n s = Done () s1"
    and m: "malloc_script R A (py_int (to_seconds far t)) (case nm of None \<Rightarrow> '''' | Some n \<Rightarrow> n)
      (py_int (to_seconds far c)) s1 = Done (Some k) s'"
    by (cases "gc R A n s") (auto simp: malloc_key_def Let_def)
  from gc_good [OF assms(1), of n] s1 obtain p where "rep A (view s1) p" by (auto simp: good_def)
  from malloc_result(3) [OF m this] assms(2) obtain q where
    q: "rep A (view s') q" "secured q k (''1'', until p (py_int (to_seconds far t)))" by blast
  then show ?thesis
    by (auto simp: good_def holder_def rep_lock secured_def get_free_list_def get_free_list_eq)
qed

lemma policy_malloc_exclusive:
  assumes "good view A s" and "fetches_plain ch" and "\<not> shared A" and quiet: "quiet_config M"
    and run: "policy_malloc M R A P ch cached t obj c (ps, s) = Done (Some ao) (ps', s')"
  shows "good view A s' \<and> holder A (view s') (ao_key ao) = Some ''1'' \<and> ao_key ao \<notin> set (get_free_list R A s')"
proof -
  from run obtain ps1 s1 where s1: "try_refresh_pool R A P ch cached (ps, s) = Done () (ps1, s1)"
    by (cases "try_refresh_pool R A P ch cached (ps, s)") (auto simp: policy_malloc_def)
  with try_refresh_good [OF assms(1,2), of P cached ps] have good1: "good view A s1" by simp
  let ?m = "then_do (gc R A (gc_count P) s1) (\<lambda>_. malloc_key R A (c_far ch) t (Option.bind obj (m_name M)) c)"
  from run s1 obtain k s2 where m: "?m = Done (Some k) s2" and ao: "ao_key ao = k" and "s' = s2"
    using quiet by (auto simp: policy_malloc_def new_object_def obj_close_def quiet_config_def Let_def then_do_Done_iff
        split: outcome.splits option.splits if_splits) (metis final_state.simps(1))+
  with gc_then_malloc [OF good1 assms(3) m] show ?thesis by simp
qed

end

end
