(* ===== verification/Task_Queue.thy ===== *)
theory Task_Queue
  imports Redis_Lock
begin

text \<open>
  \<open>task_queue.py\<close>: tasks, their storage in Redis, local and remote execution and the execution policies;
  \<open>Listener\<close> has the other side of the queue. Pickling, the caller's task function and what happens during
  a sleep are parameters. The world is the server with the two clocks of the process. Python's \<open>None\<close> as a result
  is \<open>None\<close> here too.
\<close>

section \<open>Tasks\<close>

datatype TaskExecutePolicy = Local | Remote | LocalFirst | RemoteFirst | Auto

text \<open>\<open>t_save\<close>: whether the callback that stores the task is set.\<close>

record ('p, 'r) task =
  t_id :: string
  t_name :: string
  t_params :: 'p
  t_expiry :: rat
  t_result :: "'r option"
  t_error :: "error option"
  t_update_progress_time :: rat
  t_current_progress :: rat
  t_total_progress :: rat
  t_save :: bool

record 's world =
  w_redis :: 's
  w_time :: rat
  w_mono :: rat

record queue_cfg =
  q_prefix :: string
  q_suffix :: string
  q_timeout :: int
  q_interval :: rat

text \<open>Pickle and base64: what is stored can be loaded again.\<close>

record ('p, 'r) codec =
  dumps :: "('p, 'r) task \<Rightarrow> string"
  loads :: "string \<Rightarrow> ('p, 'r) task"

definition codec_ok :: "('p, 'r) codec \<Rightarrow> bool" where
  "codec_ok C \<longleftrightarrow> (\<forall>t. loads C (dumps C t) = t)"

section \<open>Names\<close>

definition queue_prefix :: "queue_cfg \<Rightarrow> string" where
  "queue_prefix q = q_prefix q @ ''|'' @ q_suffix q @ ''|task-queue''"

definition queue_key :: "queue_cfg \<Rightarrow> string \<Rightarrow> string" where
  "queue_key q name = queue_prefix q @ ''|'' @ name"

definition queue_name :: "queue_cfg \<Rightarrow> string \<Rightarrow> error + string" where
  "queue_name q key =
     (if take (length (queue_prefix q)) key \<noteq> queue_prefix q then Inl AssertionError
      else Inr (drop (length (queue_prefix q) + 1) key))"

definition queue_listen_name :: "queue_cfg \<Rightarrow> string \<Rightarrow> string" where
  "queue_listen_name q name = q_prefix q @ ''|'' @ q_suffix q @ ''|task-listen|'' @ name"

definition result_key :: "queue_cfg \<Rightarrow> string \<Rightarrow> string" where
  "result_key q task_id = q_prefix q @ ''|'' @ q_suffix q @ ''|task-result:'' @ task_id"

section \<open>Storing tasks\<close>

definition build_task :: "queue_cfg \<Rightarrow> string \<Rightarrow> string \<Rightarrow> 'p \<Rightarrow> 's world \<Rightarrow> ('p, 'r) task" where
  "build_task q ident name params w =
     \<lparr>t_id = ident, t_name = name, t_params = params, t_expiry = w_time w + of_int (q_timeout q),
      t_result = None, t_error = None, t_update_progress_time = 0, t_current_progress = 0,
      t_total_progress = 100, t_save = True\<rparr>"

text \<open>The callback is cleared before the task is pickled, and stays cleared.\<close>

definition set_task :: "'s redis \<Rightarrow> ('p, 'r) codec \<Rightarrow> queue_cfg \<Rightarrow> ('p, 'r) task \<times> 's world \<Rightarrow>
    (string, ('p, 'r) task \<times> 's world) outcome" where
  "set_task R C q st =
     (case st of (task, w) \<Rightarrow>
        let task1 = task\<lparr>t_save := False\<rparr> in
        (case r_setex R (result_key q (t_id task1)) (dumps C task1) (q_timeout q) (w_redis w) of
           None \<Rightarrow> Abort (RedisError ''invalid expire time'') (task1, w)
         | Some s \<Rightarrow> Done (t_id task1) (task1, w\<lparr>w_redis := s\<rparr>)))"

definition get_task :: "'s redis \<Rightarrow> ('p, 'r) codec \<Rightarrow> queue_cfg \<Rightarrow> string \<Rightarrow> bool \<Rightarrow> 's \<Rightarrow> ('p, 'r) task option \<times> 's" where
  "get_task R C q task_id once s =
     (case (if once then r_getdel R (result_key q task_id) s else (r_get R (result_key q task_id) s, s)) of
        (None, s1) \<Rightarrow> (None, s1)
      | (Some result, s1) \<Rightarrow> (Some ((loads C result)\<lparr>t_save := True\<rparr>), s1))"

definition has_task :: "'s redis \<Rightarrow> queue_cfg \<Rightarrow> string \<Rightarrow> 's \<Rightarrow> bool" where
  "has_task R q task_id s = r_exists R (result_key q task_id) s"

definition task_save :: "'s redis \<Rightarrow> ('p, 'r) codec \<Rightarrow> queue_cfg \<Rightarrow> ('p, 'r) task \<times> 's world \<Rightarrow>
    (unit, ('p, 'r) task \<times> 's world) outcome" where
  "task_save R C q st =
     (if t_save (fst st) then then_do (set_task R C q st) (\<lambda>_. Done ()) else Done () st)"

definition task_update :: "'s redis \<Rightarrow> ('p, 'r) codec \<Rightarrow> queue_cfg \<Rightarrow> rat \<Rightarrow> rat \<Rightarrow> ('p, 'r) task \<times> 's world \<Rightarrow>
    (unit, ('p, 'r) task \<times> 's world) outcome" where
  "task_update R C q current_progress total_progress st =
     (case st of (task, w) \<Rightarrow>
        let task1 = task\<lparr>t_current_progress := current_progress, t_total_progress := total_progress,
                         t_update_progress_time := w_time w\<rparr> in
        if t_expiry task1 < w_time w then Abort TimeoutError (task1, w)
        else task_save R C q (task1, w))"

definition set_queue_listened :: "'s redis \<Rightarrow> queue_cfg \<Rightarrow> string \<Rightarrow> 's world \<Rightarrow> (unit, 's world) outcome" where
  "set_queue_listened R q name w =
     (case r_setex R (queue_listen_name q name) ''1'' (q_timeout q) (w_redis w) of
        None \<Rightarrow> Abort (RedisError ''invalid expire time'') w
      | Some s \<Rightarrow> Done () (w\<lparr>w_redis := s\<rparr>))"

section \<open>Execution\<close>

type_synonym ('p, 'r, 's) task_fn = "('p, 'r) task \<times> 's world \<Rightarrow> ('r option, ('p, 'r) task \<times> 's world) outcome"

text \<open>The result or the exception is recorded, and \<open>finally\<close> saves the task in both cases.\<close>

definition execute_task_locally :: "'s redis \<Rightarrow> ('p, 'r) codec \<Rightarrow> queue_cfg \<Rightarrow> ('p, 'r, 's) task_fn \<Rightarrow> rat option \<Rightarrow>
    ('p, 'r) task \<times> 's world \<Rightarrow> ('r option, ('p, 'r) task \<times> 's world) outcome" where
  "execute_task_locally R C q task_fn timeout st =
     (case st of (task, w) \<Rightarrow>
        let task1 = (case timeout of None \<Rightarrow> task | Some t \<Rightarrow> task\<lparr>t_expiry := w_time w + t\<rparr>) in
        case task_fn (task1, w) of
          Done r (task2, w2) \<Rightarrow>
            then_do (task_save R C q (task2\<lparr>t_result := r\<rparr>, w2)) (\<lambda>_ st1. Done r st1)
        | Abort e (task2, w2) \<Rightarrow>
            then_do (task_save R C q (task2\<lparr>t_error := Some e\<rparr>, w2)) (\<lambda>_ st1. Abort e st1))"

definition forget_if :: "'s redis \<Rightarrow> queue_cfg \<Rightarrow> string \<Rightarrow> bool \<Rightarrow> 's world \<Rightarrow> 's world" where
  "forget_if R q tid once w =
     (if once then w\<lparr>w_redis := snd (r_del R (result_key q tid) (w_redis w))\<rparr> else w)"

text \<open>
  The polling loop. What other processes do while this one sleeps is the parameter \<open>sleep\<close>, which also
  moves the clocks. The loop is a partial function; \<open>None\<close> would be a loop that never ends.
\<close>

partial_function (option) remote_wait ::
  "'s redis \<Rightarrow> ('p, 'r) codec \<Rightarrow> queue_cfg \<Rightarrow> (rat \<Rightarrow> 's world \<Rightarrow> 's world) \<Rightarrow> string \<Rightarrow> bool \<Rightarrow> rat \<Rightarrow> 's world \<Rightarrow>
    ('r option, 's world) outcome option" where
  "remote_wait R C q sleep tid once due w =
     (let result = fst (get_task R C q tid False (w_redis w));
          remaining = due - w_mono w in
      case Option.bind result t_error of
        Some e \<Rightarrow> Some (Abort e (forget_if R q tid once w))
      | None \<Rightarrow>
          (case Option.bind result t_result of
             Some r \<Rightarrow> Some (Done (Some r) (forget_if R q tid once w))
           | None \<Rightarrow>
               if remaining \<le> 0 then Some (Abort TimeoutError w)
               else remote_wait R C q sleep tid once due (sleep (min (q_interval q) remaining) w)))"

fun with_task :: "'t \<Rightarrow> ('a, 'w) outcome \<Rightarrow> ('a, 't \<times> 'w) outcome" where
  "with_task t (Done r w) = Done r (t, w)"
| "with_task t (Abort e w) = Abort e (t, w)"

definition execute_task_remotely :: "'s redis \<Rightarrow> ('p, 'r) codec \<Rightarrow> queue_cfg \<Rightarrow> (rat \<Rightarrow> 's world \<Rightarrow> 's world) \<Rightarrow>
    rat option \<Rightarrow> bool \<Rightarrow> ('p, 'r) task \<times> 's world \<Rightarrow> ('r option, ('p, 'r) task \<times> 's world) outcome option" where
  "execute_task_remotely R C q sleep timeout once st =
     (case st of (task, w) \<Rightarrow>
        let t = (case timeout of None \<Rightarrow> of_int (q_timeout q) | Some t \<Rightarrow> t);
            task1 = task\<lparr>t_expiry := w_time w + t\<rparr> in
        case set_task R C q (task1, w) of
          Abort e st1 \<Rightarrow> Some (Abort e st1)
        | Done _ (task2, w2) \<Rightarrow>
            let w3 = w2\<lparr>w_redis := r_rpush R (queue_key q (t_name task2)) (t_id task2) (w_redis w2)\<rparr>;
                due = w_mono w3 + t in
            map_option (with_task task2) (remote_wait R C q sleep (t_id task2) once due w3))"

definition query :: "'s redis \<Rightarrow> ('p, 'r) codec \<Rightarrow> queue_cfg \<Rightarrow> ('p, 'r, 's) task_fn \<Rightarrow> (rat \<Rightarrow> 's world \<Rightarrow> 's world) \<Rightarrow>
    string \<Rightarrow> string \<Rightarrow> 'p \<Rightarrow> rat option \<Rightarrow> TaskExecutePolicy \<Rightarrow> bool \<Rightarrow> 's world \<Rightarrow>
    ('r option, ('p, 'r) task \<times> 's world) outcome option" where
  "query R C q task_fn sleep ident name params timeout policy once w =
     (let t = build_task q ident name params w in
      case policy of
        Local \<Rightarrow> Some (execute_task_locally R C q task_fn timeout (t, w))
      | Remote \<Rightarrow> execute_task_remotely R C q sleep timeout once (t, w)
      | LocalFirst \<Rightarrow>
          (case execute_task_locally R C q task_fn timeout (t, w) of
             Done r st \<Rightarrow> Some (Done r st)
           | Abort e st \<Rightarrow> execute_task_remotely R C q sleep timeout once st)
      | RemoteFirst \<Rightarrow>
          (case execute_task_remotely R C q sleep timeout once (t, w) of
             None \<Rightarrow> None
           | Some (Done r st) \<Rightarrow> Some (Done r st)
           | Some (Abort e st) \<Rightarrow> Some (execute_task_locally R C q task_fn timeout st))
      | Auto \<Rightarrow>
          if r_exists R (queue_listen_name q name) (w_redis w)
          then execute_task_remotely R C q sleep timeout once (t, w)
          else Some (execute_task_locally R C q task_fn timeout (t, w)))"

section \<open>What the operations do\<close>

lemma queue_name_key: "queue_name q (queue_key q n) = Inr n"
  by (simp add: queue_name_def queue_key_def)

lemma queue_name_foreign: "queue_name q k = Inl AssertionError \<longleftrightarrow> (\<forall>r. k \<noteq> queue_prefix q @ r)"
proof -
  have "take (length (queue_prefix q)) k = queue_prefix q \<longleftrightarrow> (\<exists>r. k = queue_prefix q @ r)"
    by (metis append_eq_conv_conj append_take_drop_id)
  then show ?thesis by (auto simp: queue_name_def)
qed

text \<open>The keys of the queue do not meet: a task cannot overwrite a queue or a listener mark.\<close>

lemma queue_keys_differ [key_simps]:
  "result_key q i \<noteq> queue_key q n" "result_key q i \<noteq> queue_listen_name q n" "queue_key q n \<noteq> queue_listen_name q n'"
  "result_key q i = result_key q j \<longleftrightarrow> i = j" "queue_key q n = queue_key q n' \<longleftrightarrow> n = n'"
  by (simp_all add: result_key_def queue_key_def queue_prefix_def queue_listen_name_def)

text \<open>The sleep moves the monotonic clock by at least its argument.\<close>

definition sleep_ok :: "(rat \<Rightarrow> 's world \<Rightarrow> 's world) \<Rightarrow> bool" where
  "sleep_ok sleep \<longleftrightarrow> (\<forall>d w. w_mono w + d \<le> w_mono (sleep d w))"

text \<open>How many more polls the deadline allows.\<close>

definition polls_left :: "queue_cfg \<Rightarrow> rat \<Rightarrow> 's world \<Rightarrow> nat" where
  "polls_left q due w = nat \<lceil>(due - w_mono w) / q_interval q\<rceil>"

lemma polls_decrease:
  assumes "sleep_ok sleep" and "0 < q_interval q" and "0 < due - w_mono w"
  shows "polls_left q due (sleep (min (q_interval q) (due - w_mono w)) w) < polls_left q due w"
proof -
  let ?i = "q_interval q" and ?r = "due - w_mono w"
  let ?w = "sleep (min ?i ?r) w"
  have mono: "w_mono w + min ?i ?r \<le> w_mono ?w" using assms(1) by (simp add: sleep_ok_def)
  have pos: "0 < \<lceil>?r / ?i\<rceil>" using assms(2,3) by (simp add: divide_pos_pos)
  show ?thesis
  proof (cases "?i \<le> ?r")
    case True
    with mono have "(due - w_mono ?w) / ?i \<le> (?r - ?i) / ?i"
      using assms(2) by (intro divide_right_mono) auto
    then have "(due - w_mono ?w) / ?i \<le> ?r / ?i - 1"
      using assms(2) by (simp add: diff_divide_distrib)
    then have "\<lceil>(due - w_mono ?w) / ?i\<rceil> \<le> \<lceil>?r / ?i\<rceil> - 1"
      by (metis ceiling_diff_one ceiling_mono)
    with pos show ?thesis by (simp add: polls_left_def)
  next
    case False
    with mono have "(due - w_mono ?w) / ?i \<le> 0"
      using assms(2) by (simp add: divide_le_0_iff)
    then have "\<lceil>(due - w_mono ?w) / ?i\<rceil> \<le> 0" by (simp add: ceiling_le_iff)
    with pos show ?thesis by (simp add: polls_left_def)
  qed
qed

text \<open>The poll that ended in \<open>w'\<close> found a \<open>TimeoutError\<close> that another process had stored.\<close>

definition timeout_reported :: "'s redis \<Rightarrow> ('p, 'r) codec \<Rightarrow> queue_cfg \<Rightarrow> string \<Rightarrow> bool \<Rightarrow> 's world \<Rightarrow> bool" where
  "timeout_reported R C q tid once w' \<longleftrightarrow>
     (\<exists>w t. w' = forget_if R q tid once w \<and> fst (get_task R C q tid False (w_redis w)) = Some t \<and>
        t_error t = Some TimeoutError)"

text \<open>The polling loop ends, and a \<open>TimeoutError\<close> means that the deadline has passed.\<close>

lemma remote_wait_ends:
  assumes "sleep_ok sleep" and "0 < q_interval q"
  shows "\<exists>out. remote_wait R C q sleep tid once due w = Some out \<and>
    (\<forall>w'. out = Abort TimeoutError w' \<longrightarrow>
       due \<le> w_mono w' \<or> timeout_reported R C q tid once w')"
proof (induction "polls_left q due w" arbitrary: w rule: less_induct)
  case less
  let ?result = "fst (get_task R C q tid False (w_redis w))"
  show ?case
  proof (cases "Option.bind ?result t_error")
    case (Some e)
    then have "remote_wait R C q sleep tid once due w = Some (Abort e (forget_if R q tid once w))"
      by (subst remote_wait.simps) (simp add: Let_def)
    moreover from Some obtain t where "?result = Some t" "t_error t = Some e" by (auto simp: bind_eq_Some_conv)
    ultimately show ?thesis
      using timeout_reported_def [of R C q tid once] by (intro exI [of _ "Abort e (forget_if R q tid once w)"]) auto
  next
    case None
    note no_error = this
    show ?thesis
    proof (cases "Option.bind ?result t_result")
      case (Some r)
      with no_error show ?thesis by (subst remote_wait.simps) (simp add: Let_def)
    next
      case None
      show ?thesis
      proof (cases "due - w_mono w \<le> 0")
        case True
        with None no_error show ?thesis by (subst remote_wait.simps) (simp add: Let_def)
      next
        case False
        with less polls_decrease [OF assms, of due w] None no_error show ?thesis
          by (subst remote_wait.simps) (simp add: Let_def)
      qed
    qed
  qed
qed

text \<open>An outcome that is stored already is returned at the first poll.\<close>

lemma remote_wait_stored:
  "fst (get_task R C q tid False (w_redis w)) = Some t \<Longrightarrow> t_error t = Some e \<Longrightarrow>
     remote_wait R C q sleep tid once due w = Some (Abort e (forget_if R q tid once w))"
  "fst (get_task R C q tid False (w_redis w)) = Some t \<Longrightarrow> t_error t = None \<Longrightarrow> t_result t = Some r \<Longrightarrow>
     remote_wait R C q sleep tid once due w = Some (Done (Some r) (forget_if R q tid once w))"
  by (subst remote_wait.simps; simp add: Let_def)+

text \<open>The task under its result key; the stored copy has no callback.\<close>

definition stored :: "('p, 'r) codec \<Rightarrow> queue_cfg \<Rightarrow> ('p, 'r) task \<Rightarrow> keyspace \<Rightarrow> bool" where
  "stored C q t V \<longleftrightarrow> str_key V (result_key q (t_id t)) \<and>
     map_option fst (strs V (result_key q (t_id t))) = Some (dumps C (t\<lparr>t_save := False\<rparr>))"

text \<open>
  Reporting progress stores the task and clears its callback. What a task function does after that cannot put
  the callback back; it leaves the task with the id \<open>tid\<close> alone if it does not write its result key itself.
\<close>

definition leaves_stored :: "('s \<Rightarrow> keyspace) \<Rightarrow> ('p, 'r) codec \<Rightarrow> queue_cfg \<Rightarrow> string \<Rightarrow>
    (('p, 'r) task \<times> 's world \<Rightarrow> ('b, ('p, 'r) task \<times> 's world) outcome) \<Rightarrow> bool" where
  "leaves_stored view C q tid body \<longleftrightarrow>
     (\<forall>t1 w1 t2 w2. \<not> t_save t1 \<longrightarrow> final_state (body (t1, w1)) = (t2, w2) \<longrightarrow>
        \<not> t_save t2 \<and> (\<forall>x. t_id x = tid \<longrightarrow> stored C q x (view (w_redis w1)) \<longrightarrow> stored C q x (view (w_redis w2))))"

text \<open>Returning and raising are such endings, further reports are, and so are sequences of them.\<close>

lemma leaves_stored_simps:
  "leaves_stored view C q tid (Done r)" "leaves_stored view C q tid (Abort e)" "leaves_stored view C q tid (task_update R C q c n)"
  by (auto simp: leaves_stored_def task_update_def task_save_def Let_def)

lemma leaves_stored_then:
  assumes "leaves_stored view C q tid f" and "\<And>x. leaves_stored view C q tid (g x)"
  shows "leaves_stored view C q tid (\<lambda>st. then_do (f st) g)"
  unfolding leaves_stored_def
proof (intro allI impI)
  fix t1 w1 t2 w2
  assume t1: "\<not> t_save t1" and run: "final_state (then_do (f (t1, w1)) g) = (t2, w2)"
  show "\<not> t_save t2 \<and> (\<forall>x. t_id x = tid \<longrightarrow> stored C q x (view (w_redis w1)) \<longrightarrow> stored C q x (view (w_redis w2)))"
  proof (cases "f (t1, w1)")
    case (Done x st)
    obtain t3 w3 where st: "st = (t3, w3)" by (cases st)
    have "final_state (f (t1, w1)) = (t3, w3)" using Done st by simp
    with assms(1) t1 have 3: "\<not> t_save t3"
      "\<forall>x. t_id x = tid \<longrightarrow> stored C q x (view (w_redis w1)) \<longrightarrow> stored C q x (view (w_redis w3))"
      unfolding leaves_stored_def by blast+
    have "final_state (g x (t3, w3)) = (t2, w2)" using run Done st by simp
    with assms(2) [of x] 3(1) have "\<not> t_save t2"
      "\<forall>x. t_id x = tid \<longrightarrow> stored C q x (view (w_redis w3)) \<longrightarrow> stored C q x (view (w_redis w2))"
      unfolding leaves_stored_def by blast+
    with 3(2) show ?thesis by blast
  next
    case (Abort e st)
    then have "final_state (f (t1, w1)) = (t2, w2)" using run by simp
    with assms(1) t1 show ?thesis unfolding leaves_stored_def by blast
  qed
qed

context redis_server
begin

lemma get_stored:
  "codec_ok C \<Longrightarrow> stored C q t (view s) \<Longrightarrow> get_task R C q (t_id t) False s = (Some (t\<lparr>t_save := True\<rparr>), s)"
  using get [of s "result_key q (t_id t)"] by (auto simp: get_task_def stored_def codec_ok_def)

lemma set_task_effect:
  assumes "0 < q_timeout q"
  shows "\<exists>w'. set_task R C q (t, w) = Done (t_id t) (t\<lparr>t_save := False\<rparr>, w') \<and> w_time w' = w_time w \<and>
    w_mono w' = w_mono w \<and> stored C q t (view (w_redis w')) \<and>
    view (w_redis w') = put_str (result_key q (t_id t)) (dumps C (t\<lparr>t_save := False\<rparr>)) (Some (q_timeout q)) (view (w_redis w))"
proof -
  from setex [OF assms, of "result_key q (t_id t)" "dumps C (t\<lparr>t_save := False\<rparr>)" "w_redis w"] obtain s where
    "r_setex R (result_key q (t_id t)) (dumps C (t\<lparr>t_save := False\<rparr>)) (q_timeout q) (w_redis w) = Some s"
    "view s = put_str (result_key q (t_id t)) (dumps C (t\<lparr>t_save := False\<rparr>)) (Some (q_timeout q)) (view (w_redis w))" by blast
  then show ?thesis by (simp add: set_task_def stored_def redis_simps)
qed

lemma task_save_effect:
  "t_save t \<Longrightarrow> 0 < q_timeout q \<Longrightarrow>
     \<exists>w'. task_save R C q (t, w) = Done () (t\<lparr>t_save := False\<rparr>, w') \<and> stored C q t (view (w_redis w'))"
  "\<not> t_save t \<Longrightarrow> task_save R C q (t, w) = Done () (t, w)"
  using set_task_effect [of q C t w] by (auto simp: task_save_def)

text \<open>A task whose function leaves the callback alone stores its result, or its error, when it ends.\<close>

lemma local_stores:
  assumes "codec_ok C" and "0 < q_timeout q"
  shows "task_fn (t\<lparr>t_expiry := (case timeout of None \<Rightarrow> t_expiry t | Some d \<Rightarrow> w_time w + d)\<rparr>, w) = Done r (t1, w1) \<Longrightarrow>
      t_save t1 \<Longrightarrow> \<exists>t2 w2. execute_task_locally R C q task_fn timeout (t, w) = Done r (t2, w2) \<and>
        fst (get_task R C q (t_id t1) False (w_redis w2)) = Some (t1\<lparr>t_result := r\<rparr>)"
    and "task_fn (t\<lparr>t_expiry := (case timeout of None \<Rightarrow> t_expiry t | Some d \<Rightarrow> w_time w + d)\<rparr>, w) = Abort e (t1, w1) \<Longrightarrow>
      t_save t1 \<Longrightarrow> \<exists>t2 w2. execute_task_locally R C q task_fn timeout (t, w) = Abort e (t2, w2) \<and>
        fst (get_task R C q (t_id t1) False (w_redis w2)) = Some (t1\<lparr>t_error := Some e\<rparr>)"
proof -
  have start: "(case timeout of None \<Rightarrow> t | Some d \<Rightarrow> t\<lparr>t_expiry := w_time w + d\<rparr>) =
      t\<lparr>t_expiry := (case timeout of None \<Rightarrow> t_expiry t | Some d \<Rightarrow> w_time w + d)\<rparr>"
    by (cases timeout) simp_all
  { assume fn: "task_fn (t\<lparr>t_expiry := (case timeout of None \<Rightarrow> t_expiry t | Some d \<Rightarrow> w_time w + d)\<rparr>, w) = Done r (t1, w1)"
      and s: "t_save t1"
    from task_save_effect(1) [of "t1\<lparr>t_result := r\<rparr>" q C w1] s assms(2) obtain w2 where
      "task_save R C q (t1\<lparr>t_result := r\<rparr>, w1) = Done () (t1\<lparr>t_result := r, t_save := False\<rparr>, w2)"
      and st: "stored C q (t1\<lparr>t_result := r\<rparr>) (view (w_redis w2))" by auto
    with fn get_stored [OF assms(1) st] s
    show "\<exists>t2 w2. execute_task_locally R C q task_fn timeout (t, w) = Done r (t2, w2) \<and>
        fst (get_task R C q (t_id t1) False (w_redis w2)) = Some (t1\<lparr>t_result := r\<rparr>)"
      by (auto simp: execute_task_locally_def start Let_def) }
  { assume fn: "task_fn (t\<lparr>t_expiry := (case timeout of None \<Rightarrow> t_expiry t | Some d \<Rightarrow> w_time w + d)\<rparr>, w) = Abort e (t1, w1)"
      and s: "t_save t1"
    from task_save_effect(1) [of "t1\<lparr>t_error := Some e\<rparr>" q C w1] s assms(2) obtain w2 where
      "task_save R C q (t1\<lparr>t_error := Some e\<rparr>, w1) = Done () (t1\<lparr>t_error := Some e, t_save := False\<rparr>, w2)"
      and st: "stored C q (t1\<lparr>t_error := Some e\<rparr>) (view (w_redis w2))" by auto
    with fn get_stored [OF assms(1) st] s
    show "\<exists>t2 w2. execute_task_locally R C q task_fn timeout (t, w) = Abort e (t2, w2) \<and>
        fst (get_task R C q (t_id t1) False (w_redis w2)) = Some (t1\<lparr>t_error := Some e\<rparr>)"
      by (auto simp: execute_task_locally_def start Let_def) }
qed

text \<open>A remote execution of a task that carries an error reports that error at once.\<close>

lemma remote_of_failed:
  assumes "codec_ok C" and "0 < q_timeout q" and "t_error t = Some e"
    and "list_key (view (w_redis w)) (queue_key q (t_name t))"
  shows "\<exists>st. execute_task_remotely R C q sleep timeout once (t, w) = Some (Abort e st)"
proof -
  define d where "d = (case timeout of None \<Rightarrow> of_int (q_timeout q) | Some d \<Rightarrow> d)"
  define t1 where "t1 = t\<lparr>t_expiry := w_time w + d\<rparr>"
  from set_task_effect [OF assms(2), of C t1 w] obtain w2 where
    w2: "set_task R C q (t1, w) = Done (t_id t1) (t1\<lparr>t_save := False\<rparr>, w2)"
    and st: "stored C q t1 (view (w_redis w2))"
    and v2: "view (w_redis w2) = put_str (result_key q (t_id t1)) (dumps C (t1\<lparr>t_save := False\<rparr>)) (Some (q_timeout q)) (view (w_redis w))"
    by blast
  let ?w3 = "w2\<lparr>w_redis := r_rpush R (queue_key q (t_name t)) (t_id t) (w_redis w2)\<rparr>"
  have "list_key (view (w_redis w2)) (queue_key q (t_name t))"
    using assms(4) by (simp add: v2 list_key_def redis_simps queue_keys_differ [symmetric])
  from rpush [OF this, of "t_id t"] st have "stored C q t1 (view (w_redis ?w3))"
    by (simp add: stored_def redis_simps str_key_def queue_keys_differ)
  from get_stored [OF assms(1) this] have "fst (get_task R C q (t_id t) False (w_redis ?w3)) = Some (t1\<lparr>t_save := True\<rparr>)"
    by (simp add: t1_def)
  from remote_wait_stored(1) [OF this] assms(3) w2 show ?thesis
    by (simp add: execute_task_remotely_def d_def [symmetric] t1_def [symmetric] Let_def) (simp add: t1_def)
qed

lemma progress_loses_result:
  assumes "codec_ok C" and "0 < q_timeout q"
    and st: "st = (case timeout of None \<Rightarrow> t | Some d \<Rightarrow> t\<lparr>t_expiry := w_time w + d\<rparr>, w)"
    and reach: "task_fn st = then_do (task_update R C q c n (t0, w0)) (\<lambda>_. rest)"
    and t0: "t_save t0" "w_time w0 \<le> t_expiry t0" and rest: "leaves_stored view C q (t_id t0) rest"
  shows "execute_task_locally R C q task_fn timeout (t, w) =
      (case task_fn st of
         Done r (t2, w2) \<Rightarrow> Done r (t2\<lparr>t_result := r\<rparr>, w2) | Abort e (t2, w2) \<Rightarrow> Abort e (t2\<lparr>t_error := Some e\<rparr>, w2)) \<and>
    (\<exists>x. fst (get_task R C q (t_id t0) False (w_redis (snd (final_state (task_fn st))))) = Some x \<and>
       t_result x = t_result t0 \<and> t_error x = t_error t0)"
proof -
  let ?t = "t0\<lparr>t_current_progress := c, t_total_progress := n, t_update_progress_time := w_time w0\<rparr>"
  from task_save_effect(1) [of ?t q C w0] assms(2) t0(1) obtain w1 where
    w1: "task_save R C q (?t, w0) = Done () (?t\<lparr>t_save := False\<rparr>, w1)" and kept: "stored C q ?t (view (w_redis w1))"
    by auto
  have fn: "task_fn st = rest (?t\<lparr>t_save := False\<rparr>, w1)"
    using reach w1 t0(2) by (simp add: task_update_def Let_def)
  obtain t2 w2 where fin: "final_state (rest (?t\<lparr>t_save := False\<rparr>, w1)) = (t2, w2)" by fastforce
  have "\<not> t_save (?t\<lparr>t_save := False\<rparr>)" by simp
  from rest [unfolded leaves_stored_def, rule_format, OF this fin] kept
  have t2: "\<not> t_save t2" "stored C q ?t (view (w_redis w2))" by simp_all
  have "fst (get_task R C q (t_id t0) False (w_redis (snd (final_state (task_fn st))))) = Some (?t\<lparr>t_save := True\<rparr>)"
    using get_stored [OF assms(1) t2(2)] by (simp add: fn fin)
  moreover have "execute_task_locally R C q task_fn timeout (t, w) =
      (case task_fn st of
         Done r (t2, w2) \<Rightarrow> Done r (t2\<lparr>t_result := r\<rparr>, w2) | Abort e (t2, w2) \<Rightarrow> Abort e (t2\<lparr>t_error := Some e\<rparr>, w2))"
    using t2(1) fin
    by (cases "rest (?t\<lparr>t_save := False\<rparr>, w1)") (simp_all add: execute_task_locally_def st [symmetric] fn Let_def task_save_def)
  ultimately show ?thesis by simp
qed

text \<open>
  \<open>LocalFirst\<close>: the failed local run leaves its error in the task, so the remote attempt that follows
  reports that error at its first poll, whatever a listener could have done.
\<close>

lemma local_first_fails:
  assumes "codec_ok C" and "0 < q_timeout q"
    and t1: "task_fn (case timeout of None \<Rightarrow> build_task q ident name params w
        | Some d \<Rightarrow> (build_task q ident name params w)\<lparr>t_expiry := w_time w + d\<rparr>, w) = Abort e (t1, w1)"
    and l1: "list_key (view (w_redis w1)) (queue_key q (t_name t1))"
  shows "\<exists>st. query R C q task_fn sleep ident name params timeout LocalFirst once w = Some (Abort e st)"
proof -
  let ?t = "t1\<lparr>t_error := Some e\<rparr>"
  have "\<exists>w2 b. task_save R C q (?t, w1) = Done () (?t\<lparr>t_save := b\<rparr>, w2) \<and>
      list_key (view (w_redis w2)) (queue_key q (t_name t1))"
  proof (cases "t_save t1")
    case True
    from set_task_effect [OF assms(2), of C ?t w1] True l1 show ?thesis
      by (auto simp: task_save_def list_key_def redis_simps queue_keys_differ [symmetric])
  next
    case False
    then have "task_save R C q (?t, w1) = Done () (?t\<lparr>t_save := False\<rparr>, w1)"
      by (cases t1) (simp add: task_save_def)
    with l1 show ?thesis by blast
  qed
  then obtain w2 b where w2: "task_save R C q (?t, w1) = Done () (?t\<lparr>t_save := b\<rparr>, w2)"
    "list_key (view (w_redis w2)) (queue_key q (t_name t1))" by blast
  have "execute_task_locally R C q task_fn timeout (build_task q ident name params w, w)
      = Abort e (?t\<lparr>t_save := b\<rparr>, w2)"
    using t1 w2(1) by (simp add: execute_task_locally_def Let_def)
  moreover from remote_of_failed [OF assms(1,2), of "?t\<lparr>t_save := b\<rparr>" e w2] w2(2) have
    "\<exists>st. execute_task_remotely R C q sleep timeout once (?t\<lparr>t_save := b\<rparr>, w2) = Some (Abort e st)" by simp
  ultimately show ?thesis by (simp add: query_def Let_def)
qed

text \<open>\<open>Auto\<close> goes to a remote listener exactly when one has announced itself.\<close>

lemma auto_policy:
  assumes "str_key (view (w_redis w)) (queue_listen_name q name)"
  shows "query R C q task_fn sleep ident name params timeout Auto once w =
    query R C q task_fn sleep ident name params timeout
      (if strs (view (w_redis w)) (queue_listen_name q name) = None then Local else Remote) once w"
  using assms by (simp add: query_def exists_cmd present_str)

end

end
