(* ===== verification/Thread_Lock.thy ===== *)
theory Thread_Lock
  imports Lock_Pool
begin

text \<open>
  \<open>ThreadLock\<close> and \<open>ThreadLockPool\<close>, the in-memory implementations of the lock and of the pool. The lock
  table is a \<open>defaultdict\<close>: looking a key up inserts the default entry, so the reads of the code change
  the state too. Times are rational seconds, and an operation runs at one reading of the clock. The
  reading and printing of a number are parameters.
\<close>

section \<open>The lock table\<close>

text \<open>A value is a text, or the number a conditional set has stored.\<close>

datatype lvalue = Text string | Number rat

record lock_data =
  ld_value :: lvalue
  ld_expiry :: rat

record thread_state =
  clock :: rat
  locks :: "string \<rightharpoonup> lock_data"

definition default_entry :: lock_data where
  "default_entry = \<lparr>ld_value = Text ''1'', ld_expiry = 0\<rparr>"

text \<open>\<open>self._locks[key]\<close>\<close>

definition entry_at :: "string \<Rightarrow> 'a thread_state_scheme \<Rightarrow> lock_data \<times> 'a thread_state_scheme" where
  "entry_at key s =
     (case locks s key of
        Some d \<Rightarrow> (d, s)
      | None \<Rightarrow> (default_entry, s\<lparr>locks := (locks s)(key \<mapsto> default_entry)\<rparr>))"

definition store :: "string \<Rightarrow> lvalue \<Rightarrow> rat \<Rightarrow> 'a thread_state_scheme \<Rightarrow> 'a thread_state_scheme" where
  "store key v e s = s\<lparr>locks := (locks s)(key \<mapsto> \<lparr>ld_value = v, ld_expiry = e\<rparr>)\<rparr>"

definition get_ttl :: "string \<Rightarrow> 'a thread_state_scheme \<Rightarrow> rat \<times> 'a thread_state_scheme" where
  "get_ttl key s = (case entry_at key s of (d, s1) \<Rightarrow> (ld_expiry d - clock s, s1))"

definition lock_expired :: "string \<Rightarrow> 'a thread_state_scheme \<Rightarrow> bool \<times> 'a thread_state_scheme" where
  "lock_expired key s = (case get_ttl key s of (ttl, s1) \<Rightarrow> (ttl \<le> 0, s1))"

section \<open>The operations\<close>

definition thread_key_status :: "string \<Rightarrow> rat \<Rightarrow> 'a thread_state_scheme \<Rightarrow> LockStatus \<times> 'a thread_state_scheme" where
  "thread_key_status key timeout s =
     (case get_ttl key s of (ttl, s1) \<Rightarrow>
        (if ttl \<le> 0 then FREE else if ttl > timeout then UNAVAILABLE else LOCKED, s1))"

definition thread_lock_update :: "rat \<Rightarrow> string \<Rightarrow> lvalue \<Rightarrow> timeout \<Rightarrow> 'a thread_state_scheme \<Rightarrow> (unit, 'a thread_state_scheme) outcome" where
  "thread_lock_update far key value timeout s =
     (let expiry = clock s + to_seconds far timeout in Done () (store key value expiry s))"

definition thread_lock :: "rat \<Rightarrow> string \<Rightarrow> lvalue \<Rightarrow> timeout \<Rightarrow> 'a thread_state_scheme \<Rightarrow> (bool, 'a thread_state_scheme) outcome" where
  "thread_lock far key value timeout s =
     (case lock_expired key s of (gone, s1) \<Rightarrow>
        if \<not> gone then Done False s1
        else (let expiry = clock s1 + to_seconds far timeout in Done True (store key value expiry s1)))"

definition thread_is_locked :: "string \<Rightarrow> 'a thread_state_scheme \<Rightarrow> bool \<times> 'a thread_state_scheme" where
  "thread_is_locked key s = (case lock_expired key s of (gone, s1) \<Rightarrow> (\<not> gone, s1))"

fun str_value :: "(rat \<Rightarrow> string) \<Rightarrow> lvalue \<Rightarrow> string" where
  "str_value prn (Text v) = v"
| "str_value prn (Number x) = prn x"

definition thread_lock_value :: "(rat \<Rightarrow> string) \<Rightarrow> string \<Rightarrow> 'a thread_state_scheme \<Rightarrow> string option \<times> 'a thread_state_scheme" where
  "thread_lock_value prn key s =
     (case entry_at key s of (data, s1) \<Rightarrow>
        (if ld_expiry data \<le> clock s1 then None else Some (str_value prn (ld_value data)), s1))"

definition thread_rlock :: "rat \<Rightarrow> string \<Rightarrow> lvalue \<Rightarrow> timeout \<Rightarrow> 'a thread_state_scheme \<Rightarrow> (bool, 'a thread_state_scheme) outcome" where
  "thread_rlock far key value timeout s =
     (case entry_at key s of (data, s1) \<Rightarrow>
        if ld_expiry data > clock s1 \<and> ld_value data \<noteq> value then Done False s1
        else (let expiry = clock s1 + to_seconds far timeout in Done True (store key value expiry s1)))"

definition thread_unlock :: "string \<Rightarrow> 'a thread_state_scheme \<Rightarrow> (bool, 'a thread_state_scheme) outcome" where
  "thread_unlock key s = Done (locks s key \<noteq> None) (s\<lparr>locks := (locks s)(key := None)\<rparr>)"

definition compare_values :: "rat \<Rightarrow> string \<Rightarrow> rat \<Rightarrow> rat \<Rightarrow> bool option" where
  "compare_values eps op compare_value current_value =
     (if op = ''>'' then Some (compare_value > current_value)
      else if op = ''<'' then Some (compare_value < current_value)
      else if op = ''>='' then Some (compare_value \<ge> current_value - eps)
      else if op = ''<='' then Some (compare_value \<le> current_value + eps)
      else if op = ''=='' then Some (\<bar>compare_value - current_value\<bar> < eps)
      else if op = ''!='' then Some (\<bar>compare_value - current_value\<bar> > eps)
      else None)"

fun float_of :: "(string \<Rightarrow> rat option) \<Rightarrow> lvalue \<Rightarrow> rat option" where
  "float_of rd_num (Text v) = rd_num v"
| "float_of rd_num (Number x) = Some x"

definition thread_setdel ::
  "rat \<Rightarrow> (string \<Rightarrow> rat option) \<Rightarrow> rat \<Rightarrow> string \<Rightarrow> string \<Rightarrow> rat \<Rightarrow> rat option \<Rightarrow> timeout \<Rightarrow> bool \<Rightarrow>
    'a thread_state_scheme \<Rightarrow> (bool, 'a thread_state_scheme) outcome" where
  "thread_setdel far rd_num eps op key value set_value ex isdel s =
     (let new_value = (case set_value of None \<Rightarrow> value | Some v \<Rightarrow> v);
          change = (\<lambda>s1.
            if isdel then Done True (s1\<lparr>locks := (locks s1)(key := None)\<rparr>)
            else (let expiry = clock s1 + to_seconds far ex in Done True (store key (Number new_value) expiry s1))) in
      case entry_at key s of (data, s1) \<Rightarrow>
        if ld_expiry data \<le> clock s1 then change s1
        else
          (case float_of rd_num (ld_value data) of
             None \<Rightarrow> Abort ValueError s1
           | Some current_value \<Rightarrow>
               (case compare_values eps op value current_value of
                  None \<Rightarrow> Abort ValueError s1
                | Some holds \<Rightarrow> if holds then change s1 else Done False s1)))"

section \<open>ThreadLockPool\<close>

record thread_pool_state = thread_state +
  pool :: "string set"

definition tp_extend :: "string list option \<Rightarrow> thread_pool_state \<Rightarrow> (unit, thread_pool_state) outcome" where
  "tp_extend keys s = Done () (case keys of None \<Rightarrow> s | Some ks \<Rightarrow> s\<lparr>pool := pool s \<union> set ks\<rparr>)"

definition tp_shrink :: "string list \<Rightarrow> thread_pool_state \<Rightarrow> (unit, thread_pool_state) outcome" where
  "tp_shrink keys s = Done () (s\<lparr>pool := pool s - set keys\<rparr>)"

definition tp_clear :: "thread_pool_state \<Rightarrow> (unit, thread_pool_state) outcome" where
  "tp_clear s = Done () (s\<lparr>pool := {}\<rparr>)"

definition tp_assign :: "string list option \<Rightarrow> thread_pool_state \<Rightarrow> (unit, thread_pool_state) outcome" where
  "tp_assign keys s = then_do (tp_clear s) (\<lambda>_. tp_extend keys)"

text \<open>Python iterates over a set in an order of its own, the parameter \<open>iter\<close>.\<close>

definition tp_keys :: "(string set \<Rightarrow> string list) \<Rightarrow> thread_pool_state \<Rightarrow> string list" where
  "tp_keys iter s = iter (pool s)"

definition tp_contains :: "string \<Rightarrow> thread_pool_state \<Rightarrow> bool" where
  "tp_contains key s = (key \<in> pool s)"

text \<open>\<open>[self.is_locked(key) for key in keys]\<close>: the lookups leave their default entries behind.\<close>

fun tp_status_run :: "string list \<Rightarrow> 'a thread_state_scheme \<Rightarrow> bool list \<times> 'a thread_state_scheme" where
  "tp_status_run [] s = ([], s)"
| "tp_status_run (key # keys) s =
     (case thread_is_locked key s of (b, s1) \<Rightarrow> case tp_status_run keys s1 of (bs, s2) \<Rightarrow> (b # bs, s2))"

definition tp_status :: "string list \<Rightarrow> 'a thread_state_scheme \<Rightarrow> bool list" where
  "tp_status keys s = fst (tp_status_run keys s)"

section \<open>The lock contract\<close>

definition thread_holder :: "'a thread_state_scheme \<Rightarrow> string \<rightharpoonup> lvalue" where
  "thread_holder s k =
     (case locks s k of None \<Rightarrow> None | Some d \<Rightarrow> if clock s < ld_expiry d then Some (ld_value d) else None)"

lemma entry_at_cases:
  assumes "0 \<le> clock s"
  obtains d s1 where "entry_at k s = (d, s1)" "clock s1 = clock s" "thread_holder s1 = thread_holder s"
    "locks s1 k = Some d" "thread_holder s k = (if clock s < ld_expiry d then Some (ld_value d) else None)"
proof (cases "locks s k")
  case None
  with assms that show thesis
    by (auto simp: entry_at_def thread_holder_def default_entry_def fun_eq_iff cong: option.case_cong)
next
  case (Some d)
  with that show thesis by (auto simp: entry_at_def thread_holder_def)
qed

lemma holder_store [simp]:
  "clock s < e \<Longrightarrow> thread_holder (store k v e s) = (thread_holder s)(k \<mapsto> v)"
  "clock (store k v e s) = clock s"
  by (auto simp: store_def thread_holder_def fun_eq_iff split: option.split)

lemma holder_drop [simp]: "thread_holder (s\<lparr>locks := (locks s)(k := None)\<rparr>) = (thread_holder s)(k := None)"
  by (auto simp: thread_holder_def fun_eq_iff split: option.split)

interpretation tl: lock_service "\<lambda>s. 0 \<le> clock s" thread_holder "\<lambda>t. 0 < to_seconds far t"
  "thread_lock far" "thread_rlock far" thread_unlock for far
proof (unfold_locales, goal_cases)
  case (1 s t k v)
  then show ?case
    by (rule_tac entry_at_cases [of s k])
      (auto simp: thread_lock_def lock_expired_def get_ttl_def Let_def split: if_splits)
next
  case (2 s t k v)
  then show ?case
    by (rule_tac entry_at_cases [of s k])
      (auto simp: thread_lock_def lock_expired_def get_ttl_def Let_def split: if_splits)
next
  case (3 s t k v)
  then show ?case
    by (rule_tac entry_at_cases [of s k]) (auto simp: thread_rlock_def Let_def split: if_splits)
next
  case (4 s t k w v)
  then show ?case
    by (rule_tac entry_at_cases [of s k]) (auto simp: thread_rlock_def Let_def split: if_splits)
next
  case (5 s k)
  then show ?case by (auto simp: thread_unlock_def) (simp add: thread_holder_def split: option.splits)
qed

section \<open>The pool contract\<close>

definition set_order :: "(string set \<Rightarrow> string list) \<Rightarrow> bool" where
  "set_order iter \<longleftrightarrow> (\<forall>S. finite S \<longrightarrow> set (iter S) = S \<and> distinct (iter S))"

definition thread_held :: "'a thread_state_scheme \<Rightarrow> string \<Rightarrow> bool" where
  "thread_held s k = (thread_holder s k \<noteq> None)"

lemma is_locked_step:
  assumes "0 \<le> clock s"
  shows "\<exists>s1. thread_is_locked k s = (thread_held s k, s1) \<and> clock s1 = clock s \<and> thread_holder s1 = thread_holder s"
  using assms
  by (rule_tac entry_at_cases [of s k])
    (auto simp: thread_is_locked_def lock_expired_def get_ttl_def thread_held_def not_le)

lemma status_run:
  assumes "0 \<le> clock s"
  shows "fst (tp_status_run ks s) = map (thread_held s) ks"
  using assms
proof (induction ks arbitrary: s)
  case (Cons k ks)
  from is_locked_step [OF Cons.prems, of k] obtain s1 where
    s1: "thread_is_locked k s = (thread_held s k, s1)" "clock s1 = clock s" "thread_holder s1 = thread_holder s" by blast
  with Cons.IH [of s1] Cons.prems have "fst (tp_status_run ks s1) = map (thread_held s) ks"
    by (simp add: thread_held_def)
  with s1(1) show ?case by (simp split: prod.split) auto
qed simp

text \<open>The pool contract holds for every iteration order.\<close>

interpretation tp: key_pool "\<lambda>s. 0 \<le> clock s \<and> finite (pool s) \<and> set_order iter" "\<lambda>_. True" pool thread_held
  "\<lambda>ks. tp_extend (Some ks)" tp_shrink "\<lambda>ks. tp_assign (Some ks)" "tp_keys iter" tp_status for iter
  by (unfold_locales)
    (auto simp: tp_extend_def tp_shrink_def tp_assign_def tp_clear_def tp_keys_def set_order_def tp_status_def status_run)

section \<open>Reading a lock creates an entry\<close>

lemma query_creates_entry:
  "locks (snd (thread_is_locked k s)) k \<noteq> None"
  by (simp add: thread_is_locked_def lock_expired_def get_ttl_def entry_at_def split: option.split)

lemma unlock_after_query:
  "\<exists>s'. thread_unlock k (snd (thread_is_locked k s)) = Done True s'"
  using query_creates_entry [of k s] by (auto simp: thread_unlock_def)

end
