(* ===== verification/Diagnostics.thy ===== *)
theory Diagnostics
  imports Pool_Encoding
begin

text \<open>
  \<open>diagnostics/invariants.py\<close>: the parsed pool entries, the two walks over the free list, the invariant
  checks and the counters. A violation is a constructor with the values of the message; \<open>Dashboard\<close> has the texts.
\<close>

section \<open>Entries and snapshots\<close>

record pool_entry =
  pe_prev :: string
  pe_next :: string
  pe_expiry :: int

definition is_allocated_marker :: "pool_entry \<Rightarrow> bool" where
  "is_allocated_marker e \<longleftrightarrow> pe_prev e = ALLOCATED_SENTINEL \<and> pe_next e = ALLOCATED_SENTINEL"

definition is_free_node :: "pool_entry \<Rightarrow> bool" where
  "is_free_node e \<longleftrightarrow> \<not> is_allocated_marker e"

text \<open>A dictionary keeps its insertion order, in which the checks visit it.\<close>

record snapshot =
  sn_head :: string
  sn_tail :: string
  entries :: "(string \<times> pool_entry) list"
  lock_keys :: "(string \<times> bool) list"
  lock_ttls :: "(string \<times> int) list"
  sn_shared :: bool
  sn_now :: int

definition entry_of :: "snapshot \<Rightarrow> string \<Rightarrow> pool_entry option" where
  "entry_of sn k = map_of (entries sn) k"

definition locked_in :: "snapshot \<Rightarrow> string \<Rightarrow> bool" where
  "locked_in sn k = (case map_of (lock_keys sn) k of None \<Rightarrow> False | Some b \<Rightarrow> b)"

definition ttl_in :: "snapshot \<Rightarrow> string \<Rightarrow> int" where
  "ttl_in sn k = (case map_of (lock_ttls sn) k of None \<Rightarrow> -2 | Some t \<Rightarrow> t)"

section \<open>parse_pool_entry\<close>

text \<open>
  \<open>rpartition\<close> splits at the last separator and \<open>partition\<close> at the first; without one, everything is the
  last part, or the first. \<open>int()\<close> is the parameter \<open>rd_int\<close>, \<open>None\<close> for a \<open>ValueError\<close>.
\<close>

fun split_first :: "string \<Rightarrow> (string \<times> string) option" where
  "split_first [] = None"
| "split_first (c # cs) =
     (if starts_sep (c # cs) then Some ([], drop 2 (c # cs))
      else (case split_first cs of None \<Rightarrow> None | Some (a, b) \<Rightarrow> Some (c # a, b)))"

definition rpartition :: "string \<Rightarrow> string \<times> string" where
  "rpartition s = (case split_last s of None \<Rightarrow> ('''', s) | Some (a, b) \<Rightarrow> (a, b))"

definition partition_sep :: "string \<Rightarrow> string \<times> string" where
  "partition_sep s = (case split_first s of None \<Rightarrow> (s, '''') | Some (a, b) \<Rightarrow> (a, b))"

definition parse_pool_entry :: "(string \<Rightarrow> int option) \<Rightarrow> string \<Rightarrow> pool_entry" where
  "parse_pool_entry rd_int raw =
     (case rpartition raw of (rest, expiry_str) \<Rightarrow>
      case partition_sep rest of (prev, next_key) \<Rightarrow>
        \<lparr>pe_prev = prev, pe_next = next_key,
         pe_expiry = (case rd_int expiry_str of None \<Rightarrow> -1 | Some e \<Rightarrow> e)\<rparr>)"

section \<open>The walks\<close>

text \<open>The body of the loop; \<open>link\<close> reads the next or the previous key of an entry.\<close>

fun walk :: "nat \<Rightarrow> (pool_entry \<Rightarrow> string) \<Rightarrow> snapshot \<Rightarrow> string list \<Rightarrow> string list \<Rightarrow> string \<Rightarrow>
    string list \<times> string option" where
  "walk 0 link sn visited seen current = (visited, Some current)"
| "walk (Suc n) link sn visited seen current =
     (if current = '''' then (visited, None)
      else if current \<in> set seen then (visited, Some current)
      else
        (case entry_of sn current of
           None \<Rightarrow> (visited @ [''<missing:'' @ current @ ''>''], None)
         | Some entry \<Rightarrow>
             if is_allocated_marker entry then (visited @ [''<allocated:'' @ current @ ''>''], None)
             else walk n link sn (visited @ [current]) (current # seen) (link entry)))"

definition walk_forward :: "snapshot \<Rightarrow> string list \<times> string option" where
  "walk_forward sn =
     (if sn_head sn = '''' then ([], None)
      else walk (length (entries sn) + 1) pe_next sn [] [] (sn_head sn))"

definition walk_backward :: "snapshot \<Rightarrow> string list \<times> string option" where
  "walk_backward sn =
     (if sn_tail sn = '''' then ([], None)
      else (case walk (length (entries sn) + 1) pe_prev sn [] [] (sn_tail sn) of
              (visited, cycle) \<Rightarrow> (rev visited, cycle)))"

section \<open>check_invariants\<close>

datatype violation =
    ForwardCycle string
  | BackwardCycle string
  | WalksDiffer "string list" "string list"
  | FreeSetsDiffer "string list" "string list"
  | EmptyPoolPointers string string
  | PointerImbalance string string
  | HeadMissing string
  | HeadPrevSet string string
  | TailMissing string
  | TailNextSet string string
  | FreeLocked string
  | HalfAllocated string

definition cycle_violations :: "(string \<Rightarrow> violation) \<Rightarrow> string option \<Rightarrow> violation list" where
  "cycle_violations v c = (case c of None \<Rightarrow> [] | Some k \<Rightarrow> [v k])"

definition head_violations :: "snapshot \<Rightarrow> violation list" where
  "head_violations sn =
     (if sn_head sn = '''' then []
      else (case entry_of sn (sn_head sn) of
              None \<Rightarrow> [HeadMissing (sn_head sn)]
            | Some e \<Rightarrow>
                if is_free_node e \<and> pe_prev e \<noteq> '''' then [HeadPrevSet (sn_head sn) (pe_prev e)] else []))"

definition tail_violations :: "snapshot \<Rightarrow> violation list" where
  "tail_violations sn =
     (if sn_tail sn = '''' then []
      else (case entry_of sn (sn_tail sn) of
              None \<Rightarrow> [TailMissing (sn_tail sn)]
            | Some e \<Rightarrow>
                if is_free_node e \<and> pe_next e \<noteq> '''' then [TailNextSet (sn_tail sn) (pe_next e)] else []))"

definition entry_violations :: "snapshot \<Rightarrow> string \<Rightarrow> pool_entry \<Rightarrow> violation list" where
  "entry_violations sn key e =
     (if is_free_node e \<and> locked_in sn key then [FreeLocked key] else []) @
     (if pe_prev e = ALLOCATED_SENTINEL \<and> pe_next e \<noteq> ALLOCATED_SENTINEL then [HalfAllocated key] else []) @
     (if pe_next e = ALLOCATED_SENTINEL \<and> pe_prev e \<noteq> ALLOCATED_SENTINEL then [HalfAllocated key] else [])"

definition free_via_walk :: "string list \<Rightarrow> string list" where
  "free_via_walk walked = filter (\<lambda>key. take 1 key \<noteq> ''<'') walked"

definition free_via_entries :: "snapshot \<Rightarrow> string list" where
  "free_via_entries sn = map fst (filter (\<lambda>(key, e). is_free_node e) (entries sn))"

definition check_invariants :: "snapshot \<Rightarrow> violation list" where
  "check_invariants sn =
     (case walk_forward sn of (forward, forward_cycle) \<Rightarrow>
      case walk_backward sn of (backward, backward_cycle) \<Rightarrow>
      let walked = free_via_walk forward; in_hash = free_via_entries sn;
          walks =
            cycle_violations ForwardCycle forward_cycle @ cycle_violations BackwardCycle backward_cycle @
            (if forward \<noteq> backward then [WalksDiffer forward backward] else []) @
            (if set walked \<noteq> set in_hash then [FreeSetsDiffer walked in_hash] else []) in
      if entries sn = [] then
        walks @ (if sn_head sn \<noteq> '''' \<or> sn_tail sn \<noteq> '''' then [EmptyPoolPointers (sn_head sn) (sn_tail sn)] else [])
      else
        walks @
        (if (sn_head sn \<noteq> '''') \<noteq> (sn_tail sn \<noteq> '''') then [PointerImbalance (sn_head sn) (sn_tail sn)] else []) @
        head_violations sn @ tail_violations sn @
        concat (map (\<lambda>(key, e). entry_violations sn key e) (entries sn)))"

section \<open>summarize_pool\<close>

record pool_diagnostics =
  pd_total :: nat
  pd_free :: nat
  pd_allocated :: nat
  pd_locked :: nat
  pd_expired :: nat
  pd_permanent :: nat
  pd_reclaimable :: nat

definition add_if :: "bool \<Rightarrow> nat \<Rightarrow> nat" where
  "add_if b n = (if b then n + 1 else n)"

definition count_entry :: "snapshot \<Rightarrow> string \<times> pool_entry \<Rightarrow> pool_diagnostics \<Rightarrow> pool_diagnostics" where
  "count_entry sn ke d =
     (case ke of (key, e) \<Rightarrow>
      let is_locked = locked_in sn key; ttl = ttl_in sn key in
      d\<lparr>pd_free := add_if (is_free_node e) (pd_free d),
        pd_allocated := add_if (\<not> is_free_node e) (pd_allocated d),
        pd_locked := add_if is_locked (pd_locked d),
        pd_expired := add_if (pe_expiry e > 0 \<and> pe_expiry e \<le> sn_now sn) (pd_expired d),
        pd_permanent := add_if (is_locked \<and> ttl = -1) (pd_permanent d),
        pd_reclaimable := add_if (is_allocated_marker e \<and> \<not> is_locked) (pd_reclaimable d)\<rparr>)"

definition summarize_pool :: "snapshot \<Rightarrow> pool_diagnostics" where
  "summarize_pool sn =
     fold (count_entry sn) (entries sn)
       \<lparr>pd_total = length (entries sn), pd_free = 0, pd_allocated = 0, pd_locked = 0, pd_expired = 0,
        pd_permanent = 0, pd_reclaimable = 0\<rparr>"

lemma count_sel [simp]:
  "pd_total (count_entry sn (key, e) d) = pd_total d"
  "pd_free (count_entry sn (key, e) d) = add_if (is_free_node e) (pd_free d)"
  "pd_allocated (count_entry sn (key, e) d) = add_if (is_allocated_marker e) (pd_allocated d)"
  "pd_locked (count_entry sn (key, e) d) = add_if (locked_in sn key) (pd_locked d)"
  "pd_expired (count_entry sn (key, e) d) = add_if (pe_expiry e > 0 \<and> pe_expiry e \<le> sn_now sn) (pd_expired d)"
  "pd_permanent (count_entry sn (key, e) d) = add_if (locked_in sn key \<and> ttl_in sn key = -1) (pd_permanent d)"
  "pd_reclaimable (count_entry sn (key, e) d) = add_if (is_allocated_marker e \<and> \<not> locked_in sn key) (pd_reclaimable d)"
  by (simp_all add: count_entry_def Let_def is_free_node_def)

text \<open>A counter that adds one for each entry with a property ends with the number of such entries.\<close>

lemma fold_counter:
  assumes "\<And>key e d. c (count_entry sn (key, e) d) = add_if (P key e) (c d)"
  shows "c (fold (count_entry sn) xs d) = c d + length (filter (\<lambda>(k, e). P k e) xs)"
  by (induction xs arbitrary: d) (auto simp: assms add_if_def)

lemma fold_total: "pd_total (fold (count_entry sn) xs d) = pd_total d"
  by (induction xs arbitrary: d) auto

lemmas counters = fold_counter [where c = pd_free, OF count_sel(2)] fold_counter [where c = pd_allocated, OF count_sel(3)]
  fold_counter [where c = pd_locked, OF count_sel(4)] fold_counter [where c = pd_expired, OF count_sel(5)]
  fold_counter [where c = pd_permanent, OF count_sel(6)] fold_counter [where c = pd_reclaimable, OF count_sel(7)]

lemma summarize_sel:
  "pd_total (summarize_pool sn) = length (entries sn)"
  "pd_free (summarize_pool sn) = length (filter (\<lambda>(k, e). is_free_node e) (entries sn))"
  "pd_allocated (summarize_pool sn) = length (filter (\<lambda>(k, e). is_allocated_marker e) (entries sn))"
  "pd_locked (summarize_pool sn) = length (filter (\<lambda>(k, e). locked_in sn k) (entries sn))"
  "pd_expired (summarize_pool sn) = length (filter (\<lambda>(k, e). pe_expiry e > 0 \<and> pe_expiry e \<le> sn_now sn) (entries sn))"
  "pd_permanent (summarize_pool sn) = length (filter (\<lambda>(k, e). locked_in sn k \<and> ttl_in sn k = -1) (entries sn))"
  "pd_reclaimable (summarize_pool sn) = length (filter (\<lambda>(k, e). is_allocated_marker e \<and> \<not> locked_in sn k) (entries sn))"
  by (simp_all add: summarize_pool_def counters fold_total)

end
