(* ===== verification/Collector.thy ===== *)
theory Collector
  imports Diagnostics Lock_Pool
begin

text \<open>
  \<open>diagnostics/collector.py\<close>, the part that reads the allocator's keys: the atomic snapshot of one
  allocator, taken by one Lua script, and the advisory scans for soft bindings and orphan locks.
\<close>

section \<open>The names of the keys\<close>

text \<open>The collector builds the names on its own; they are those of the allocator.\<close>

definition diag_pool_str :: "'a lock_cfg_scheme \<Rightarrow> string" where
  "diag_pool_str A = prefix A @ ''|'' @ suffix A @ ''|pool''"

definition diag_pool_pointer_str :: "'a lock_cfg_scheme \<Rightarrow> bool \<Rightarrow> string" where
  "diag_pool_pointer_str A is_head = diag_pool_str A @ ''|'' @ (if is_head then ''head'' else ''tail'')"

definition diag_key_str :: "'a lock_cfg_scheme \<Rightarrow> string \<Rightarrow> string" where
  "diag_key_str A key = prefix A @ ''|'' @ suffix A @ '':'' @ key"

lemma diag_names [simp]:
  "diag_pool_str A = pool_str A" "diag_pool_pointer_str A h = pool_pointer_str A h" "diag_key_str A k = key_str A k"
  by (simp_all add: diag_pool_str_def diag_pool_pointer_str_def diag_key_str_def pool_str_def pool_pointer_str_def key_str_def)

section \<open>The atomic snapshot\<close>

text \<open>
  One row per pool entry: the key, its hash value, whether its lock exists, and the lock's time to live.
  The script returns them in one flat array, which the collector reads back in steps of four.
\<close>

definition snapshot_row :: "'s redis \<Rightarrow> string \<Rightarrow> 's \<Rightarrow> string \<times> string \<Rightarrow> string \<times> string \<times> bool \<times> int" where
  "snapshot_row R lock_prefix s kv =
     (case kv of (pool_key, entry_value) \<Rightarrow>
        let lock_key = lock_prefix @ pool_key in
        (pool_key, entry_value, r_exists R lock_key s, r_ttl R lock_key s))"

definition snapshot_script ::
  "'s redis \<Rightarrow> string \<Rightarrow> string \<Rightarrow> string \<Rightarrow> string \<Rightarrow> 's \<Rightarrow>
    string \<times> string \<times> int \<times> (string \<times> string \<times> bool \<times> int) list" where
  "snapshot_script R head_key tail_key pool_key lock_prefix s =
     ((case r_get R head_key s of None \<Rightarrow> '''' | Some h \<Rightarrow> h),
      (case r_get R tail_key s of None \<Rightarrow> '''' | Some t \<Rightarrow> t),
      r_time R s,
      map (snapshot_row R lock_prefix s) (r_hgetall R pool_key s))"

text \<open>A server time of zero counts as missing, and the collector takes its own clock \<open>clk\<close>.\<close>

definition collect_raw_pool :: "'s redis \<Rightarrow> (string \<Rightarrow> int option) \<Rightarrow> rat \<Rightarrow> 'a config_scheme \<Rightarrow> 's \<Rightarrow> snapshot" where
  "collect_raw_pool R rd_int clk A s =
     (case snapshot_script R (diag_pool_pointer_str A True) (diag_pool_pointer_str A False) (diag_pool_str A) (diag_key_str A '''') s of
        (head, tail, now, rows) \<Rightarrow>
          \<lparr>sn_head = head, sn_tail = tail,
           entries = map (\<lambda>(key, val, _, _). (key, parse_pool_entry rd_int val)) rows,
           lock_keys = map (\<lambda>(key, _, lk, _). (key, lk)) rows,
           lock_ttls = map (\<lambda>(key, _, _, ttl). (key, ttl)) rows,
           sn_shared = shared A, sn_now = (if now = 0 then py_int clk else now)\<rparr>)"

section \<open>Soft bindings and orphan locks\<close>

text \<open>
  What a bounded \<open>SCAN\<close> returns: the keys it found, how many it looked at, and whether it stopped early.
  \<open>scan_keys\<close> is the scan for a pattern, \<open>None\<close> when it never ends.
\<close>

record scan =
  sc_keys :: "string list"
  sc_scanned :: nat
  sc_truncated :: bool

text \<open>
  The pages of the server's \<open>SCAN\<close> for one pattern are the parameter \<open>page\<close>, from a cursor to the next
  cursor and a batch of keys. The code leaves the inner loop at the first key beyond the limit. A server
  whose cursor never comes back to zero and whose pages are empty would keep the loop running.
\<close>

partial_function (option) scan_loop :: "(string \<Rightarrow> string \<times> string list) \<Rightarrow> nat \<Rightarrow> string \<Rightarrow> string list \<Rightarrow> scan option" where
  "scan_loop page limit cursor keys =
     (case page cursor of (cursor1, batch) \<Rightarrow>
        let keys1 = keys @ batch in
        if limit < length keys1 then Some \<lparr>sc_keys = take limit keys1, sc_scanned = limit, sc_truncated = True\<rparr>
        else if cursor1 = ''0'' then Some \<lparr>sc_keys = keys1, sc_scanned = length keys1, sc_truncated = False\<rparr>
        else if limit \<le> length keys1 then Some \<lparr>sc_keys = keys1, sc_scanned = length keys1, sc_truncated = True\<rparr>
        else scan_loop page limit cursor1 keys1)"

definition bounded_scan :: "(string \<Rightarrow> string \<times> string list) \<Rightarrow> int \<Rightarrow> scan option" where
  "bounded_scan page scan_limit =
     (if scan_limit \<le> 0 then Some \<lparr>sc_keys = [], sc_scanned = 0, sc_truncated = True\<rparr>
      else scan_loop page (nat scan_limit) ''0'' [])"

record binding_diagnostics =
  bd_total :: nat
  bd_stale :: nat
  bd_scanned :: nat
  bd_truncated :: bool
  bd_samples :: "(string \<times> string option) list"

record orphan_diagnostics =
  od_count :: nat
  od_scanned :: nat
  od_truncated :: bool
  od_samples :: "string list"

definition soft_bind_prefix :: "'a lock_cfg_scheme \<Rightarrow> string" where
  "soft_bind_prefix A = prefix A @ ''|'' @ suffix A @ ''-cache:bind:''"

definition soft_bind_lock_prefix :: "'a lock_cfg_scheme \<Rightarrow> string" where
  "soft_bind_lock_prefix A = diag_key_str A (soft_bind_prefix A)"

definition binding_stale :: "bool \<Rightarrow> snapshot \<Rightarrow> string option \<Rightarrow> bool" where
  "binding_stale sh raw value =
     (case value of None \<Rightarrow> True
      | Some v \<Rightarrow> entry_of raw v = None \<or> (\<not> sh \<and> locked_in raw v))"

definition binding_step ::
  "'s redis \<Rightarrow> bool \<Rightarrow> nat \<Rightarrow> snapshot \<Rightarrow> 's \<Rightarrow> string \<Rightarrow> string \<Rightarrow>
    string list \<times> binding_diagnostics \<Rightarrow> string list \<times> binding_diagnostics" where
  "binding_step R sh sample_limit raw s pfx binding_key acc =
     (case acc of (seen, d) \<Rightarrow>
        if binding_key \<in> set seen then (seen, d)
        else
          (let name = drop (length pfx) binding_key; value = r_get R binding_key s;
               d1 = d\<lparr>bd_total := bd_total d + 1\<rparr> in
           (binding_key # seen,
            if binding_stale sh raw value then
              d1\<lparr>bd_stale := bd_stale d1 + 1,
                 bd_samples := (if length (bd_samples d1) < sample_limit then bd_samples d1 @ [(name, value)]
                                else bd_samples d1)\<rparr>
            else d1)))"

fun collect_prefixes ::
  "'s redis \<Rightarrow> (string \<Rightarrow> scan option) \<Rightarrow> bool \<Rightarrow> nat \<Rightarrow> snapshot \<Rightarrow> 's \<Rightarrow> string list \<Rightarrow>
    string list \<times> binding_diagnostics \<Rightarrow> binding_diagnostics option" where
  "collect_prefixes R scan_keys sh sample_limit raw s [] acc = Some (snd acc)"
| "collect_prefixes R scan_keys sh sample_limit raw s (pfx # pfxs) (seen, d) =
     (case scan_keys (pfx @ ''*'') of
        None \<Rightarrow> None
      | Some sc \<Rightarrow>
          let d1 = d\<lparr>bd_scanned := bd_scanned d + sc_scanned sc, bd_truncated := bd_truncated d \<or> sc_truncated sc\<rparr> in
          collect_prefixes R scan_keys sh sample_limit raw s pfxs
            (fold (binding_step R sh sample_limit raw s pfx) (sc_keys sc) (seen, d1)))"

definition collect_bindings ::
  "'s redis \<Rightarrow> (string \<Rightarrow> scan option) \<Rightarrow> 'a config_scheme \<Rightarrow> nat \<Rightarrow> snapshot \<Rightarrow> 's \<Rightarrow> binding_diagnostics option" where
  "collect_bindings R scan_keys A sample_limit raw s =
     collect_prefixes R scan_keys (shared A) sample_limit raw s [soft_bind_prefix A, soft_bind_lock_prefix A]
       ([], \<lparr>bd_total = 0, bd_stale = 0, bd_scanned = 0, bd_truncated = False, bd_samples = []\<rparr>)"

definition orphan_step ::
  "'a config_scheme \<Rightarrow> nat \<Rightarrow> snapshot \<Rightarrow> string \<Rightarrow> orphan_diagnostics \<Rightarrow> orphan_diagnostics" where
  "orphan_step A sample_limit raw lock_key d =
     (let pool_key = drop (length (diag_key_str A '''')) lock_key in
      if take (length (soft_bind_prefix A)) pool_key = soft_bind_prefix A then d
      else if entry_of raw pool_key = None then
        d\<lparr>od_count := od_count d + 1,
          od_samples := (if length (od_samples d) < sample_limit then od_samples d @ [lock_key] else od_samples d)\<rparr>
      else d)"

definition collect_orphans :: "(string \<Rightarrow> scan option) \<Rightarrow> 'a config_scheme \<Rightarrow> nat \<Rightarrow> snapshot \<Rightarrow> orphan_diagnostics option" where
  "collect_orphans scan_keys A sample_limit raw =
     map_option
       (\<lambda>sc. fold (orphan_step A sample_limit raw) (sc_keys sc)
          \<lparr>od_count = 0, od_scanned = sc_scanned sc, od_truncated = sc_truncated sc, od_samples = []\<rparr>)
       (scan_keys (diag_key_str A '''' @ ''*''))"

end
