(* ===== verification/Diagnostics_Proofs.thy ===== *)
theory Diagnostics_Proofs
  imports Collector Allocator_Refine
begin

text \<open>
  The checker against the allocator. A snapshot is \<open>linked\<close> along a free list when its pointers and
  entries are those of the list, and \<open>consistent\<close> with it when moreover no key of the list is locked. Of a
  linked snapshot the checker reports exactly the locked free keys, and what it accepts is consistent, up
  to one case it does not look at: a head pointer at an allocated entry.
\<close>

section \<open>Parsing what the scripts wrote\<close>

definition ends_bar :: "string \<Rightarrow> bool" where
  "ends_bar k = (k \<noteq> '''' \<and> last k = CHR ''|'')"

lemma split_first_sep:
  "\<not> contains_sep p \<Longrightarrow> \<not> ends_bar p \<Longrightarrow> split_first (p @ POOL_VALUE_SEP @ n) = Some (p, n)"
proof (induction p)
  case Nil
  then show ?case by (simp add: POOL_VALUE_SEP_def starts_sep_iff starts_bar_def)
next
  case (Cons c p)
  have "\<not> starts_sep (c # p @ POOL_VALUE_SEP @ n)"
    using Cons.prems by (cases p) (auto simp: starts_sep_iff starts_bar_def ends_bar_def)
  moreover have "\<not> contains_sep p" "\<not> ends_bar p"
    using Cons.prems by (auto simp: contains_sep_Cons ends_bar_def split: if_splits)
  ultimately show ?case using Cons.IH by (simp del: split_first.simps(2) add: split_first.simps(2) [of c])
qed

lemma parse_join:
  assumes "\<not> contains_sep p" and "\<not> ends_bar p" and "rd_int (tostring e) = Some e"
  shows "parse_pool_entry rd_int (join_pool_value (Some p) (Some n) (Some e)) = \<lparr>pe_prev = p, pe_next = n, pe_expiry = e\<rparr>"
proof -
  have "rpartition (join_pool_value (Some p) (Some n) (Some e)) = (p @ POOL_VALUE_SEP @ n, tostring e)"
    using split_last_sep [OF tostring_no_bar, of "p @ POOL_VALUE_SEP @ n" e]
    by (simp add: rpartition_def join_pool_value_def lua_str_def)
  with assms show ?thesis
    by (simp add: parse_pool_entry_def partition_sep_def split_first_sep)
qed

section \<open>The walk along a list\<close>

lemma walk_list:
  assumes d: "distinct fl" and ne: "'''' \<notin> set fl"
    and step: "\<And>k. k \<in> set fl \<Longrightarrow> \<exists>e. entry_of sn k = Some e \<and> \<not> is_allocated_marker e \<and> link e = nxt fl k"
  shows "fl = us @ vs \<Longrightarrow> length vs < n \<Longrightarrow> walk n link sn us (rev us) (hd0 vs) = (fl, None)"
proof (induction vs arbitrary: us n)
  case Nil
  then show ?case by (cases n) simp_all
next
  case (Cons k vs)
  then obtain m where m: "n = Suc m" "length vs < m" by (cases n) auto
  from Cons.prems have k: "k \<in> set fl" "k \<notin> set us" using d by auto
  with step obtain e where e: "entry_of sn k = Some e" "\<not> is_allocated_marker e" "link e = nxt fl k" by blast
  have "nxt fl k = hd0 vs" using Cons.prems(1) k(2) by (simp add: nxt_at)
  moreover have "walk m link sn (us @ [k]) (rev (us @ [k])) (hd0 vs) = (fl, None)"
    by (rule Cons.IH) (use Cons.prems(1) m(2) in simp_all)
  moreover have "k \<noteq> ''''" using k(1) ne by metis
  ultimately show ?case using m(1) e k(2) by simp
qed

section \<open>Consistent snapshots pass\<close>

definition linked :: "snapshot \<Rightarrow> string list \<Rightarrow> bool" where
  "linked sn fl \<longleftrightarrow> distinct fl \<and> '''' \<notin> set fl \<and> distinct (map fst (entries sn)) \<and>
     sn_head sn = hd0 fl \<and> sn_tail sn = last0 fl \<and> (\<forall>k\<in>set fl. entry_of sn k \<noteq> None) \<and>
     (\<forall>k e. entry_of sn k = Some e \<longrightarrow> (pe_prev e, pe_next e) = link_of fl k) \<and> ALLOCATED_SENTINEL \<notin> set fl"

definition consistent :: "snapshot \<Rightarrow> string list \<Rightarrow> bool" where
  "consistent sn fl \<longleftrightarrow> linked sn fl \<and> (\<forall>k\<in>set fl. \<not> locked_in sn k)"

lemma linked_entry:
  assumes "linked sn fl" and "entry_of sn k = Some e"
  shows "is_allocated_marker e \<longleftrightarrow> k \<notin> set fl" and "k \<in> set fl \<Longrightarrow> pe_prev e = prv fl k \<and> pe_next e = nxt fl k"
proof -
  have link: "(pe_prev e, pe_next e) = link_of fl k" and s: "ALLOCATED_SENTINEL \<notin> set fl"
    using assms unfolding linked_def by blast+
  show "k \<in> set fl \<Longrightarrow> pe_prev e = prv fl k \<and> pe_next e = nxt fl k" using link by (simp add: link_of_def)
  show "is_allocated_marker e \<longleftrightarrow> k \<notin> set fl"
    using link s prv_mem [of fl k] valid_sentinel_link(3)
    by (auto simp: is_allocated_marker_def link_of_def split: if_splits)
qed

lemma linked_walks:
  assumes c: "linked sn fl"
  shows "walk_forward sn = (fl, None)" and "walk_backward sn = (fl, None)"
proof -
  have d: "distinct fl" "'''' \<notin> set fl" and mem: "\<And>k. k \<in> set fl \<Longrightarrow> entry_of sn k \<noteq> None"
    and ends: "sn_head sn = hd0 fl" "sn_tail sn = last0 fl"
    using c unfolding linked_def by blast+
  have "set fl \<subseteq> set (map fst (entries sn))"
    using mem by (metis entry_of_def map_of_eq_None_iff set_map subsetI)
  then have "card (set fl) \<le> length (entries sn)"
    using card_mono [of "set (map fst (entries sn))"] card_length [of "map fst (entries sn)"]
    by (metis List.finite_set le_trans length_map)
  then have len: "length fl < length (entries sn) + 1" using d(1) by (simp add: distinct_card)
  have "\<exists>e. entry_of sn k = Some e \<and> \<not> is_allocated_marker e \<and> pe_next e = nxt fl k \<and> pe_prev e = nxt (rev fl) k"
    if "k \<in> set fl" for k
    using mem [OF that] linked_entry [OF c] that by (cases "entry_of sn k") (auto simp: prv_def)
  note step = this
  have "walk (length (entries sn) + 1) pe_next sn [] (rev []) (hd0 fl) = (fl, None)"
    by (rule walk_list [OF d]) (use step len in auto)
  then show "walk_forward sn = (fl, None)"
    using ends d(2) by (cases fl) (auto simp: walk_forward_def)
  have "walk (length (entries sn) + 1) pe_prev sn [] (rev []) (hd0 (rev fl)) = (rev fl, None)"
    by (rule walk_list) (use d step len in auto)
  then show "walk_backward sn = (fl, None)"
    using ends hd0_rev [of fl] last0_in_set [of fl] d(2)
    by (cases "fl = []") (auto simp: walk_backward_def)
qed

lemma concat_single: "(\<And>x. x \<in> set xs \<Longrightarrow> f x = (if P x then [g x] else [])) \<Longrightarrow> concat (map f xs) = map g (filter P xs)"
  by (induction xs) auto

lemma linked_pointers:
  assumes c: "linked sn fl"
  shows "head_violations sn = []" and "tail_violations sn = []" and "(sn_head sn \<noteq> '''') = (sn_tail sn \<noteq> '''')"
proof -
  have d: "distinct fl" "'''' \<notin> set fl" and ends: "sn_head sn = hd0 fl" "sn_tail sn = last0 fl"
    and mem: "\<And>k. k \<in> set fl \<Longrightarrow> entry_of sn k \<noteq> None"
    using c unfolding linked_def by blast+
  show "head_violations sn = []"
  proof (cases fl)
    case (Cons k vs)
    then obtain e where e: "entry_of sn k = Some e" using mem [of k] by auto
    then have "pe_prev e = ''''" using linked_entry(2) [OF c e] prv_hd [of fl] d(1) Cons by simp
    with Cons e ends(1) show ?thesis by (simp add: head_violations_def)
  qed (simp add: head_violations_def ends(1))
  show "tail_violations sn = []"
  proof (cases fl rule: rev_cases)
    case (snoc us k)
    then obtain e where e: "entry_of sn k = Some e" using mem [of k] by auto
    then have "pe_next e = ''''" using linked_entry(2) [OF c e] nxt_last [of fl] d(1) snoc by simp
    with snoc e ends(2) show ?thesis by (simp add: tail_violations_def)
  qed (simp add: tail_violations_def ends(2))
  show "(sn_head sn \<noteq> '''') = (sn_tail sn \<noteq> '''')"
    using ends d(2) hd0_in_set [of fl] last0_in_set [of fl] by (cases "fl = []") auto
qed

lemma linked_entry_violations:
  assumes c: "linked sn fl" and e: "entry_of sn k = Some e"
  shows "entry_violations sn k e = (if k \<in> set fl \<and> locked_in sn k then [FreeLocked k] else [])"
proof -
  have "(pe_prev e, pe_next e) = link_of fl k" "ALLOCATED_SENTINEL \<notin> set fl"
    using c e unfolding linked_def by blast+
  then have "pe_prev e = ALLOCATED_SENTINEL \<longleftrightarrow> pe_next e = ALLOCATED_SENTINEL"
    using prv_mem [of fl k] nxt_mem [of fl k] valid_sentinel_link(3)
    by (auto simp: link_of_def split: if_splits)
  then show ?thesis
    using linked_entry(1) [OF c e] by (auto simp: entry_violations_def is_free_node_def)
qed

lemma linked_violations:
  assumes c: "linked sn fl" and plain: "\<And>k. k \<in> set fl \<Longrightarrow> take 1 k \<noteq> ''<''"
  shows "check_invariants sn = map FreeLocked (filter (\<lambda>k. k \<in> set fl \<and> locked_in sn k) (map fst (entries sn)))"
proof -
  have ends: "sn_head sn = hd0 fl" "sn_tail sn = last0 fl"
    and mem: "\<And>k. k \<in> set fl \<Longrightarrow> entry_of sn k \<noteq> None" and dk: "distinct (map fst (entries sn))"
    using c unfolding linked_def by blast+
  have in_entries: "(k, e) \<in> set (entries sn) \<longleftrightarrow> entry_of sn k = Some e" for k e
    using dk by (simp add: entry_of_def)
  have "set (free_via_entries sn) = set fl"
    using linked_entry(1) [OF c] mem in_entries
    by (fastforce simp: free_via_entries_def is_free_node_def image_iff)
  moreover have "free_via_walk fl = fl" using plain by (simp add: free_via_walk_def filter_id_conv)
  moreover have "concat (map (\<lambda>(key, e). entry_violations sn key e) (entries sn)) =
      map (FreeLocked \<circ> fst) (filter ((\<lambda>k. k \<in> set fl \<and> locked_in sn k) \<circ> fst) (entries sn))"
    using linked_entry_violations [OF c] in_entries
    by (subst concat_single [where g = "FreeLocked \<circ> fst" and P = "(\<lambda>k. k \<in> set fl \<and> locked_in sn k) \<circ> fst"]) auto
  moreover have "entries sn = [] \<Longrightarrow> fl = []" using mem by (cases fl) (auto simp: entry_of_def)
  ultimately show ?thesis
    using linked_walks [OF c] linked_pointers [OF c] ends by (auto simp: check_invariants_def cycle_violations_def filter_map)
qed

section \<open>The snapshot of a live allocator\<close>

definition reads_decimals :: "(string \<Rightarrow> int option) \<Rightarrow> bool" where
  "reads_decimals rd_int \<longleftrightarrow> (\<forall>i. rd_int (tostring i) = Some i)"

lemma map_of_rows:
  "map_of (map (\<lambda>(key, val). (key, f key val)) xs) k = map_option (f k) (map_of xs k)"
  by (induction xs) auto

lemma key_prefix: "key_str A '''' @ k = key_str A k"
  by (simp add: key_str_def)

context redis_server
begin

lemma collect_sel:
  "sn_head (collect_raw_pool R rd_int clk A s) = (case r_get R (pool_pointer_str A True) s of None \<Rightarrow> '''' | Some h \<Rightarrow> h)"
  "sn_tail (collect_raw_pool R rd_int clk A s) = (case r_get R (pool_pointer_str A False) s of None \<Rightarrow> '''' | Some h \<Rightarrow> h)"
  "entries (collect_raw_pool R rd_int clk A s) =
     map (\<lambda>(key, val). (key, parse_pool_entry rd_int val)) (r_hgetall R (pool_str A) s)"
  "lock_keys (collect_raw_pool R rd_int clk A s) =
     map (\<lambda>(key, val). (key, r_exists R (key_str A key) s)) (r_hgetall R (pool_str A) s)"
  "lock_ttls (collect_raw_pool R rd_int clk A s) =
     map (\<lambda>(key, val). (key, r_ttl R (key_str A key) s)) (r_hgetall R (pool_str A) s)"
  "sn_now (collect_raw_pool R rd_int clk A s) = (if r_time R s = 0 then py_int clk else r_time R s)"
  by (simp_all add: collect_raw_pool_def snapshot_script_def snapshot_row_def key_prefix comp_def split_beta Let_def)

lemma collect_entries:
  assumes rep: "rep A (view s) p"
  shows "entry_of (collect_raw_pool R rd_int clk A s) k =
      map_option (parse_pool_entry rd_int) (enc_pool (free p) (members p) k)"
    and "locked_in (collect_raw_pool R rd_int clk A s) k = (k \<in> dom (members p) \<and> alock p k \<noteq> None)"
proof -
  have h: "map_of (r_hgetall R (pool_str A) s) = enc_pool (free p) (members p)"
    using hgetall [OF typed_keys(1) [OF repD(1) [OF rep]]] repD(2) [OF rep] by (metis av_sel(1) conc_sel(1))
  then show "entry_of (collect_raw_pool R rd_int clk A s) k =
      map_option (parse_pool_entry rd_int) (enc_pool (free p) (members p) k)"
    by (simp add: entry_of_def collect_sel map_of_rows)
  show "locked_in (collect_raw_pool R rd_int clk A s) k = (k \<in> dom (members p) \<and> alock p k \<noteq> None)"
    by (cases "members p k") (simp_all add: locked_in_def collect_sel map_of_rows h enc_pool_def rep_reads(2) [OF rep] domIff)
qed

lemma parse_enc:
  assumes wf: "wf_pool p" and bar: "\<And>k. k \<in> set (free p) \<Longrightarrow> \<not> ends_bar k" and rd: "reads_decimals rd_int"
  shows "parse_pool_entry rd_int (enc (free p) k e) =
    \<lparr>pe_prev = fst (link_of (free p) k), pe_next = snd (link_of (free p) k), pe_expiry = e\<rparr>"
proof -
  have "fst (link_of (free p) k) = '''' \<or> fst (link_of (free p) k) = ALLOCATED_SENTINEL \<or> fst (link_of (free p) k) \<in> set (free p)"
    using prv_mem [of "free p" k] by (auto simp: link_of_def)
  then have "\<not> contains_sep (fst (link_of (free p) k))" "\<not> ends_bar (fst (link_of (free p) k))"
    using bar valid_sentinel_link(1) wf_poolD(2,4) [OF wf] safe_key_link(1)
    by (auto simp: ends_bar_def ALLOCATED_SENTINEL_def)
  from parse_join [OF this] rd show ?thesis by (simp add: enc_def reads_decimals_def)
qed

lemma collect_linked:
  assumes rep: "rep A (view s) p" and bar: "\<And>k. k \<in> set (free p) \<Longrightarrow> \<not> ends_bar k"
    and rd: "reads_decimals rd_int"
  shows "linked (collect_raw_pool R rd_int clk A s) (free p)"
proof -
  note wf = repD(3) [OF rep] and t = repD(1) [OF rep]
  have ends: "sn_head (collect_raw_pool R rd_int clk A s) = hd0 (free p)"
    "sn_tail (collect_raw_pool R rd_int clk A s) = last0 (free p)"
    using read_simps(2,3) [OF t] repD(2) [OF rep]
    by (simp_all add: collect_sel current_head_def current_tail_def current_pointer_def del: av_sel)
  have "distinct (map fst (entries (collect_raw_pool R rd_int clk A s)))"
    using hgetall_distinct by (simp add: collect_sel comp_def split_beta)
  moreover have "entry_of (collect_raw_pool R rd_int clk A s) k \<noteq> None"
    if "k \<in> set (free p)" for k
    using that wf_poolD(2) [OF wf that]
    by (auto simp: collect_entries [OF rep] enc_pool_def)
  moreover have "(pe_prev e, pe_next e) = link_of (free p) k"
    if "entry_of (collect_raw_pool R rd_int clk A s) k = Some e" for k e
    using that parse_enc [OF wf bar rd] by (auto simp: collect_entries [OF rep] enc_pool_def)
  ultimately show ?thesis
    using ends wf_poolD(1,5,6) [OF wf] by (simp add: linked_def)
qed

end

section \<open>What the checker accepts\<close>

text \<open>A walk without a cycle: a path of entries, ending at the empty pointer or at a marker.\<close>

lemma walk_shape:
  assumes "walk n link sn vis seen c = (L, None)" and "set seen = set vis" and "distinct vis"
  shows "\<exists>path. distinct (vis @ path) \<and>
     (\<forall>k\<in>set path. k \<noteq> '''' \<and> (\<exists>e. entry_of sn k = Some e \<and> \<not> is_allocated_marker e)) \<and>
     (L = vis @ path \<and> c = hd0 path \<and> (\<forall>k\<in>set path. \<exists>e. entry_of sn k = Some e \<and> link e = nxt path k) \<or>
      (\<exists>m. L = vis @ path @ [m] \<and> take 1 m = ''<'' \<and>
         (path = [] \<longrightarrow> entry_of sn c = None \<or> (\<exists>e. entry_of sn c = Some e \<and> is_allocated_marker e))))"
  using assms
proof (induction n arbitrary: vis seen c)
  case 0
  then show ?case by simp
next
  case (Suc n)
  note step = Suc.prems(1) [simplified]
  show ?case
  proof (cases "c = ''''")
    case True
    with step Suc.prems(3) show ?thesis by (intro exI [of _ "[]"]) simp
  next
    case False
    then have nseen: "c \<notin> set seen" using step by (auto split: if_splits)
    show ?thesis
    proof (cases "entry_of sn c")
      case None
      with step False nseen Suc.prems(3) show ?thesis
        by (intro exI [of _ "[]"]) auto
    next
      case (Some e)
      show ?thesis
      proof (cases "is_allocated_marker e")
        case True
        with Some step False nseen Suc.prems(3) show ?thesis by (intro exI [of _ "[]"]) auto
      next
        case nm: False
        with Some step False nseen have "walk n link sn (vis @ [c]) (c # seen) (link e) = (L, None)" by simp
        moreover have "set (c # seen) = set (vis @ [c])" "distinct (vis @ [c])"
          using Suc.prems(2,3) nseen by auto
        ultimately obtain path where path: "distinct ((vis @ [c]) @ path)"
          "\<forall>k\<in>set path. k \<noteq> '''' \<and> (\<exists>e. entry_of sn k = Some e \<and> \<not> is_allocated_marker e)"
          and L: "L = (vis @ [c]) @ path \<and> link e = hd0 path \<and> (\<forall>k\<in>set path. \<exists>e. entry_of sn k = Some e \<and> link e = nxt path k) \<or>
            (\<exists>m. L = (vis @ [c]) @ path @ [m] \<and> take 1 m = ''<'')"
          using Suc.IH by blast
        have "\<forall>k\<in>set (c # path). \<exists>e. entry_of sn k = Some e \<and> link e = nxt (c # path) k"
          if "link e = hd0 path" "\<forall>k\<in>set path. \<exists>e. entry_of sn k = Some e \<and> link e = nxt path k"
          using that Some path(1) by auto
        with path L Some nm False show ?thesis
          by (intro exI [of _ "c # path"]) auto
      qed
    qed
  qed
qed

lemma no_violations:
  assumes "check_invariants sn = []"
  obtains L where "walk_forward sn = (L, None)" "walk_backward sn = (L, None)"
    "set (free_via_walk L) = set (free_via_entries sn)"
    "entries sn = [] \<Longrightarrow> sn_head sn = '''' \<and> sn_tail sn = ''''"
    "entries sn \<noteq> [] \<Longrightarrow> head_violations sn = [] \<and> (sn_head sn = '''') = (sn_tail sn = '''')"
    "\<And>k e. (k, e) \<in> set (entries sn) \<Longrightarrow> entry_violations sn k e = []"
proof -
  obtain f fc b bc where w: "walk_forward sn = (f, fc)" "walk_backward sn = (b, bc)" by fastforce
  have cyc: "cycle_violations v c = [] \<longleftrightarrow> c = None" for v c by (cases c) (simp_all add: cycle_violations_def)
  show thesis
  proof (rule that)
    show "walk_forward sn = (f, None)" "walk_backward sn = (f, None)"
      using assms w cyc by (auto simp: check_invariants_def Let_def split: if_splits)
    show "set (free_via_walk f) = set (free_via_entries sn)"
      using assms w by (auto simp: check_invariants_def Let_def split: if_splits)
    show "entries sn = [] \<Longrightarrow> sn_head sn = '''' \<and> sn_tail sn = ''''"
      using assms w by (auto simp: check_invariants_def Let_def split: if_splits)
    show "entries sn \<noteq> [] \<Longrightarrow> head_violations sn = [] \<and> (sn_head sn = '''') = (sn_tail sn = '''')"
      using assms w by (auto simp: check_invariants_def Let_def split: if_splits)
    show "\<And>k e. (k, e) \<in> set (entries sn) \<Longrightarrow> entry_violations sn k e = []"
      using assms w by (auto simp: check_invariants_def Let_def split: if_splits)
  qed
qed

text \<open>The head pointer must not lead to an allocated entry: the one fault the checker overlooks.\<close>

definition head_not_allocated :: "snapshot \<Rightarrow> bool" where
  "head_not_allocated sn \<longleftrightarrow> (\<forall>e. entry_of sn (sn_head sn) = Some e \<longrightarrow> \<not> is_allocated_marker e)"

definition plain_keys :: "snapshot \<Rightarrow> bool" where
  "plain_keys sn \<longleftrightarrow> (\<forall>k. entry_of sn k \<noteq> None \<longrightarrow> take 1 k \<noteq> ''<'')"

lemma accepted_walk:
  assumes ok: "check_invariants sn = []" and plain: "plain_keys sn"
    and head: "head_not_allocated sn"
  shows "\<exists>fl. walk_forward sn = (fl, None) \<and> walk_backward sn = (fl, None) \<and> distinct fl \<and> '''' \<notin> set fl \<and>
     sn_head sn = hd0 fl \<and> sn_tail sn = last0 fl \<and>
     (\<forall>k\<in>set fl. \<exists>e. entry_of sn k = Some e \<and> \<not> is_allocated_marker e \<and> pe_next e = nxt fl k \<and> pe_prev e = prv fl k)"
proof -
  from ok obtain L where L: "walk_forward sn = (L, None)" "walk_backward sn = (L, None)"
    and hv: "entries sn = [] \<Longrightarrow> sn_head sn = '''' \<and> sn_tail sn = ''''"
      "entries sn \<noteq> [] \<Longrightarrow> head_violations sn = [] \<and> (sn_head sn = '''') = (sn_tail sn = '''')"
    by (rule no_violations) blast
  show ?thesis
  proof (cases "sn_head sn = ''''")
    case True
    with hv have "sn_tail sn = ''''" by (cases "entries sn = []") auto
    with True L show ?thesis by (auto simp: walk_forward_def walk_backward_def)
  next
    case False
    with hv have tail: "sn_tail sn \<noteq> ''''" and "head_violations sn = []" by (cases "entries sn = []"; auto)+
    then have he: "entry_of sn (sn_head sn) \<noteq> None" using False by (auto simp: head_violations_def split: option.splits)
    let ?n = "length (entries sn) + 1"
    obtain B where B: "walk ?n pe_prev sn [] [] (sn_tail sn) = (B, None)" "L = rev B"
      using L(2) tail by (auto simp: walk_backward_def split: prod.splits)
    from walk_shape [OF B(1)] obtain bp where bp: "distinct bp"
      "\<forall>k\<in>set bp. k \<noteq> '''' \<and> (\<exists>e. entry_of sn k = Some e \<and> \<not> is_allocated_marker e)"
      and Bcase: "B = bp \<and> sn_tail sn = hd0 bp \<and> (\<forall>k\<in>set bp. \<exists>e. entry_of sn k = Some e \<and> pe_prev e = nxt bp k) \<or>
        (\<exists>m. B = bp @ [m] \<and> take 1 m = ''<'')" by auto
    have F: "walk ?n pe_next sn [] [] (sn_head sn) = (L, None)" using L(1) False by (simp add: walk_forward_def)
    from walk_shape [OF F] obtain fp where fp: "distinct fp"
      "\<forall>k\<in>set fp. k \<noteq> '''' \<and> (\<exists>e. entry_of sn k = Some e \<and> \<not> is_allocated_marker e)"
      and Fcase: "L = fp \<and> sn_head sn = hd0 fp \<and> (\<forall>k\<in>set fp. \<exists>e. entry_of sn k = Some e \<and> pe_next e = nxt fp k) \<or>
        (\<exists>m. L = fp @ [m] \<and> take 1 m = ''<'' \<and> fp \<noteq> [])"
      using he head by (auto simp: head_not_allocated_def)
    have plainp: "k \<in> set fp \<or> k \<in> set bp \<Longrightarrow> take 1 k \<noteq> ''<''" for k using fp(2) bp(2) plain unfolding plain_keys_def by blast
    from Fcase have fwd: "L = fp \<and> sn_head sn = hd0 fp \<and> (\<forall>k\<in>set fp. \<exists>e. entry_of sn k = Some e \<and> pe_next e = nxt fp k)"
    proof
      assume "\<exists>m. L = fp @ [m] \<and> take 1 m = ''<'' \<and> fp \<noteq> []"
      then obtain m where m: "L = fp @ [m]" "take 1 m = ''<''" "fp \<noteq> []" by blast
      then have "B = m # rev fp" using B(2) by (metis rev.simps(2) rev_rev_ident rev_append append_Cons append_Nil rev_singleton_conv)
      with Bcase m plainp show ?thesis by (cases bp) auto
    qed blast
    from Bcase have bwd: "B = bp \<and> sn_tail sn = hd0 bp \<and> (\<forall>k\<in>set bp. \<exists>e. entry_of sn k = Some e \<and> pe_prev e = nxt bp k)"
    proof
      assume "\<exists>m. B = bp @ [m] \<and> take 1 m = ''<''"
      then obtain m where m: "B = bp @ [m]" "take 1 m = ''<''" by blast
      then have "m \<in> set fp" using B(2) fwd by (metis in_set_conv_decomp set_rev)
      with m(2) plainp show ?thesis by blast
    qed blast
    have "bp = rev fp" using B(2) fwd bwd by (metis rev_rev_ident)
    with fwd bwd fp bp show ?thesis using L hd0_rev [of fp] by (intro exI [of _ fp]) (fastforce simp: prv_def)
  qed
qed

text \<open>
  What the checker accepts is the encoding of a free list of unlocked members, for dictionaries without
  a repeated key and keys that neither start with an angle bracket nor are the sentinel.
\<close>

lemma accepted_consistent:
  assumes ok: "check_invariants sn = []" and plain: "plain_keys sn"
    and head: "head_not_allocated sn" and dk: "distinct (map fst (entries sn))"
    and sent: "entry_of sn ALLOCATED_SENTINEL = None"
  shows "\<exists>fl. consistent sn fl"
proof -
  from accepted_walk [OF ok plain head] obtain fl where
    fl: "walk_forward sn = (fl, None)" "distinct fl" "'''' \<notin> set fl" "sn_head sn = hd0 fl" "sn_tail sn = last0 fl"
    "\<forall>k\<in>set fl. \<exists>e. entry_of sn k = Some e \<and> \<not> is_allocated_marker e \<and> pe_next e = nxt fl k \<and> pe_prev e = prv fl k"
    by blast
  from ok obtain L where "walk_forward sn = (L, None)" and sets: "set (free_via_walk L) = set (free_via_entries sn)"
    and ev: "\<And>k e. (k, e) \<in> set (entries sn) \<Longrightarrow> entry_violations sn k e = []" by (rule no_violations) blast
  with fl(1) have "L = fl" by simp
  have in_entries: "(k, e) \<in> set (entries sn) \<longleftrightarrow> entry_of sn k = Some e" for k e
    using dk by (simp add: entry_of_def)
  have "free_via_walk fl = fl"
    using fl(6) plain by (auto simp: free_via_walk_def filter_id_conv plain_keys_def)
  with sets \<open>L = fl\<close> have free: "set fl = set (free_via_entries sn)" by simp
  have "k \<in> set fl \<longleftrightarrow> is_free_node e" if e: "entry_of sn k = Some e" for k e
  proof
    show "k \<in> set fl \<Longrightarrow> is_free_node e" using fl(6) e by (auto simp: is_free_node_def)
    show "is_free_node e \<Longrightarrow> k \<in> set fl"
      using e in_entries free by (force simp: free_via_entries_def image_iff)
  qed
  note mem = this
  have "(pe_prev e, pe_next e) = link_of fl k" if e: "entry_of sn k = Some e" for k e
    using mem [OF e] fl(6) e by (auto simp: link_of_def is_free_node_def is_allocated_marker_def)
  moreover have "entry_of sn k \<noteq> None \<and> \<not> locked_in sn k" if k: "k \<in> set fl" for k
  proof -
    from fl(6) k obtain e where e: "entry_of sn k = Some e" "\<not> is_allocated_marker e" by blast
    with ev [of k e] in_entries have "entry_violations sn k e = []" by simp
    with e show ?thesis by (auto simp: entry_violations_def is_free_node_def split: if_splits)
  qed
  moreover have "ALLOCATED_SENTINEL \<notin> set fl" using fl(6) sent by auto
  ultimately show ?thesis using fl(2-5) dk by (auto simp: consistent_def linked_def)
qed

end
