(* ===== verification/Examples.thy ===== *)
theory Examples
  imports Mem_Redis Policy_Proofs Task_Queue Thread_Lock Diagnostics_Proofs
begin

text \<open>
  Concrete instances and states on the in-memory server, for the theorems that apply a property at an
  input. \<open>demo\<close> is an exclusive allocator, \<open>demo_shared\<close> a shared one; the pool holds \<open>a\<close>, \<open>b\<close> and \<open>c\<close>.
\<close>

lemmas mem_server = mem.redis_server_axioms

definition demo :: config where
  "demo = \<lparr>prefix = ''p'', suffix = ''s'', shared = False\<rparr>"

definition demo_shared :: config where
  "demo_shared = \<lparr>prefix = ''p'', suffix = ''s'', shared = True\<rparr>"

definition empty_store :: "int \<Rightarrow> mem" where
  "empty_store t = \<lparr>m_now = t, m_objs = []\<rparr>"

definition demo_pool :: mem where
  "demo_pool = final_state (extend_pool mem_redis demo (Some (map PyStr [''a'', ''b'', ''c''])) None (empty_store 5000))"

text \<open>After one allocation: \<open>a\<close> is locked for ten seconds.\<close>

definition demo_taken :: mem where
  "demo_taken = final_state (malloc_key mem_redis demo 0 (Seconds 10) None NoTimeout demo_pool)"

lemma typed_empty: "typed A (mem_view (empty_store t))"
  by (simp add: typed_def str_key_def hash_key_def empty_store_def m_str_def m_hash_def m_set_def m_list_def
      m_obj_def fun_eq_iff)

lemma rep_empty: "rep A (mem_view (empty_store t))
   \<lparr>free = [], members = Map.empty, alock = Map.empty, abind = Map.empty, anow = t\<rparr>"
  by (simp add: rep_def typed_empty)
    (auto simp: av_def conc_def ptr_def enc_pool_def wf_pool_def fun_eq_iff empty_store_def m_str_def m_hash_def m_obj_def)

lemma good_empty: "good mem_view A (empty_store t)"
  using rep_empty [of A t] by (auto simp: good_def)

lemma safe_demo_keys: "safe_key ''a''" "safe_key ''b''" "safe_key ''c''" "safe_key ''d''"
  by code_simp+

lemma good_demo: "good mem_view demo demo_pool"
proof -
  have "\<forall>k\<in>set [''a'', ''b'', ''c'']. safe_key k" using safe_demo_keys by simp
  from redis_server.allocator_extend [OF mem_server good_empty this, where t = None] obtain s' where
    "extend_pool mem_redis demo (Some (map PyStr [''a'', ''b'', ''c''])) None (empty_store 5000) = Done () s'"
    "good mem_view demo s'" by blast
  then show ?thesis unfolding demo_pool_def by (simp only: final_state.simps)
qed

lemma table_order_id: "table_order (\<lambda>xs. xs)"
  by (simp add: table_order_def)

lemma demo_taken_run: "malloc_key mem_redis demo 0 (Seconds 10) None NoTimeout demo_pool = Done (Some ''a'') demo_taken"
proof -
  have "case malloc_key mem_redis demo 0 (Seconds 10) None NoTimeout demo_pool of Done r s \<Rightarrow> r = Some ''a'' | Abort e s \<Rightarrow> False"
    by code_simp
  then show ?thesis by (simp add: demo_taken_def split: outcome.splits)
qed

lemma good_taken: "good mem_view demo demo_taken"
  by (rule redis_server.trace_good [OF mem_server alloc_trace.trace_step [OF alloc_trace.trace_nil
      alloc_step.step_malloc [OF demo_taken_run]] good_demo table_order_id])

text \<open>A second allocation, then three seconds pass.\<close>

definition demo_two :: mem where
  "demo_two = final_state (malloc_key mem_redis demo 0 (Seconds 10) None NoTimeout demo_taken)"

definition demo_more :: mem where
  "demo_more = final_state (extend_pool mem_redis demo (Some [PyStr ''a'', PyStr ''d'']) (Some (-1)) demo_two)"

definition demo_later :: mem where
  "demo_later = mem_elapse 3000 demo_more"

lemma demo_two_run: "malloc_key mem_redis demo 0 (Seconds 10) None NoTimeout demo_taken = Done (Some ''b'') demo_two"
proof -
  have "case malloc_key mem_redis demo 0 (Seconds 10) None NoTimeout demo_taken of Done r s \<Rightarrow> r = Some ''b'' | Abort e s \<Rightarrow> False"
    by code_simp
  then show ?thesis by (simp add: demo_two_def split: outcome.splits)
qed

lemma demo_more_step: "alloc_step mem_redis mem_view demo 0 (\<lambda>xs. xs) demo_two (Extended [''a'', ''d'']) demo_more"
  using alloc_step.step_extend [of "[PyStr ''a'', PyStr ''d'']" mem_redis mem_view demo 0 "\<lambda>xs. xs" demo_two "Some (-1)"]
  by (simp add: demo_more_def no_bars_def starts_bar_def)

lemma demo_elapse: "typed demo (mem_view demo_later)" "av demo (mem_view demo_later) = av demo (elapse 3000 (mem_view demo_more))"
proof -
  have "good mem_view demo demo_more"
    by (rule redis_server.trace_good [OF mem_server alloc_trace.trace_step [OF alloc_trace.trace_step [OF alloc_trace.trace_nil
        alloc_step.step_malloc [OF demo_two_run]] demo_more_step] good_taken table_order_id])
  then obtain p where "rep demo (mem_view demo_more) p" by (auto simp: good_def)
  from repD(1) [OF rep_elapse [OF this]] show "typed demo (mem_view demo_later)"
    by (simp add: demo_later_def view_elapse)
  show "av demo (mem_view demo_later) = av demo (elapse 3000 (mem_view demo_more))"
    by (simp add: demo_later_def view_elapse)
qed

lemma demo_env: "alloc_step mem_redis mem_view demo 0 (\<lambda>xs. xs) demo_more (Elapsed 3000) demo_later"
  by (rule alloc_step.step_env) (simp_all add: demo_elapse)

text \<open>Another client takes \<open>b\<close>, the pool is extended by \<open>a\<close>, which is in use, and \<open>d\<close>, and time passes.\<close>

lemma demo_calm: "calm_trace mem_redis mem_view demo 0 (\<lambda>xs. xs) ''a'' demo_taken
    [Allocated (Some ''b''), Extended [''a'', ''d''], Elapsed 3000] demo_later"
proof -
  have "contains mem_redis demo ''a'' demo_two" by code_simp
  then have "\<not> disturbs mem_redis demo ''a'' demo_two (Extended [''a'', ''d''])" by (simp add: disturbs_def)
  moreover have "\<not> disturbs mem_redis demo ''a'' demo_taken (Allocated (Some ''b''))"
    "\<not> disturbs mem_redis demo ''a'' demo_more (Elapsed 3000)" by (simp_all add: disturbs_def touches_def)
  ultimately show ?thesis
    using calm_trace.calm_step [OF calm_trace.calm_step [OF calm_trace.calm_step [OF calm_trace.calm_nil
        alloc_step.step_malloc [OF demo_two_run]] demo_more_step] demo_env] by simp
qed

lemmas demo_trace = calm_alloc [OF demo_calm]

lemma demo_clock: "m_now demo_pool = 5000" "m_now demo_later = 8000"
  by code_simp+

text \<open>A named allocation that was freed again: the name \<open>n\<close> stays bound to the free key \<open>a\<close>.\<close>

definition demo_named :: mem where
  "demo_named = final_state (malloc_key mem_redis demo 0 (Seconds 10) (Some ''n'') (Seconds 60) demo_pool)"

definition demo_bound :: mem where
  "demo_bound = final_state (free_keys mem_redis demo [''a''] 0 demo_named)"

lemma demo_named_run: "malloc_key mem_redis demo 0 (Seconds 10) (Some ''n'') (Seconds 60) demo_pool = Done (Some ''a'') demo_named"
proof -
  have "case malloc_key mem_redis demo 0 (Seconds 10) (Some ''n'') (Seconds 60) demo_pool of Done r s \<Rightarrow> r = Some ''a'' | Abort e s \<Rightarrow> False"
    by code_simp
  then show ?thesis by (simp add: demo_named_def split: outcome.splits)
qed

lemma good_bound: "good mem_view demo demo_bound"
proof -
  have "\<forall>k\<in>set [''a'']. \<not> is_jammed mem_redis demo k demo_named" by code_simp
  note freed = alloc_step.step_free [OF this, of mem_view 0 "\<lambda>xs. xs" 0]
  show ?thesis
    unfolding demo_bound_def
    by (rule redis_server.trace_good [OF mem_server alloc_trace.trace_step [OF alloc_trace.trace_step [OF alloc_trace.trace_nil
        alloc_step.step_malloc [OF demo_named_run]] freed] good_demo table_order_id])
qed

lemma demo_bound_facts: "get_soft_bind mem_redis demo ''n'' demo_bound = Some ''a''" "contains mem_redis demo ''a'' demo_bound"
  "\<not> is_locked mem_redis demo ''a'' demo_bound"
  by code_simp+

end
