(* ===== verification/Allocator_Properties.thy ===== *)
theory Allocator_Properties
  imports Allocator_Facts Examples
begin

text \<open>
  The properties of \<open>RedisAllocator\<close>. Each holds for every server with the documented commands, every
  instance and every state that holds a pool (\<open>good\<close>, or \<open>rep\<close> where the abstract pool is named), and is
  applied to the in-memory server.
\<close>

section \<open>Exclusive allocation\<close>

context redis_server
begin

lemma reachable_trace:
  assumes "good view A s" and "table_order pairs" and "alloc_trace R view A far pairs s es s'"
  shows "good view A s' \<and> distinct (get_free_list R A s') \<and> set (get_free_list R A s') \<subseteq> set (pool_keys R A s') \<and>
    (\<forall>k\<in>set (pool_keys R A s'). safe_key k) \<and>
    (\<forall>k. is_jammed R A k s' \<longrightarrow> is_jammed R A k s \<or> Relocked k \<in> set es)"
proof -
  from assms(1) obtain p where p: "rep A (view s) p" by (rule good_rep)
  from trace_jammed [OF assms(3) p assms(2)] obtain q where
    q: "rep A (view s') q" "jammed q \<subseteq> jammed p \<union> {k. Relocked k \<in> set es}" by blast
  with good_state [OF q(1)] wf_poolD [OF repD(3) [OF q(1)]] show ?thesis
    by (auto simp: observe [OF q(1)] is_jammed_iff [OF q(1)] is_jammed_iff [OF p])
qed

end

text \<open>
  C1: an exclusive allocator never hands out a key a second time while its lock lives. After \<open>malloc_key\<close>
  returned \<open>k\<close>, over any sequence of operations of any clients (mallocs, collections, extensions, resizings,
  locks of other keys taken by hand, failures, the passing of time) in which nobody frees or relocks \<open>k\<close>, and before the timeout
  counted from the allocation (or for ever if it is not positive), no malloc returns \<open>k\<close>; \<open>k\<close> stays locked
  and outside the free list. Others may add \<open>k\<close> to the pool as often as they like while it is a member; only to
  add it after it left the pool deletes its lock. The operations are those of \<open>alloc_step\<close>: two calls that destroy the
  list are not among them, adding a key that starts with a bar, which the validation accepts, and freeing a key
  that is locked while it is in the free list.
\<close>

theorem malloc_exclusive:
  assumes "redis_server R view" and "good view A s" and "table_order pairs" and "\<not> shared A"
    and "malloc_key R A far timeout name cache_timeout s = Done (Some k) s1"
    and "calm_trace R view A far pairs k s1 es s2"
    and "py_int (to_seconds far timeout) \<le> 0 \<or>
      now_ms (view s2) < now_ms (view s) + 1000 * py_int (to_seconds far timeout)"
  shows "Allocated (Some k) \<notin> set es \<and> is_locked R A k s2 \<and> k \<notin> set (get_free_list R A s2)"
  using redis_server.exclusive_trace [OF assms] .

theorem malloc_exclusive_witness:
  "Allocated (Some ''a'') \<notin> set [Allocated (Some ''b''), Extended [''a'', ''d''], Elapsed 3000] \<and> is_locked mem_redis demo ''a'' demo_later \<and>
    ''a'' \<notin> set (get_free_list mem_redis demo demo_later)"
  by (rule malloc_exclusive [OF mem_server good_demo table_order_id _ demo_taken_run demo_calm])
    (simp_all add: demo_clock, simp add: demo_def)

text \<open>
  C2: every state reachable from a state that holds a pool, by operations of any clients and whether they
  succeed or fail, except adding a key that starts with a bar and freeing a key that is locked while it is in
  the free list (the two calls \<open>alloc_step\<close> leaves out), holds a pool: the free list has no repetition, its keys are members, and no member could
  break the encoding. A free key is locked only if it was so at the start or somebody locked it by hand on
  the way: no operation of the allocator itself leaves a free key locked (INV-4).
\<close>

theorem reachable_invariant:
  assumes "redis_server R view" and "good view A s" and "table_order pairs"
    and "alloc_trace R view A far pairs s es s'"
  shows "good view A s' \<and> distinct (get_free_list R A s') \<and> set (get_free_list R A s') \<subseteq> set (pool_keys R A s') \<and>
    (\<forall>k\<in>set (pool_keys R A s'). safe_key k) \<and>
    (\<forall>k. is_jammed R A k s' \<longrightarrow> is_jammed R A k s \<or> Relocked k \<in> set es)"
  using redis_server.reachable_trace [OF assms] .

theorem reachable_invariant_witness:
  "distinct (get_free_list mem_redis demo demo_later) \<and> \<not> is_jammed mem_redis demo ''c'' demo_later"
proof -
  have "\<not> is_jammed mem_redis demo ''c'' demo_taken" by code_simp
  with reachable_invariant [OF mem_server good_taken table_order_id demo_trace] show ?thesis by auto
qed

section \<open>The operations\<close>

text \<open>
  C3: the scripts refine their specification on the abstract pool. From a state that represents \<open>p\<close>,
  \<open>extend\<close>, \<open>shrink\<close>, \<open>assign\<close>, \<open>clear\<close>, \<open>free\<close>, \<open>gc\<close> and \<open>malloc_key\<close> end without an error in a state that
  represents the pool the specification gives, and \<open>malloc_key\<close> returns the key the specification gives.
  Under these conditions every assertion of the Lua code and the fuel of the model's pop loop are thereby shown not to
  fail: there are keys to add, none invalid or starting with a bar; no freed key is both locked and in the free list;
  the count of the scan is positive and its page has no repetition; and, for the server's \<open>SET EX\<close>, an exclusive malloc through a usable
  binding has a positive timeout.
\<close>

theorem scripts_refine_spec:
  assumes "redis_server R view" and "rep A (view s) p" and "ks \<noteq> []" and "\<forall>k\<in>set ks. safe_key k" and "table_order pairs"
  shows "(\<forall>timeout. \<exists>s'. extend_pool R A (Some (map PyStr ks)) timeout s = Done () s' \<and>
      rep A (view s') (spec_extend (case timeout of None \<Rightarrow> -1 | Some t \<Rightarrow> t) ks p)) \<and>
    (\<exists>s'. shrink R A (Some ks) s = Done () s' \<and> rep A (view s') (spec_shrink ks p)) \<and>
    (\<exists>new s'. assign R A pairs (Some (map PyStr ks)) t s = Done () s' \<and> rep A (view s') (spec_assign t (set ks) new p) \<and>
      distinct new \<and> set new = set ks - dom (members p)) \<and>
    (\<exists>s'. clear R A s = Done () s' \<and> rep A (view s') (spec_clear p)) \<and>
    (set ks \<inter> jammed p = {} \<longrightarrow> (\<exists>s'. free_keys R A ks t s = Done () s' \<and> rep A (view s') (spec_free t ks p))) \<and>
    (\<forall>n c kvs. 0 < n \<longrightarrow> r_hscan R (pool_str A) (get_cursor R A s) n s = (c, kvs) \<longrightarrow> distinct (map fst kvs) \<longrightarrow>
      (\<exists>s'. gc R A n s = Done () s' \<and> rep A (view s') (spec_gc (map fst kvs) p))) \<and>
    (\<forall>far timeout name cache_timeout.
      let n = (case name of None \<Rightarrow> '''' | Some n \<Rightarrow> n);
          spec = spec_malloc (shared A) (py_int (to_seconds far timeout)) n (py_int (to_seconds far cache_timeout)) p in
      shared A \<or> 0 < py_int (to_seconds far timeout) \<or> usable_bind n p = None \<longrightarrow>
      (\<exists>s'. malloc_key R A far timeout name cache_timeout s = Done (fst spec) s' \<and> rep A (view s') (snd spec)))"
  unfolding Let_def
  by (intro conjI allI impI;
      (rule redis_server.extend_refine [OF assms(1,2,4,3)] | rule redis_server.operations_refine(2) [OF assms(1,2,3)]
       | rule redis_server.operations_refine(6) [OF assms(1,2,4,3,5)] | rule redis_server.operations_refine(5) [OF assms(1,2)]
       | (rule redis_server.operations_refine(3) [OF assms(1,2) _ assms(3)], assumption)
       | (rule redis_server.operations_refine(7) [OF assms(1,2)], assumption+)
       | erule redis_server.operations_refine(4) [OF assms(1,2)]))

theorem scripts_refine_spec_witness:
  "\<exists>p s'. rep demo (mem_view demo_pool) p \<and> free_keys mem_redis demo [''a'', ''d''] 0 demo_pool = Done () s' \<and>
     rep demo (mem_view s') (spec_free 0 [''a'', ''d''] p)"
proof -
  from good_demo obtain p where p: "rep demo (mem_view demo_pool) p" by (auto simp: good_def)
  have k: "[''a'', ''d''] \<noteq> []" "\<forall>k\<in>set [''a'', ''d'']. safe_key k" using safe_demo_keys by simp_all
  have "\<forall>k\<in>set [''a'', ''d'']. \<not> is_jammed mem_redis demo k demo_pool" by code_simp
  then have "set [''a'', ''d''] \<inter> jammed p = {}" using redis_server.is_jammed_iff [OF mem_server p] by auto
  with scripts_refine_spec [OF mem_server p k table_order_id, of 0] p show ?thesis by blast
qed

text \<open>
  C4: \<open>malloc_key\<close> without a name returns the first key of the free list that is neither expired nor
  locked, and None when there is none. It removes that key and the ones before it from the free list; a
  shared allocator puts the key back at the tail, so shared allocation is round robin.
\<close>

theorem malloc_takes_first:
  assumes "redis_server R view" and "good view A s"
  shows "\<exists>s'. malloc_key R A far timeout None cache_timeout s =
      Done (find (\<lambda>k. \<not> (is_expired R (pool_get R A k s) s \<or> is_locked R A k s)) (get_free_list R A s)) s' \<and> good view A s' \<and>
    get_free_list R A s' = (case dropWhile (\<lambda>k. is_expired R (pool_get R A k s) s \<or> is_locked R A k s) (get_free_list R A s) of
      [] \<Rightarrow> [] | k # ks \<Rightarrow> if shared A then ks @ [k] else ks)"
proof -
  from assms(2) obtain p where "rep A (view s) p" by (auto simp: good_def)
  from redis_server.unnamed_malloc [OF assms(1) this] show ?thesis by blast
qed

theorem malloc_takes_first_witness:
  "\<exists>s'. malloc_key mem_redis demo 0 (Seconds 0) None NoTimeout demo_pool =
      Done (find (\<lambda>k. \<not> (is_expired mem_redis (pool_get mem_redis demo k demo_pool) demo_pool \<or> is_locked mem_redis demo k demo_pool))
        (get_free_list mem_redis demo demo_pool)) s' \<and> good mem_view demo s'"
  using malloc_takes_first [OF mem_server good_demo] by blast

text \<open>
  C5: \<open>free_keys\<close> unlocks its keys and appends to the free list, in order and once each, those that were
  locked members. Freeing a key that is not locked or not in the pool, or freeing twice, adds nothing.
  The one key it must not be given is a locked one that is in the free list.
\<close>

theorem free_returns_to_tail:
  assumes "redis_server R view" and "good view (A :: 'a config_scheme) s" and "\<forall>k\<in>set ks. \<not> is_jammed R A k s"
  shows "\<exists>s'. free_keys R A ks t s = Done () s' \<and> good view A s' \<and> set (pool_keys R A s') = set (pool_keys R A s) \<and>
    get_free_list R A s' = get_free_list R A s @ new_keys {k. \<not> (is_locked R A k s \<and> contains R A k s)} ks \<and>
    (\<forall>k. is_locked R A k s' \<longleftrightarrow> is_locked R A k s \<and> k \<notin> set ks)"
  using redis_server.free_observed [OF assms] .

theorem free_returns_to_tail_witness:
  "\<exists>s'. free_keys mem_redis demo [''a'', ''b'', ''a''] 0 demo_taken = Done () s' \<and> \<not> is_locked mem_redis demo ''a'' s'"
proof -
  have "\<forall>k\<in>set [''a'', ''b'', ''a'']. \<not> is_jammed mem_redis demo k demo_taken" by code_simp
  from free_returns_to_tail [OF mem_server good_taken this, of 0] show ?thesis by auto
qed

text \<open>
  C6: freeing what an exclusive \<open>malloc_key\<close> without a name has just handed out undoes the allocation, whatever
  was in front of the key. The free list before was the keys \<open>malloc\<close> passed over, each expired or locked by hand, then
  \<open>k\<close>, then the rest; afterwards it is the rest and \<open>k\<close>. The members are as before without the expired
  keys that were passed over, and the locks are as before.
\<close>

theorem malloc_free_roundtrip:
  assumes "redis_server R view" and "good view A s" and "\<not> shared A"
    and "malloc_key R A far timeout None cache_timeout s = Done (Some k) s1"
  shows "\<exists>before after s2. get_free_list R A s = before @ k # after \<and>
    (\<forall>j\<in>set before. is_expired R (pool_get R A j s) s \<or> is_locked R A j s) \<and>
    \<not> is_expired R (pool_get R A k s) s \<and> \<not> is_locked R A k s \<and>
    free_keys R A [k] t s1 = Done () s2 \<and> get_free_list R A s2 = after @ [k] \<and>
    set (pool_keys R A s2) = set (pool_keys R A s) - {j \<in> set before. is_expired R (pool_get R A j s) s} \<and>
    (\<forall>j. is_locked R A j s2 \<longleftrightarrow> is_locked R A j s)"
  using redis_server.malloc_then_free [OF assms] .

text \<open>The free list is \<open>a\<close>, \<open>b\<close>, \<open>c\<close>; \<open>malloc\<close> takes \<open>a\<close> and \<open>free\<close> puts it at the end.\<close>

theorem malloc_free_roundtrip_witness:
  "\<exists>s2. free_keys mem_redis demo [''a''] 0 demo_taken = Done () s2 \<and>
     get_free_list mem_redis demo s2 = rotate1 (get_free_list mem_redis demo demo_pool)"
proof -
  have "\<not> shared demo" by (simp add: demo_def)
  from malloc_free_roundtrip [OF mem_server good_demo this demo_taken_run, of 0] obtain before after s2 where
    split: "get_free_list mem_redis demo demo_pool = before @ ''a'' # after"
    and s2: "free_keys mem_redis demo [''a''] 0 demo_taken = Done () s2" "get_free_list mem_redis demo s2 = after @ [''a'']" by blast
  have "get_free_list mem_redis demo demo_pool = [''a'', ''b'', ''c'']" by code_simp
  with split have "before = [] \<and> after = [''b'', ''c'']" by (cases before; cases after) (auto simp: append_eq_Cons_conv Cons_eq_append_conv)
  with s2 split show ?thesis by simp
qed

text \<open>
  C7: \<open>extend\<close> adds exactly its keys to the pool; the new ones go to the tail of the free list in the order
  given and once each, the present ones keep their place. A new key loses the lock an earlier life left, even one
  that has not ended. The keys are those the validation accepts, less those that start with a bar.
\<close>

theorem extend_appends_new:
  assumes "redis_server R view" and "good view (A :: 'a config_scheme) s" and "\<forall>k\<in>set ks. safe_key k"
  shows "\<exists>s'. extend_pool R A (Some (map PyStr ks)) timeout s = Done () s' \<and> good view A s' \<and>
    set (pool_keys R A s') = set (pool_keys R A s) \<union> set ks \<and>
    get_free_list R A s' = get_free_list R A s @ new_keys (set (pool_keys R A s)) ks \<and>
    (\<forall>k. is_locked R A k s' \<longleftrightarrow> is_locked R A k s \<and> \<not> (k \<in> set ks \<and> k \<notin> set (pool_keys R A s)))"
  using redis_server.extend_observed [OF assms] .

theorem extend_appends_new_witness:
  "\<exists>s'. extend_pool mem_redis demo (Some (map PyStr [''d'', ''a'', ''d''])) (Some 60) demo_taken = Done () s' \<and>
     get_free_list mem_redis demo s' = get_free_list mem_redis demo demo_taken @
       new_keys (set (pool_keys mem_redis demo demo_taken)) [''d'', ''a'', ''d'']"
proof -
  have "\<forall>k\<in>set [''d'', ''a'', ''d'']. safe_key k" using safe_demo_keys by simp
  from extend_appends_new [OF mem_server good_taken this, of "Some 60"] show ?thesis by blast
qed

text \<open>C8: \<open>shrink\<close> removes exactly its keys, free or allocated, keeps the order of the others and touches no lock.\<close>

theorem shrink_removes_exactly:
  assumes "redis_server R view" and "good view (A :: 'a config_scheme) s"
  shows "\<exists>s'. shrink R A (Some ks) s = Done () s' \<and> good view A s' \<and>
    set (pool_keys R A s') = set (pool_keys R A s) - set ks \<and>
    get_free_list R A s' = filter (\<lambda>k. k \<notin> set ks) (get_free_list R A s) \<and>
    (\<forall>k. is_locked R A k s' \<longleftrightarrow> is_locked R A k s)"
  using redis_server.shrink_observed [OF assms] .

theorem shrink_removes_exactly_witness:
  "\<exists>s'. shrink mem_redis demo (Some [''a'', ''c'']) demo_taken = Done () s' \<and> is_locked mem_redis demo ''a'' s'"
proof -
  have "is_locked mem_redis demo ''a'' demo_taken" by code_simp
  with shrink_removes_exactly [OF mem_server good_taken, of "[''a'', ''c'']"] show ?thesis by blast
qed

text \<open>
  C9: after \<open>assign\<close> the members are exactly its keys: the free list keeps, in order, what stays, and the
  new keys follow once each, unlocked, in whatever order Lua walks its table. Without keys the pool is
  emptied. The keys are those the validation accepts, less those that start with a bar.
\<close>

theorem assign_exactly:
  assumes "redis_server R view" and "good view (A :: 'a config_scheme) s" and "table_order pairs" and "\<forall>k\<in>set ks. safe_key k"
  shows "\<exists>new s'. assign R A pairs (Some (map PyStr ks)) t s = Done () s' \<and> good view A s' \<and>
    set (pool_keys R A s') = set ks \<and> distinct new \<and> set new = set ks - set (pool_keys R A s) \<and>
    get_free_list R A s' = filter (\<lambda>k. k \<in> set ks) (get_free_list R A s) @ new \<and>
    (\<forall>k. is_locked R A k s' \<longleftrightarrow> is_locked R A k s \<and> k \<notin> set new)"
  using redis_server.assign_observed [OF assms] .

theorem assign_exactly_witness:
  "\<exists>s'. assign mem_redis demo (\<lambda>xs. xs) (Some (map PyStr [''d'', ''b''])) (-1) demo_pool = Done () s' \<and>
     set (pool_keys mem_redis demo s') = {''d'', ''b''}"
proof -
  have "\<forall>k\<in>set [''d'', ''b'']. safe_key k" using safe_demo_keys by simp
  from assign_exactly [OF mem_server good_demo table_order_id this, of "-1"] show ?thesis by fastforce
qed

text \<open>
  C10: a collection whose scan visits every member once reconciles the pool: the expired members are gone,
  and of the others exactly the unlocked ones are in the free list. No lock changes.
\<close>

theorem gc_reconciles_pool:
  assumes "redis_server R view" and "good view A s" and "0 < n"
    and "r_hscan R (pool_str A) (get_cursor R A s) n s = (c, kvs)"
    and "distinct (map fst kvs)" and "set (map fst kvs) = set (pool_keys R A s)"
  shows "\<exists>s'. gc R A n s = Done () s' \<and> good view A s' \<and>
    set (pool_keys R A s') = {k \<in> set (pool_keys R A s). \<not> is_expired R (pool_get R A k s) s} \<and>
    (\<forall>k\<in>set (pool_keys R A s'). k \<in> set (get_free_list R A s') \<longleftrightarrow> \<not> is_locked R A k s') \<and>
    (\<forall>k. is_locked R A k s' \<longleftrightarrow> is_locked R A k s)"
  using redis_server.gc_observed [OF assms] .

theorem gc_reconciles_pool_witness:
  "\<exists>s'. gc mem_redis demo 10 demo_taken = Done () s' \<and>
     (\<forall>k\<in>set (pool_keys mem_redis demo s'). k \<in> set (get_free_list mem_redis demo s') \<longleftrightarrow> \<not> is_locked mem_redis demo k s')"
proof -
  obtain c kvs where scan: "r_hscan mem_redis (pool_str demo) (get_cursor mem_redis demo demo_taken) 10 demo_taken = (c, kvs)"
    by (cases "r_hscan mem_redis (pool_str demo) (get_cursor mem_redis demo demo_taken) 10 demo_taken")
  have "distinct (map fst (snd (r_hscan mem_redis (pool_str demo) (get_cursor mem_redis demo demo_taken) 10 demo_taken))) \<and>
      set (map fst (snd (r_hscan mem_redis (pool_str demo) (get_cursor mem_redis demo demo_taken) 10 demo_taken))) =
        set (pool_keys mem_redis demo demo_taken)" by code_simp
  with scan have "distinct (map fst kvs)" "set (map fst kvs) = set (pool_keys mem_redis demo demo_taken)" by simp_all
  from gc_reconciles_pool [OF mem_server good_taken _ scan this] show ?thesis by fastforce
qed

section \<open>Errors, soft bindings and the encoding\<close>

text \<open>
  C11: on a well-formed pool \<open>malloc_key\<close> fails in one case only: an exclusive allocation with a
  non-positive timeout through a usable soft binding, where the server refuses the expiry. No assertion
  of the scripts fails, and the pool is well-formed after the failure too.
\<close>

theorem malloc_only_error:
  assumes "redis_server R view" and "good view A s" and "malloc_key R A far timeout name cache_timeout s = Abort e s'"
  shows "e = RedisError ''invalid expire time'' \<and> \<not> shared A \<and> py_int (to_seconds far timeout) \<le> 0 \<and> good view A s' \<and>
    (\<exists>n k. name = Some n \<and> n \<noteq> '''' \<and> get_soft_bind R A n s = Some k \<and> contains R A k s \<and> \<not> is_locked R A k s)"
  using redis_server.malloc_error_cases [OF assms] .

theorem malloc_only_error_witness:
  "\<exists>e s'. malloc_key mem_redis demo 0 (Seconds 0) (Some ''n'') NoTimeout demo_bound = Abort e s' \<and>
     e = RedisError ''invalid expire time''"
proof -
  have "\<not> succeeds (malloc_key mem_redis demo 0 (Seconds 0) (Some ''n'') NoTimeout demo_bound)" by code_simp
  then obtain e s' where "malloc_key mem_redis demo 0 (Seconds 0) (Some ''n'') NoTimeout demo_bound = Abort e s'"
    by (cases "malloc_key mem_redis demo 0 (Seconds 0) (Some ''n'') NoTimeout demo_bound") simp_all
  with malloc_only_error [OF mem_server good_bound this] show ?thesis by blast
qed

text \<open>
  C12: soft bindings are sticky. When the key bound to a name is an unlocked member, \<open>malloc_key\<close> with that
  name, on a shared allocator or with a positive timeout (C16 is the other case), returns it whatever its place in the free list, keeps the binding, and in exclusive mode takes it
  out of the free list and locks it.
\<close>

theorem soft_binding_sticky:
  assumes "redis_server R view" and "good view A s" and "n \<noteq> ''''" and "get_soft_bind R A n s = Some k"
    and "contains R A k s" and "\<not> is_locked R A k s" and "shared A \<or> 0 < py_int (to_seconds far timeout)"
  shows "\<exists>s'. malloc_key R A far timeout (Some n) cache_timeout s = Done (Some k) s' \<and> good view A s' \<and>
    get_soft_bind R A n s' = Some k \<and>
    get_free_list R A s' = (if shared A then get_free_list R A s else remove1 k (get_free_list R A s)) \<and>
    (is_locked R A k s' \<longleftrightarrow> \<not> shared A)"
  using redis_server.malloc_bound_observed(1) [OF assms] .

theorem soft_binding_sticky_witness:
  "\<exists>s'. malloc_key mem_redis demo 0 (Seconds 10) (Some ''n'') (Seconds 60) demo_bound = Done (Some ''a'') s'"
  using soft_binding_sticky [OF mem_server good_bound _ demo_bound_facts, of 0 "Seconds 10" "Seconds 60"] by auto

text \<open>
  C13: \<open>extend\<close> and \<open>assign\<close> raise ValueError, before anything is written, as soon as one key is not a string,
  is empty, contains the separator or a NUL, or is the sentinel; and the check accepts all other keys.
\<close>

theorem invalid_keys_refused:
  "(validate_keys ks = None \<longleftrightarrow> (\<forall>k\<in>set ks. \<exists>x. k = PyStr x \<and> x \<noteq> '''' \<and> \<not> contains_sep x \<and> x \<noteq> ALLOCATED_SENTINEL \<and>
      CHR 0x00 \<notin> set x)) \<and>
   (validate_keys ks \<noteq> None \<longrightarrow> extend_pool R A (Some ks) t s = Abort ValueError s \<and>
      assign R A pairs (Some ks) t' s = Abort ValueError s)"
proof (intro conjI impI)
  show "validate_keys ks = None \<longleftrightarrow> (\<forall>k\<in>set ks. \<exists>x. k = PyStr x \<and> x \<noteq> '''' \<and> \<not> contains_sep x \<and>
      x \<noteq> ALLOCATED_SENTINEL \<and> CHR 0x00 \<notin> set x)"
    by (simp only: validate_keys_iff valid_key_def)
qed (blast intro: extend_refuses)+

theorem invalid_keys_refused_witness:
  "extend_pool mem_redis demo (Some [PyStr ''a'', PyStr ''x||y'']) None demo_pool = Abort ValueError demo_pool"
  using invalid_keys_refused [of "[PyStr ''a'', PyStr ''x||y'']" mem_redis demo None demo_pool] by simp

text \<open>
  C14: the pool value \<open>prev||next||expiry\<close> is read back by Lua's greedy pattern as it was written exactly
  when the next key contains no separator and does not start with a bar; the previous key can be any text.
\<close>

theorem pool_value_roundtrip:
  "split_pool_value (Some (join_pool_value (Some p) (Some n) (Some e))) = (Some p, Some n, Some e) \<longleftrightarrow>
     \<not> contains_sep n \<and> \<not> starts_bar n"
  by (rule split_join_iff)

text \<open>
  C15: \<open>update_soft_bind\<close> and \<open>unbind_soft_bind\<close> do not reach the bindings that \<open>malloc_key\<close> and
  \<open>get_soft_bind\<close> use: they go through the lock operations, which put the prefix of a lock in front of the
  name. No binding changes.
\<close>

theorem soft_bind_methods_miss:
  assumes "redis_server R view" and "good view A s" and "ex_ok ex"
  shows "(\<exists>s'. update_soft_bind R A n k ex s = Done () s' \<and> (\<forall>m. get_soft_bind R A m s' = get_soft_bind R A m s)) \<and>
    (\<exists>b s'. unbind_soft_bind R A n s = Done b s' \<and> (\<forall>m. get_soft_bind R A m s' = get_soft_bind R A m s))"
  using redis_server.soft_bind_methods [OF assms] by blast

theorem soft_bind_methods_miss_witness:
  "\<exists>b s'. unbind_soft_bind mem_redis demo ''n'' demo_bound = Done b s' \<and> get_soft_bind mem_redis demo ''n'' s' = Some ''a''"
proof -
  have "ex_ok (Some 10)" by simp
  from soft_bind_methods_miss [OF mem_server good_bound this, of "''n''"] demo_bound_facts(1) show ?thesis by metis
qed

text \<open>
  C16: an exclusive \<open>malloc_key\<close> with a non-positive timeout through a usable binding ends with an error of
  the server after it has taken the key from the free list: the key stays a member, unlocked, and is in
  nobody's hands until a collection finds it.
\<close>

theorem bound_malloc_loses_key:
  assumes "redis_server R view" and "good view A s" and "n \<noteq> ''''" and "get_soft_bind R A n s = Some k"
    and "contains R A k s" and "\<not> is_locked R A k s" and "\<not> shared A" and "py_int (to_seconds far timeout) \<le> 0"
  shows "\<exists>s'. malloc_key R A far timeout (Some n) cache_timeout s = Abort (RedisError ''invalid expire time'') s' \<and>
    good view A s' \<and> get_free_list R A s' = remove1 k (get_free_list R A s) \<and> contains R A k s' \<and> \<not> is_locked R A k s'"
  using redis_server.malloc_bound_observed(2) [OF assms] .

theorem bound_malloc_loses_key_witness:
  "\<exists>s'. malloc_key mem_redis demo 0 (Seconds 0) (Some ''n'') (Seconds 60) demo_bound =
     Abort (RedisError ''invalid expire time'') s'"
proof -
  have "\<not> shared demo" by (simp add: demo_def)
  from bound_malloc_loses_key [OF mem_server good_bound _ demo_bound_facts this, of 0 "Seconds 0" "Seconds 60"]
  show ?thesis by auto
qed

end
