(* ===== verification/Lock_Properties.thy ===== *)
theory Lock_Properties
  imports Examples
begin

text \<open>
  The properties of the locks and the lock pools: one owner per key whichever implementation serves the
  requests, locks that end at their deadline, conditional sets, and pools that count what they hold.
\<close>

lemma lock_ok_good: "good mem_view A s \<Longrightarrow> lock_ok A (mem_view s)"
  using redis_server.rep_lock_ok [OF mem_server] by (auto simp: good_def)

section \<open>Redis locks in time\<close>

lemma holder_elapse:
  "holder A (elapse d (put_lock A k v (Some n) V)) k = (if d < 1000 * n then Some v else None)"
  by (simp add: holder_def put_lock_def redis_simps live_def deadline_def)

context redis_server
begin

lemma lock_in_time:
  assumes ok: "lock_ok A (view s)" and n: "0 < n" and run: "lock R A k v (Some n) s = Done True s1"
    and later: "view s2 = elapse d (view s1)" and ex: "ex_ok ex"
  shows "(is_locked R A k s2 \<longleftrightarrow> d < 1000 * n) \<and> (\<exists>s3. lock R A k w ex s2 = Done (1000 * n \<le> d) s3)"
proof -
  have free: "holder A (view s) k = None"
  proof (rule ccontr)
    assume "holder A (view s) k \<noteq> None"
    from lock_taken [OF ok _ this, of "Some n" v] n run show False by simp
  qed
  from lock_free [OF ok _ free, of "Some n" v] n run have v1: "view s1 = put_lock A k v (Some n) (view s)" by simp
  have ok2: "lock_ok A (view s2)" using ok by (simp add: later v1 redis_simps)
  have h: "holder A (view s2) k = (if d < 1000 * n then Some v else None)" by (simp add: later v1 holder_elapse)
  show ?thesis
  proof (cases "d < 1000 * n")
    case True
    with h lock_taken [OF ok2 ex, of k w] is_locked_iff [OF ok2, of k] show ?thesis by simp
  next
    case False
    with h lock_free [OF ok2 ex, of k w] is_locked_iff [OF ok2, of k] show ?thesis by auto
  qed
qed

lemma redis_first_wins:
  assumes "lock_ok A (view s)" and "ex_ok t" and "\<forall>a\<in>set acts. request_ok ex_ok a \<and> request_key a = k \<and> a \<noteq> Unlock k"
    and "holder A (view s) k = None" and "first \<in> {Lock k v t, Rlock k v t}"
  shows "\<exists>bs s'. serve_all (lock R A) (rlock R A) (unlock R A) (first # acts) s = Done (True # bs) s' \<and>
    length bs = length acts \<and> holder A (view s') k = Some v \<and> (\<forall>i<length acts. bs ! i = (\<exists>t. acts ! i = Rlock k v t))"
  by (rule rl.first_wins [OF assms])

text \<open>One conditional set: the number under the key becomes the larger one.\<close>

lemma setgt_max:
  assumes ok: "lock_ok A (view s)" and rt: "\<And>x. rd N (pr N x) = Some x"
    and old: "Option.bind (lock_value R A k s) (rd N) = cur"
  shows "\<exists>s'. setgt R A N eps k v None None s = Done (case cur of None \<Rightarrow> True | Some x \<Rightarrow> x < v) s' \<and> lock_ok A (view s') \<and>
    Option.bind (lock_value R A k s') (rd N) = Some (case cur of None \<Rightarrow> v | Some x \<Rightarrow> max x v)"
proof -
  have cur: "Option.bind (r_get R (key_str A k) s) (rd N) = cur" using old by (simp add: lock_value_def)
  let ?s' = "r_set R (key_str A k) (pr N v) s"
  have v': "view ?s' = put_lock A k (pr N v) None (view s)" by (simp add: set_cmd put_lock_def)
  then have ok': "lock_ok A (view ?s')" using ok by (simp add: redis_simps)
  have new: "Option.bind (lock_value R A k ?s') (rd N) = Some v"
    by (simp add: lock_value_eq [OF ok'] v' redis_simps rt)
  show ?thesis
  proof (cases "case cur of None \<Rightarrow> True | Some x \<Rightarrow> x < v")
    case True
    then have "setgt R A N eps k v None None s = Done True ?s'"
      by (auto simp: setgt_def conditional_setdel_def condition_def cur split: option.split)
    with True ok' new show ?thesis by (auto simp: max_def split: option.split)
  next
    case False
    then obtain x where x: "cur = Some x" "\<not> x < v" by (cases cur) auto
    then have "setgt R A N eps k v None None s = Done False s"
      by (simp add: setgt_def conditional_setdel_def condition_def cur)
    with x ok old show ?thesis by (simp add: max_def)
  qed
qed

lemma setgt_sequence:
  assumes "lock_ok A (view s)" and rt: "\<And>x. rd N (pr N x) = Some x"
    and "Option.bind (lock_value R A k s) (rd N) = Some x"
  shows "\<exists>s'. for_each (\<lambda>v s. then_do (setgt R A N eps k v None None s) (\<lambda>_. Done ())) vs s = Done () s' \<and>
    Option.bind (lock_value R A k s') (rd N) = Some (foldl max x vs)"
  using assms(1,3)
proof (induction vs arbitrary: s x)
  case (Cons v vs)
  from setgt_max [OF Cons.prems(1) rt Cons.prems(2), of eps v] obtain b s1 where
    s1: "setgt R A N eps k v None None s = Done b s1" "lock_ok A (view s1)"
      "Option.bind (lock_value R A k s1) (rd N) = Some (max x v)" by auto
  from Cons.IH [OF s1(2,3)] s1(1) show ?case by simp
qed simp

lemma thread_alive:
  assumes "pool_ok A (view s)" and "0 < t" and "thread_initialize R A t i s = Done () s1"
    and "view s2 = elapse d (view s1)"
  shows "(i, d < 1000 * t) \<in> set (items_locked_status (rp_keys R A) (get_key_lock_status R A) s2)"
proof -
  from update_effect [of "Some t" A i "''1''" s] assms(2) obtain s0 where
    s0: "lock_update R A i ''1'' (Some t) s = Done () s0" "view s0 = put_lock A i ''1'' (Some t) (view s)" by auto
  with assms(1) have "pool_ok A (view s0)" by (simp add: redis_simps)
  from rp_effects(1) [OF this, of "[i]"] s0 assms(3) have
    s1: "holder A (view s1) = holder A (view s0)" "pool_ok A (view s1)" "i \<in> pool_members A (view s1)"
    by (auto simp: thread_initialize_def thread_update_def)
  have "strs (view s1) (key_str A i) = strs (view s0) (key_str A i)" "now_ms (view s1) = now_ms (view s0)"
    using assms(3) s0 \<open>pool_ok A (view s0)\<close>
    by (auto simp: thread_initialize_def thread_update_def rp_extend_def pool_ok_def sadd redis_simps)
  then have "holder A (view s2) i = holder A (elapse d (view s0)) i"
    by (simp add: assms(4) holder_def elapse_sel cong: option.case_cong)
  then have "holder A (view s2) i = (if d < 1000 * t then Some ''1'' else None)"
    by (simp only: s0(2) holder_elapse)
  moreover have "pool_ok A (view s2)" "i \<in> pool_members A (view s2)"
    using s1(2,3) assms(4) by (simp_all add: redis_simps)
  ultimately show ?thesis
    using rp.items_of [of A s2] by (auto simp: image_iff)
qed

end

section \<open>Counting and assigning\<close>

context redis_server
begin

lemma pool_counts:
  "pool_ok A (view s) \<Longrightarrow> health_check (rp_keys R A) (get_key_lock_status R A) s =
     (card {k \<in> pool_members A (view s). holder A (view s) k \<noteq> None}, card {k \<in> pool_members A (view s). \<not> holder A (view s) k \<noteq> None})"
  "good view (B :: 'b config_scheme) s \<Longrightarrow> table_order pairs \<Longrightarrow> health_check (pool_keys R B) (get_key_lock_status R B) s =
     (card {k \<in> hash_members B (view s). holder B (view s) k \<noteq> None}, card {k \<in> hash_members B (view s). \<not> holder B (view s) k \<noteq> None})"
  using rp.health_check_counts [of A s] ap.health_check_counts [of B s pairs] by blast+

lemma pool_assign:
  "pool_ok A (view s) \<Longrightarrow> \<exists>s1 s2 s3. rp_shrink R A (Some (filter (\<lambda>k. k \<notin> set ks) (rp_keys R A s))) s = Done () s1 \<and>
     rp_extend R A (Some ks) s1 = Done () s2 \<and> rp_assign R A (Some ks) s = Done () s3 \<and>
     pool_members A (view s2) = pool_members A (view s3) \<and> pool_members A (view s3) = set ks"
  using rp.assign_is_shrink_extend [of A s ks] rp.assign_law [of A s ks] by fastforce

end

section \<open>The properties\<close>

text \<open>
  C17: a Redis lock has one owner. Of any sequence of lock and rlock requests of several clients on a free
  key the first wins, be it a lock or an rlock; of the rest exactly the owner's own rlocks succeed, and the owner
  stays the owner. No timeout is zero or negative, nobody unlocks, and no time passes between the requests.
\<close>

theorem redis_lock_first_wins:
  assumes "redis_server R view" and "lock_ok A (view s)" and "ex_ok t" and "holder A (view s) k = None"
    and "\<forall>a\<in>set acts. request_ok ex_ok a \<and> request_key a = k \<and> a \<noteq> Unlock k" and "first \<in> {Lock k v t, Rlock k v t}"
  shows "\<exists>bs s'. serve_all (lock R A) (rlock R A) (unlock R A) (first # acts) s = Done (True # bs) s' \<and>
    length bs = length acts \<and> holder A (view s') k = Some v \<and> (\<forall>i<length acts. bs ! i = (\<exists>t. acts ! i = Rlock k v t))"
  by (rule redis_server.redis_first_wins [OF assms(1,2,3,5,4,6)])

theorem redis_lock_first_wins_witness:
  "\<exists>bs s'. serve_all (lock mem_redis demo) (rlock mem_redis demo) (unlock mem_redis demo)
     [Rlock ''x'' ''me'' (Some 5), Lock ''x'' ''you'' None, Rlock ''x'' ''me'' None] demo_pool = Done (True # bs) s' \<and>
     length bs = 2"
proof -
  have ok: "lock_ok demo (mem_view demo_pool)" by (rule lock_ok_good [OF good_demo])
  have t: "ex_ok (Some 5)" by simp
  have free: "holder demo (mem_view demo_pool) ''x'' = None" by code_simp
  have acts: "\<forall>a\<in>set [Lock ''x'' ''you'' None, Rlock ''x'' ''me'' None]. request_ok ex_ok a \<and> request_key a = ''x'' \<and> a \<noteq> Unlock ''x''"
    by simp
  from redis_lock_first_wins [OF mem_server ok t free acts, of "Rlock ''x'' ''me'' (Some 5)" "''me''"] show ?thesis by auto
qed

text \<open>
  C18: a lock taken for \<open>n\<close> seconds ends exactly at its deadline: \<open>d\<close> milliseconds later the key is locked,
  and another client's lock is refused, if and only if \<open>d < 1000 n\<close>.
\<close>

theorem redis_lock_until_deadline:
  assumes "redis_server R view" and "lock_ok A (view s)" and "0 < n" and "lock R A k v (Some n) s = Done True s1"
    and "view s2 = elapse d (view s1)" and "ex_ok ex"
  shows "(is_locked R A k s2 \<longleftrightarrow> d < 1000 * n) \<and> (\<exists>s3. lock R A k w ex s2 = Done (1000 * n \<le> d) s3)"
  by (rule redis_server.lock_in_time [OF assms])

theorem redis_lock_until_deadline_witness:
  "\<exists>s1. lock mem_redis demo ''x'' ''me'' (Some 5) demo_pool = Done True s1 \<and>
     is_locked mem_redis demo ''x'' (mem_elapse 4999 s1) \<and> \<not> is_locked mem_redis demo ''x'' (mem_elapse 5000 s1)"
proof -
  have ok: "lock_ok demo (mem_view demo_pool)" by (rule lock_ok_good [OF good_demo])
  have "case lock mem_redis demo ''x'' ''me'' (Some 5) demo_pool of Done b s \<Rightarrow> b | Abort e s \<Rightarrow> False" by code_simp
  then obtain s1 where s1: "lock mem_redis demo ''x'' ''me'' (Some 5) demo_pool = Done True s1"
    by (cases "lock mem_redis demo ''x'' ''me'' (Some 5) demo_pool") auto
  have t: "ex_ok None" "(0::int) < 5" by simp_all
  from redis_lock_until_deadline [OF mem_server ok t(2) s1 view_elapse t(1), of 4999]
    redis_lock_until_deadline [OF mem_server ok t(2) s1 view_elapse t(1), of 5000] s1
  show ?thesis by simp
qed



text \<open>
  C20: \<open>ThreadLock\<close> offers the same contract: of any sequence of lock and rlock requests on a key nobody
  holds the first wins, be it a lock or an rlock, and only the owner's own rlocks succeed after it; with positive
  timeouts, without an unlock, and while no time passes.
\<close>

theorem thread_lock_first_wins:
  assumes "0 \<le> clock s" and "0 < to_seconds far t" and "thread_holder s k = None"
    and "\<forall>a\<in>set acts. request_ok (\<lambda>t. 0 < to_seconds far t) a \<and> request_key a = k \<and> a \<noteq> Unlock k"
    and "first \<in> {Lock k v t, Rlock k v t}"
  shows "\<exists>bs s'. serve_all (thread_lock far) (thread_rlock far) thread_unlock (first # acts) s = Done (True # bs) s' \<and>
    length bs = length acts \<and> thread_holder s' k = Some v \<and> (\<forall>i<length acts. bs ! i = (\<exists>t. acts ! i = Rlock k v t))"
  by (rule tl.first_wins [OF assms(1,2,4,3,5)])

theorem thread_lock_first_wins_witness:
  "\<exists>bs s'. serve_all (thread_lock 9) (thread_rlock 9) thread_unlock
     [Rlock ''x'' (Text ''me'') (Seconds 5), Lock ''x'' (Text ''you'') NoTimeout, Rlock ''x'' (Text ''me'') (Delta 2)]
     \<lparr>clock = 0, locks = Map.empty\<rparr> = Done (True # bs) s' \<and> length bs = 2"
  using thread_lock_first_wins [of "\<lparr>clock = 0, locks = Map.empty\<rparr>" 9 "Seconds 5" "''x''"
      "[Lock ''x'' (Text ''you'') NoTimeout, Rlock ''x'' (Text ''me'') (Delta 2)]" "Rlock ''x'' (Text ''me'') (Seconds 5)" "Text ''me''"]
  by (auto simp: thread_holder_def)

text \<open>
  C21: \<open>ThreadLock.unlock\<close> does not report what \<open>RedisLock.unlock\<close> reports. On a key nobody ever locked the
  Redis lock returns False; the thread lock returns True as soon as someone has asked whether the key is
  locked, since the question has left a default entry in the table.
\<close>

theorem thread_unlock_after_query:
  "locks s k = None \<Longrightarrow> fst (thread_is_locked k s) = (0 < - clock s) \<and> thread_unlock k s = Done False s \<and>
     (\<exists>s'. thread_unlock k (snd (thread_is_locked k s)) = Done True s')"
  using unlock_after_query [of k s]
  by (auto simp: thread_is_locked_def lock_expired_def get_ttl_def entry_at_def default_entry_def thread_unlock_def fun_upd_idem)

theorem thread_unlock_after_query_witness:
  "\<exists>s'. thread_unlock ''x'' (snd (thread_is_locked ''x'' \<lparr>clock = 7, locks = Map.empty\<rparr>)) = Done True s'"
  using thread_unlock_after_query [of "\<lparr>clock = 7, locks = Map.empty\<rparr>" "''x''"] by simp

text \<open>
  C22: \<open>health_check\<close>, which \<open>RedisLockPool\<close> and \<open>RedisAllocator\<close> inherit from the same base class, returns the
  number of locked members and the number of unlocked members of either pool.
\<close>

theorem health_check_counts_members:
  assumes "redis_server R view" and "pool_ok A (view s)" and "good view (B :: 'b config_scheme) s'" and "table_order pairs"
  shows "health_check (rp_keys R A) (get_key_lock_status R A) s =
      (card {k \<in> pool_members A (view s). holder A (view s) k \<noteq> None}, card {k \<in> pool_members A (view s). \<not> holder A (view s) k \<noteq> None}) \<and>
    health_check (pool_keys R B) (get_key_lock_status R B) s' =
      (card {k \<in> hash_members B (view s'). holder B (view s') k \<noteq> None}, card {k \<in> hash_members B (view s'). \<not> holder B (view s') k \<noteq> None})"
  using redis_server.pool_counts(1) [OF assms(1,2)] redis_server.pool_counts(2) [OF assms(1,3,4)] by simp

theorem health_check_counts_members_witness:
  "health_check (pool_keys mem_redis demo) (get_key_lock_status mem_redis demo) demo_taken = (1, 2)"
proof -
  have ok: "pool_ok demo (mem_view (empty_store 0))"
    using lock_ok_good [OF good_empty [of demo 0]]
    by (simp add: pool_ok_def set_key_def empty_store_def m_str_def m_hash_def m_list_def m_obj_def fun_eq_iff)
  have set: "set (pool_keys mem_redis demo demo_taken) = {''a'', ''b'', ''c''}" by code_simp
  have m: "hash_members demo (mem_view demo_taken) = {''a'', ''b'', ''c''}"
    using redis_server.allocator_keys(1) [OF mem_server good_taken] set by simp
  have h: "holder demo (mem_view demo_taken) ''a'' \<noteq> None" "holder demo (mem_view demo_taken) ''b'' = None"
    "holder demo (mem_view demo_taken) ''c'' = None" by code_simp+
  have "{k \<in> {''a'', ''b'', ''c''}. holder demo (mem_view demo_taken) k \<noteq> None} = {''a''}"
    "{k \<in> {''a'', ''b'', ''c''}. \<not> holder demo (mem_view demo_taken) k \<noteq> None} = {''b'', ''c''}"
    using h by auto
  then show ?thesis
    using health_check_counts_members [OF mem_server ok good_taken table_order_id] unfolding m by simp
qed

text \<open>
  C23: a thread that registers in the health check pool is a member and counts as alive for exactly its
  timeout: \<open>d\<close> milliseconds later the pool lists it, as locked if and only if \<open>d < 1000 t\<close>.
\<close>

theorem thread_alive_until_timeout:
  assumes "redis_server R view" and "pool_ok A (view s)" and "0 < t" and "thread_initialize R A t i s = Done () s1"
    and "view s2 = elapse d (view s1)"
  shows "(i, d < 1000 * t) \<in> set (items_locked_status (rp_keys R A) (get_key_lock_status R A) s2)"
  by (rule redis_server.thread_alive [OF assms])

theorem thread_alive_until_timeout_witness:
  "\<exists>s1. thread_initialize mem_redis (health_pool ''h'') 60 ''t1'' (empty_store 0) = Done () s1 \<and>
     (''t1'', False) \<in> set (items_locked_status (rp_keys mem_redis (health_pool ''h'')) (get_key_lock_status mem_redis (health_pool ''h''))
       (mem_elapse 60000 s1))"
proof -
  have ok: "pool_ok (health_pool ''h'') (mem_view (empty_store 0))"
    using lock_ok_good [OF good_empty [of "health_pool ''h''" 0]]
    by (simp add: pool_ok_def set_key_def empty_store_def m_str_def m_hash_def m_list_def m_obj_def fun_eq_iff)
  have "(0::int) < 60" by simp
  from redis_server.thread_initialize_effect [OF mem_server ok this, of "''t1''"] obtain s1 where
    s1: "thread_initialize mem_redis (health_pool ''h'') 60 ''t1'' (empty_store 0) = Done () s1" by blast
  have "mem_view (mem_elapse 60000 s1) = elapse 60000 (mem_view s1)" by (rule view_elapse) simp
  from thread_alive_until_timeout [OF mem_server ok _ s1 this] s1 show ?thesis by simp
qed

end
