(* ===== verification/Py_Values.thy ===== *)
theory Py_Values
  imports Complex_Main Prelude "HOL-Library.AList"
begin

text \<open>
  \<open>diagnostics/models.py\<close>: the values a report is made of and their conversion to what \<open>json.dumps\<close>
  accepts. A dictionary is an association list in insertion order. \<open>PData\<close> is an instance of a data class
  with its fields. The decoding of bytes is a parameter.
\<close>

section \<open>Values\<close>

text \<open>\<open>KOther t\<close> is a dictionary key that is not a string and that \<open>str()\<close> prints as \<open>t\<close>.\<close>

datatype pykey = KStr string | KOther string

datatype pyval =
    PNone
  | PBool bool
  | PInt int
  | PFloat rat
  | PStr string
  | PBytes string
  | PList "pyval list"
  | PTuple "pyval list"
  | PDict "(pykey \<times> pyval) list"
  | PData "(string \<times> pyval) list"

fun key_text :: "pykey \<Rightarrow> string" where
  "key_text (KStr t) = t"
| "key_text (KOther t) = t"

text \<open>\<open>dataclasses.asdict\<close>: nested instances become dictionaries, containers are copied with their kind.\<close>

fun asdict :: "pyval \<Rightarrow> pyval" where
  "asdict (PData fs) = PDict (map (\<lambda>(k, v). (KStr k, asdict v)) fs)"
| "asdict (PList vs) = PList (map asdict vs)"
| "asdict (PTuple vs) = PTuple (map asdict vs)"
| "asdict (PDict kvs) = PDict (map (\<lambda>(k, v). (k, asdict v)) kvs)"
| "asdict v = v"

fun weight :: "pyval \<Rightarrow> nat" where
  "weight (PData fs) = Suc (sum_list (map (\<lambda>(k, v). weight v) fs))"
| "weight (PList vs) = Suc (sum_list (map weight vs))"
| "weight (PTuple vs) = Suc (sum_list (map weight vs))"
| "weight (PDict kvs) = Suc (sum_list (map (\<lambda>(k, v). weight v) kvs))"
| "weight v = 1"

lemma weight_asdict [simp]: "weight (asdict v) = weight v"
  by (induction v rule: asdict.induct) (force intro!: arg_cong [where f = sum_list])+

lemma weight_item:
  "v \<in> set vs \<Longrightarrow> weight v < Suc (sum_list (map weight vs))"
  "(k, v) \<in> set kvs \<Longrightarrow> weight v < Suc (sum_list (map (\<lambda>(k, v). weight v) kvs))"
  using member_le_sum_list [of "weight v" "map weight vs"]
    member_le_sum_list [of "weight v" "map (\<lambda>(k, v). weight v) kvs"] by force+

section \<open>_to_plain\<close>

text \<open>A dictionary comprehension: a later item with the same key takes the place of the earlier one.\<close>

definition dict_of :: "(pykey \<times> pyval) list \<Rightarrow> (pykey \<times> pyval) list" where
  "dict_of kvs = fold (\<lambda>(k, v) d. AList.update k v d) kvs []"

function to_plain :: "(string \<Rightarrow> string) \<Rightarrow> pyval \<Rightarrow> pyval" where
  "to_plain decode (PData fs) = PDict (dict_of (map (\<lambda>(k, v). (KStr k, to_plain decode (asdict v))) fs))"
| "to_plain decode (PBytes b) = PStr (decode b)"
| "to_plain decode (PList vs) = PList (map (to_plain decode) vs)"
| "to_plain decode (PDict kvs) = PDict (dict_of (map (\<lambda>(k, v). (KStr (key_text k), to_plain decode v)) kvs))"
| "to_plain decode PNone = PNone"
| "to_plain decode (PBool b) = PBool b"
| "to_plain decode (PInt n) = PInt n"
| "to_plain decode (PFloat r) = PFloat r"
| "to_plain decode (PStr t) = PStr t"
| "to_plain decode (PTuple vs) = PTuple vs"
  by pat_completeness auto
termination
  by (relation "measure (weight \<circ> snd)") (use weight_item in \<open>auto simp: o_def\<close>)

section \<open>What \<open>json.dumps\<close> accepts\<close>

text \<open>
  \<open>json_safe\<close> describes values that \<open>json.dumps\<close> with sorted keys accepts: no bytes and no data class
  instance in them, and only strings as keys. \<open>tuple_free\<close> excludes the one container \<open>_to_plain\<close> does not enter.
\<close>

fun json_safe :: "pyval \<Rightarrow> bool" where
  "json_safe (PBytes b) = False"
| "json_safe (PData fs) = False"
| "json_safe (PList vs) = (\<forall>v\<in>set vs. json_safe v)"
| "json_safe (PTuple vs) = (\<forall>v\<in>set vs. json_safe v)"
| "json_safe (PDict kvs) = (\<forall>(k, v)\<in>set kvs. k = KStr (key_text k) \<and> json_safe v)"
| "json_safe v = True"

fun tuple_free :: "pyval \<Rightarrow> bool" where
  "tuple_free (PTuple vs) = False"
| "tuple_free (PList vs) = (\<forall>v\<in>set vs. tuple_free v)"
| "tuple_free (PDict kvs) = (\<forall>(k, v)\<in>set kvs. tuple_free v)"
| "tuple_free (PData fs) = (\<forall>(k, v)\<in>set fs. tuple_free v)"
| "tuple_free v = True"

lemma tuple_free_asdict [simp]: "tuple_free (asdict v) = tuple_free v"
  by (induction v rule: asdict.induct) force+

lemma set_dict_of: "set (dict_of kvs) \<subseteq> set kvs"
proof -
  have up: "set (AList.update k v d) \<subseteq> insert (k, v) (set d)" for k :: pykey and v :: pyval and d
    by (induction d) auto
  have "set (fold (\<lambda>(k, v) d. AList.update k v d) kvs d) \<subseteq> set kvs \<union> set d" for d
  proof (induction kvs arbitrary: d)
    case (Cons kv kvs)
    obtain k v where kv: "kv = (k, v)" by (cases kv)
    from Cons [of "AList.update k v d"] up [of k v d] show ?case by (simp add: kv) blast
  qed simp
  from this [of "[]"] show ?thesis by (simp add: dict_of_def)
qed

lemma to_plain_safe: "tuple_free v \<Longrightarrow> json_safe (to_plain decode v)"
proof (induction decode v rule: to_plain.induct)
  case (1 decode fs)
  then show ?case using set_dict_of [of "map (\<lambda>(k, v). (KStr k, to_plain decode (asdict v))) fs"] by force
next
  case (4 decode kvs)
  then show ?case using set_dict_of [of "map (\<lambda>(k, v). (KStr (key_text k), to_plain decode v)) kvs"] by force
qed auto

end
