(* ===== verification/Report.thy ===== *)
theory Report
  imports Collector Py_Values "HOL-Library.List_Lexorder" "HOL-Library.Char_ord"
begin

text \<open>
  \<open>diagnostics/collector.py\<close>, the report: the statistics of the server, the pressure between two
  snapshots, the recommendations and the health, and its JSON form after \<open>diagnostics/models.py\<close>. What
  one snapshot meets outside the package (the store at the atomic script and at the advisory reads after it,
  the replies to INFO, SLOWLOG and SCAN, the two readings of the clock) is a \<open>moment\<close>.
\<close>

section \<open>The collector\<close>

record collector = config +
  co_sample_limit :: nat
  co_scan_limit :: int

definition new_collector :: "string \<Rightarrow> string \<Rightarrow> bool \<Rightarrow> int \<Rightarrow> int \<Rightarrow> collector" where
  "new_collector pfx sfx sh sample_limit scan_limit =
     \<lparr>prefix = pfx, suffix = sfx, shared = sh, co_sample_limit = nat (max 0 sample_limit),
      co_scan_limit = max 0 scan_limit\<rparr>"

text \<open>A reply \<open>None\<close> to INFO or SLOWLOG is a command that raises.\<close>

record 's moment =
  mo_store :: 's
  mo_later :: 's
  mo_page :: "string \<Rightarrow> string \<Rightarrow> string \<times> string list"
  mo_info :: "string \<Rightarrow> (string \<times> pyval) list option"
  mo_slowlog :: "nat \<Rightarrow> pyval list option"
  mo_clock :: rat
  mo_pressure_time :: rat
  mo_time :: rat

section \<open>Statistics of the server\<close>

record redis_diagnostics =
  rd_used_memory :: int
  rd_connected_clients :: int
  rd_commandstats :: "(string \<times> pyval) list"
  rd_slowlog :: "pyval list"

text \<open>\<open>int(x or 0)\<close> of what \<open>get\<close> returned: a falsy value is zero, a text is read, a container is no number.\<close>

fun int_or_zero :: "(string \<Rightarrow> int option) \<Rightarrow> pyval option \<Rightarrow> error + int" where
  "int_or_zero rd_int None = Inr 0"
| "int_or_zero rd_int (Some PNone) = Inr 0"
| "int_or_zero rd_int (Some (PBool b)) = Inr (if b then 1 else 0)"
| "int_or_zero rd_int (Some (PInt n)) = Inr n"
| "int_or_zero rd_int (Some (PFloat r)) = Inr (py_int r)"
| "int_or_zero rd_int (Some (PStr t)) =
     (if t = '''' then Inr 0 else (case rd_int t of None \<Rightarrow> Inl ValueError | Some n \<Rightarrow> Inr n))"
| "int_or_zero rd_int (Some (PBytes t)) =
     (if t = '''' then Inr 0 else (case rd_int t of None \<Rightarrow> Inl ValueError | Some n \<Rightarrow> Inr n))"
| "int_or_zero rd_int (Some (PList vs)) = (if vs = [] then Inr 0 else Inl TypeError)"
| "int_or_zero rd_int (Some (PTuple vs)) = (if vs = [] then Inr 0 else Inl TypeError)"
| "int_or_zero rd_int (Some (PDict kvs)) = (if kvs = [] then Inr 0 else Inl TypeError)"
| "int_or_zero rd_int (Some (PData fs)) = Inl TypeError"

definition safe_info :: "'s moment \<Rightarrow> string \<Rightarrow> (string \<times> pyval) list" where
  "safe_info mo info_section = (case mo_info mo info_section of None \<Rightarrow> [] | Some reply \<Rightarrow> reply)"

definition safe_slowlog :: "nat \<Rightarrow> 's moment \<Rightarrow> pyval list" where
  "safe_slowlog sample_limit mo = (case mo_slowlog mo sample_limit of None \<Rightarrow> [] | Some reply \<Rightarrow> reply)"

definition collect_redis :: "(string \<Rightarrow> int option) \<Rightarrow> nat \<Rightarrow> 's moment \<Rightarrow> error + redis_diagnostics" where
  "collect_redis rd_int sample_limit mo =
     (let memory = safe_info mo ''memory''; clients = safe_info mo ''clients''; commandstats = safe_info mo ''commandstats'' in
      case int_or_zero rd_int (map_of memory ''used_memory'') of
        Inl e \<Rightarrow> Inl e
      | Inr used_memory \<Rightarrow>
          (case int_or_zero rd_int (map_of clients ''connected_clients'') of
             Inl e \<Rightarrow> Inl e
           | Inr connected_clients \<Rightarrow>
               Inr \<lparr>rd_used_memory = used_memory, rd_connected_clients = connected_clients,
                    rd_commandstats = commandstats, rd_slowlog = safe_slowlog sample_limit mo\<rparr>))"

section \<open>Command counters\<close>

fun split_on :: "char \<Rightarrow> string \<Rightarrow> string list" where
  "split_on c [] = [[]]"
| "split_on c (d # ds) = (if d = c then [] # split_on c ds
     else (case split_on c ds of [] \<Rightarrow> [[d]] | p # ps \<Rightarrow> (d # p) # ps))"

definition split_pair :: "string \<Rightarrow> (string \<times> string) option" where
  "split_pair part = (if CHR ''='' \<in> set part
     then Some (takeWhile (\<lambda>c. c \<noteq> CHR ''='') part, tl (dropWhile (\<lambda>c. c \<noteq> CHR ''='') part)) else None)"

text \<open>\<open>dict(...)\<close>: a later pair replaces an earlier one.\<close>

definition text_calls :: "(string \<Rightarrow> int option) \<Rightarrow> string \<Rightarrow> error + int" where
  "text_calls rd_int text =
     int_or_zero rd_int
       (map_option PStr (map_of (rev (List.map_filter split_pair (split_on (CHR '','') text))) ''calls''))"

fun remove_all :: "string \<Rightarrow> string \<Rightarrow> string" where
  "remove_all pat [] = []"
| "remove_all pat (c # cs) =
     (if pat \<noteq> [] \<and> take (length pat) (c # cs) = pat then remove_all pat (drop (length pat) (c # cs))
      else c # remove_all pat cs)"

text \<open>A value that is neither a dictionary nor a text is passed over.\<close>

fun stat_calls :: "(string \<Rightarrow> int option) \<Rightarrow> pyval \<Rightarrow> (error + int) option" where
  "stat_calls rd_int (PDict kvs) = Some (int_or_zero rd_int (map_of kvs (KStr ''calls'')))"
| "stat_calls rd_int (PStr t) = Some (text_calls rd_int t)"
| "stat_calls rd_int v = None"

fun command_calls :: "(string \<Rightarrow> int option) \<Rightarrow> (string \<times> pyval) list \<Rightarrow> (string \<times> int) list \<Rightarrow> error + (string \<times> int) list" where
  "command_calls rd_int [] calls = Inr calls"
| "command_calls rd_int ((name, val) # stats) calls =
     (let command = remove_all ''cmdstat_'' name in
      case stat_calls rd_int val of
        None \<Rightarrow> command_calls rd_int stats calls
      | Some (Inl e) \<Rightarrow> Inl e
      | Some (Inr n) \<Rightarrow> command_calls rd_int stats (AList.update command n calls))"

definition get_calls :: "(string \<times> int) list \<Rightarrow> string \<Rightarrow> int" where
  "get_calls calls command = (case map_of calls command of None \<Rightarrow> 0 | Some n \<Rightarrow> n)"

section \<open>The report\<close>

record pressure_diagnostics =
  pr_interval :: rat
  pr_ops :: rat
  pr_keyspace_delta :: int
  pr_deltas :: "(string \<times> int) list"

definition no_pressure :: pressure_diagnostics where
  "no_pressure = \<lparr>pr_interval = 0, pr_ops = 0, pr_keyspace_delta = 0, pr_deltas = []\<rparr>"

record identity_diagnostics =
  id_prefix :: string
  id_suffix :: string
  id_shared :: bool

record integrity_diagnostics =
  ig_ok :: bool
  ig_violations :: "violation list"

record recommendation =
  rc_severity :: string
  rc_message :: string
  rc_code :: string

record report =
  ds_timestamp :: rat
  ds_identity :: identity_diagnostics
  ds_health :: string
  ds_integrity :: integrity_diagnostics
  ds_pool :: pool_diagnostics
  ds_bindings :: binding_diagnostics
  ds_orphans :: orphan_diagnostics
  ds_redis :: redis_diagnostics
  ds_pressure :: pressure_diagnostics
  ds_recommendations :: "recommendation list"

text \<open>The growth of every counter that grew, over the commands of both sides in sorted order.\<close>

definition positive_deltas :: "(string \<times> int) list \<Rightarrow> (string \<times> int) list \<Rightarrow> (string \<times> int) list" where
  "positive_deltas previous_calls current_calls =
     (let commands = sort (remdups (map fst previous_calls @ map fst current_calls));
          deltas = map (\<lambda>command. (command, get_calls current_calls command - get_calls previous_calls command)) commands in
      filter (\<lambda>(command, delta). delta > 0) deltas)"

definition pressure :: "(string \<Rightarrow> int option) \<Rightarrow> report option \<Rightarrow> rat \<Rightarrow> redis_diagnostics \<Rightarrow> nat \<Rightarrow>
    error + pressure_diagnostics" where
  "pressure rd_int previous now current_redis total_keys =
     (case previous of
        None \<Rightarrow> Inr no_pressure
      | Some p \<Rightarrow>
          (let interval = max (now - ds_timestamp p) 0 in
           if interval \<le> 0 then Inr no_pressure
           else
             (case command_calls rd_int (rd_commandstats (ds_redis p)) [] of
                Inl e \<Rightarrow> Inl e
              | Inr previous_calls \<Rightarrow>
                  (case command_calls rd_int (rd_commandstats current_redis) [] of
                     Inl e \<Rightarrow> Inl e
                   | Inr current_calls \<Rightarrow>
                       (let deltas = positive_deltas previous_calls current_calls in
                        Inr \<lparr>pr_interval = interval, pr_ops = of_int (sum_list (map snd deltas)) / interval,
                             pr_keyspace_delta = int total_keys - int (pd_total (ds_pool p)), pr_deltas = deltas\<rparr>)))))"

definition recommend :: "string \<Rightarrow> string \<Rightarrow> string \<Rightarrow> recommendation" where
  "recommend severity message code = \<lparr>rc_severity = severity, rc_message = message, rc_code = code\<rparr>"

definition recommendations ::
  "integrity_diagnostics \<Rightarrow> pool_diagnostics \<Rightarrow> binding_diagnostics \<Rightarrow> orphan_diagnostics \<Rightarrow> pressure_diagnostics \<Rightarrow>
    recommendation list" where
  "recommendations integrity pd bindings orphans press =
     (if \<not> ig_ok integrity
      then [recommend ''critical'' ''Stop writers and capture diagnostics JSON before any repair attempt.'' ''integrity-corrupt'']
      else []) @
     (if od_count orphans > 0
      then [recommend ''warning'' ''Orphan locks exist; audit assign/shrink churn and evicted resources.'' ''orphan-locks'']
      else []) @
     (if od_truncated orphans \<or> bd_truncated bindings
      then [recommend ''info'' ''Advisory scan was truncated; raise scan_limit for a wider sample.'' ''scan-truncated'']
      else []) @
     (if pd_permanent pd > 0
      then [recommend ''info'' ''Permanent locks exist; audit timeout <= 0 usage.'' ''permanent-locks''] else []) @
     (if pd_total pd > 0 \<and> (of_nat (pd_free pd) / of_nat (pd_total pd) :: rat) < 1 / 10
      then [recommend ''warning'' ''Free pool is below 10%; increase capacity or reduce allocation timeout.'' ''low-free-capacity'']
      else []) @
     (if bd_stale bindings > 0
      then [recommend ''info'' ''Stale soft bindings exist; consider unbinding inactive names.'' ''stale-bindings''] else []) @
     (if get_calls (pr_deltas press) ''eval'' > 100
      then [recommend ''info'' ''High EVAL volume observed; inspect allocation rate and dashboard interval.'' ''high-eval-pressure'']
      else [])"

definition health :: "integrity_diagnostics \<Rightarrow> recommendation list \<Rightarrow> string" where
  "health integrity recs =
     (if \<not> ig_ok integrity then ''corrupt'' else if recs \<noteq> [] then ''degraded'' else ''healthy'')"

text \<open>\<open>None\<close>: one of the scans never ends.\<close>

definition take_snapshot :: "'s redis \<Rightarrow> (string \<Rightarrow> int option) \<Rightarrow> collector \<Rightarrow> report option \<Rightarrow> 's moment \<Rightarrow>
    (error + report) option" where
  "take_snapshot R rd_int D previous mo =
     (let raw = collect_raw_pool R rd_int (mo_clock mo) D (mo_store mo);
          violations = check_invariants raw;
          integrity = \<lparr>ig_ok = (violations = []), ig_violations = violations\<rparr>;
          pd = summarize_pool raw;
          scan_keys = (\<lambda>pat. bounded_scan (mo_page mo pat) (co_scan_limit D)) in
      case collect_bindings R scan_keys D (co_sample_limit D) raw (mo_later mo) of
        None \<Rightarrow> None
      | Some bindings \<Rightarrow>
          (case collect_orphans scan_keys D (co_sample_limit D) raw of
             None \<Rightarrow> None
           | Some orphans \<Rightarrow>
               Some (case collect_redis rd_int (co_sample_limit D) mo of
                       Inl e \<Rightarrow> Inl e
                     | Inr redis_info \<Rightarrow>
                         (case pressure rd_int previous (mo_pressure_time mo) redis_info (pd_total pd) of
                            Inl e \<Rightarrow> Inl e
                          | Inr press \<Rightarrow>
                              (let recs = recommendations integrity pd bindings orphans press in
                               Inr \<lparr>ds_timestamp = mo_time mo,
                                    ds_identity = \<lparr>id_prefix = prefix D, id_suffix = suffix D, id_shared = shared D\<rparr>,
                                    ds_health = health integrity recs, ds_integrity = integrity, ds_pool = pd,
                                    ds_bindings = bindings, ds_orphans = orphans, ds_redis = redis_info,
                                    ds_pressure = press, ds_recommendations = recs\<rparr>)))))"

end
