(* ===== verification/Dashboard.thy ===== *)
theory Dashboard
  imports Report
begin

text \<open>
  The report as a value of \<open>diagnostics/models.py\<close> and the server of \<open>diagnostics/dashboard.py\<close>. Each
  request runs \<open>_snapshot_payload\<close> under the lock of the server, so the snapshots of all requests form one
  sequence, each taken against the report of the one before. Sockets are reduced to what the handler sends,
  \<open>repr()\<close>, the decoding of bytes and \<open>json.dumps\<close> are parameters.
\<close>

section \<open>The texts of the violations\<close>

fun commas :: "string list \<Rightarrow> string" where
  "commas [] = ''''"
| "commas [x] = x"
| "commas (x # y # xs) = x @ '', '' @ commas (y # xs)"

definition list_text :: "(string \<Rightarrow> string) \<Rightarrow> string list \<Rightarrow> string" where
  "list_text repr xs = ''['' @ commas (map repr xs) @ '']''"

fun violation_text :: "(string \<Rightarrow> string) \<Rightarrow> violation \<Rightarrow> string" where
  "violation_text repr (ForwardCycle k) = ''forward walk cycle detected at '' @ repr k"
| "violation_text repr (BackwardCycle k) = ''backward walk cycle detected at '' @ repr k"
| "violation_text repr (WalksDiffer forward backward) =
     ''forward/backward mismatch: forward='' @ list_text repr forward @ '', backward='' @ list_text repr backward"
| "violation_text repr (FreeSetsDiffer walked in_hash) =
     ''walked free set differs from hash free set: walked='' @ list_text repr (sort (remdups walked)) @
     '', entries='' @ list_text repr (sort (remdups in_hash))"
| "violation_text repr (EmptyPoolPointers head tail) =
     ''empty pool has non-empty pointers: head='' @ repr head @ '', tail='' @ repr tail"
| "violation_text repr (PointerImbalance head tail) =
     ''head/tail pointer imbalance: head='' @ repr head @ '', tail='' @ repr tail"
| "violation_text repr (HeadMissing k) = ''head points to missing entry: '' @ repr k"
| "violation_text repr (HeadPrevSet head prev) =
     ''head entry prev is not empty: head='' @ repr head @ '', prev='' @ repr prev"
| "violation_text repr (TailMissing k) = ''tail points to missing entry: '' @ repr k"
| "violation_text repr (TailNextSet tail nxt_key) =
     ''tail entry next is not empty: tail='' @ repr tail @ '', next='' @ repr nxt_key"
| "violation_text repr (FreeLocked k) = ''free entry has lock key: '' @ repr k"
| "violation_text repr (HalfAllocated k) = ''half-allocated entry: '' @ repr k"

section \<open>The data classes as values\<close>

definition count_val :: "nat \<Rightarrow> pyval" where
  "count_val n = PInt (int n)"

definition identity_value :: "identity_diagnostics \<Rightarrow> pyval" where
  "identity_value d =
     PData [(''prefix'', PStr (id_prefix d)), (''suffix'', PStr (id_suffix d)), (''shared'', PBool (id_shared d))]"

definition integrity_value :: "(string \<Rightarrow> string) \<Rightarrow> integrity_diagnostics \<Rightarrow> pyval" where
  "integrity_value repr d =
     PData [(''ok'', PBool (ig_ok d)), (''violations'', PList (map (PStr \<circ> violation_text repr) (ig_violations d)))]"

definition pool_value :: "pool_diagnostics \<Rightarrow> pyval" where
  "pool_value d =
     PData [(''total'', count_val (pd_total d)), (''free'', count_val (pd_free d)),
       (''allocated_markers'', count_val (pd_allocated d)), (''locked'', count_val (pd_locked d)),
       (''expired_entries'', count_val (pd_expired d)), (''permanent_locks'', count_val (pd_permanent d)),
       (''reclaimable'', count_val (pd_reclaimable d))]"

definition sample_value :: "string \<times> string option \<Rightarrow> pyval" where
  "sample_value sample =
     PDict [(KStr ''name'', PStr (fst sample)),
       (KStr ''key'', case snd sample of None \<Rightarrow> PNone | Some v \<Rightarrow> PStr v)]"

definition bindings_value :: "binding_diagnostics \<Rightarrow> pyval" where
  "bindings_value d =
     PData [(''total'', count_val (bd_total d)), (''stale'', count_val (bd_stale d)),
       (''scanned'', count_val (bd_scanned d)), (''truncated'', PBool (bd_truncated d)),
       (''samples'', PList (map sample_value (bd_samples d)))]"

definition orphans_value :: "orphan_diagnostics \<Rightarrow> pyval" where
  "orphans_value d =
     PData [(''count'', count_val (od_count d)), (''scanned'', count_val (od_scanned d)),
       (''truncated'', PBool (od_truncated d)), (''samples'', PList (map PStr (od_samples d)))]"

definition redis_value :: "redis_diagnostics \<Rightarrow> pyval" where
  "redis_value d =
     PData [(''used_memory'', PInt (rd_used_memory d)), (''connected_clients'', PInt (rd_connected_clients d)),
       (''commandstats'', PDict (map (\<lambda>(k, v). (KStr k, v)) (rd_commandstats d))),
       (''slowlog'', PList (rd_slowlog d))]"

definition pressure_value :: "pressure_diagnostics \<Rightarrow> pyval" where
  "pressure_value d =
     PData [(''interval_seconds'', PFloat (pr_interval d)), (''redis_ops_per_sec'', PFloat (pr_ops d)),
       (''allocator_keyspace_delta'', PInt (pr_keyspace_delta d)),
       (''command_deltas'', PDict (map (\<lambda>(k, n). (KStr k, PInt n)) (pr_deltas d)))]"

definition recommendation_value :: "recommendation \<Rightarrow> pyval" where
  "recommendation_value d =
     PData [(''severity'', PStr (rc_severity d)), (''message'', PStr (rc_message d)), (''code'', PStr (rc_code d))]"

definition report_value :: "(string \<Rightarrow> string) \<Rightarrow> report \<Rightarrow> pyval" where
  "report_value repr r =
     PData [(''timestamp'', PFloat (ds_timestamp r)), (''identity'', identity_value (ds_identity r)),
       (''health'', PStr (ds_health r)), (''integrity'', integrity_value repr (ds_integrity r)),
       (''pool'', pool_value (ds_pool r)), (''bindings'', bindings_value (ds_bindings r)),
       (''orphans'', orphans_value (ds_orphans r)), (''redis'', redis_value (ds_redis r)),
       (''pressure'', pressure_value (ds_pressure r)),
       (''recommendations'', PList (map recommendation_value (ds_recommendations r)))]"

section \<open>to_dict and to_json\<close>

record texts =
  tx_repr :: "string \<Rightarrow> string"
  tx_decode :: "string \<Rightarrow> string"
  tx_dumps :: "int option \<Rightarrow> pyval \<Rightarrow> error + string"

definition to_dict :: "texts \<Rightarrow> report \<Rightarrow> pyval" where
  "to_dict X r = to_plain (tx_decode X) (report_value (tx_repr X) r)"

definition to_json :: "texts \<Rightarrow> int option \<Rightarrow> report \<Rightarrow> error + string" where
  "to_json X indent r = tx_dumps X indent (to_dict X r)"

definition snapshot_json :: "'s redis \<Rightarrow> (string \<Rightarrow> int option) \<Rightarrow> texts \<Rightarrow> collector \<Rightarrow> report option \<Rightarrow> int option \<Rightarrow> 's moment \<Rightarrow>
    (error + string) option" where
  "snapshot_json R rd_int X D previous indent mo =
     map_option (\<lambda>result. case result of Inl e \<Rightarrow> Inl e | Inr r \<Rightarrow> to_json X indent r) (take_snapshot R rd_int D previous mo)"

section \<open>The server\<close>

text \<open>What the handler is given: the \<open>snapshot\<close> method of the diagnostics object, the page, and the seconds
  between two events of a stream.\<close>

record 'm dashboard =
  da_snapshot :: "report option \<Rightarrow> 'm \<Rightarrow> (error + report) option"
  da_texts :: texts
  da_html :: string
  da_interval :: rat

text \<open>A snapshot that raises leaves the previous one in place.\<close>

definition snapshot_payload :: "'m dashboard \<Rightarrow> 'm \<Rightarrow> report option \<Rightarrow> ((error + pyval) \<times> report option) option" where
  "snapshot_payload H mo previous =
     (case da_snapshot H previous mo of
        None \<Rightarrow> None
      | Some (Inl e) \<Rightarrow> Some (Inl e, previous)
      | Some (Inr r) \<Rightarrow> Some (Inr (to_dict (da_texts H) r), Some r))"

definition payload_text :: "'m dashboard \<Rightarrow> 'm \<Rightarrow> report option \<Rightarrow> ((error + string) \<times> report option) option" where
  "payload_text H mo previous =
     map_option (\<lambda>(result, p). (case result of Inl e \<Rightarrow> Inl e | Inr d \<Rightarrow> tx_dumps (da_texts H) None d, p))
       (snapshot_payload H mo previous)"

text \<open>
  How a handler stands: waiting in a sleep or for a reply, returned because the client closed the
  connection, left by an exception, or stuck in a scan that never ends.
\<close>

datatype progress = Running | Closed | Failed error | Hung

text \<open>
  The loop of \<open>/api/events\<close> over the moments it meets; the flag says whether the write of that round
  succeeds. The snapshot of a round whose write fails has been taken and stays the previous one. To sleep for
  a negative time is a ValueError.
\<close>

fun event_stream :: "'m dashboard \<Rightarrow> ('m \<times> bool) list \<Rightarrow> report option \<Rightarrow> string list \<times> progress \<times> report option" where
  "event_stream H [] previous = ([], Running, previous)"
| "event_stream H ((mo, sent) # rounds) previous =
     (case payload_text H mo previous of
        None \<Rightarrow> ([], Hung, previous)
      | Some (Inl e, p) \<Rightarrow> ([], Failed e, p)
      | Some (Inr payload, p) \<Rightarrow>
          if sent \<and> da_interval H < 0 then ([''data: '' @ payload @ [CHR 0x0A, CHR 0x0A]], Failed ValueError, p)
          else if sent then
            (case event_stream H rounds p of (frames, rest) \<Rightarrow>
               ((''data: '' @ payload @ [CHR 0x0A, CHR 0x0A]) # frames, rest))
          else ([], Closed, p))"

datatype answer =
    Answer nat string string
  | Stream "string list" progress
  | Unanswered progress

definition do_GET :: "'m dashboard \<Rightarrow> string \<Rightarrow> ('m \<times> bool) list \<Rightarrow> report option \<Rightarrow> answer \<times> report option" where
  "do_GET H path rounds previous =
     (if path = ''/'' then (Answer 200 ''text/html; charset=utf-8'' (da_html H), previous)
      else if path = ''/api/snapshot'' then
        (case rounds of
           [] \<Rightarrow> (Unanswered Running, previous)
         | (mo, _) # _ \<Rightarrow>
             (case payload_text H mo previous of
                None \<Rightarrow> (Unanswered Hung, previous)
              | Some (Inl e, p) \<Rightarrow> (Unanswered (Failed e), p)
              | Some (Inr body, p) \<Rightarrow> (Answer 200 ''application/json; charset=utf-8'' body, p)))
      else if path = ''/api/events'' then
        (case event_stream H rounds previous of (frames, state, p) \<Rightarrow> (Stream frames state, p))
      else (Answer 404 ''text/plain; charset=utf-8'' ''not found'', previous))"

text \<open>
  The reports of a sequence of snapshots, in the order in which the lock lets the requests in, and
  whatever requests they belong to. One that raises reports nothing.
\<close>

fun reports :: "'m dashboard \<Rightarrow> 'm list \<Rightarrow> report option \<Rightarrow> report list" where
  "reports H [] previous = []"
| "reports H (mo # moments) previous =
     (case da_snapshot H previous mo of
        Some (Inr r) \<Rightarrow> r # reports H moments (Some r)
      | _ \<Rightarrow> reports H moments previous)"

definition create_dashboard_server :: "'s redis \<Rightarrow> (string \<Rightarrow> int option) \<Rightarrow> texts \<Rightarrow> string \<Rightarrow> collector \<Rightarrow> rat \<Rightarrow>
    's moment dashboard" where
  "create_dashboard_server R rd_int X html D interval =
     \<lparr>da_snapshot = take_snapshot R rd_int D, da_texts = X, da_html = html, da_interval = interval\<rparr>"

text \<open>
  \<open>serve_dashboard\<close> from the moment the socket is bound: it announces the address the socket has, answers
  the requests, and returns when it is interrupted. \<open>bind\<close> is the socket's answer to a host and a port.
\<close>

fun serve_forever :: "'m dashboard \<Rightarrow> (string \<times> ('m \<times> bool) list) list \<Rightarrow> report option \<Rightarrow> answer list" where
  "serve_forever H [] previous = []"
| "serve_forever H ((path, rounds) # requests) previous =
     (case do_GET H path rounds previous of (a, p) \<Rightarrow> a # serve_forever H requests p)"

definition serve_dashboard :: "'m dashboard \<Rightarrow> (string \<Rightarrow> int \<Rightarrow> error + string \<times> int) \<Rightarrow> string \<Rightarrow> int \<Rightarrow>
    (string \<times> ('m \<times> bool) list) list \<Rightarrow> error + string \<times> answer list" where
  "serve_dashboard H bind host port requests =
     (case bind host port of
        Inl e \<Rightarrow> Inl e
      | Inr (actual_host, actual_port) \<Rightarrow>
          Inr (''RedisAllocator diagnostics dashboard: http://'' @ actual_host @ '':'' @ tostring actual_port @ [CHR 0x0A],
            serve_forever H requests None))"

end
