(* ===== verification/Cli.thy ===== *)
theory Cli
  imports Dashboard
begin

text \<open>
  \<open>diagnostics/cli.py\<close>: the options of the command line and what \<open>main\<close> does with them. The parser is
  \<open>argparse\<close> on the options of \<open>build_parser\<close>: long options with their value behind an equals sign or as the next
  word, unambiguous abbreviations, the last value of an option wins, \<open>-h\<close>. An error in the command line
  ends the process with status 2, \<open>-h\<close> with status 0.
\<close>

section \<open>The options\<close>

datatype kind = TextOpt | IntOpt | FloatOpt | FlagOpt | HelpOpt

definition option_table :: "(string \<times> kind) list" where
  "option_table =
     [(''-h'', HelpOpt), (''--help'', HelpOpt), (''--redis-url'', TextOpt), (''--prefix'', TextOpt),
      (''--suffix'', TextOpt), (''--shared'', FlagOpt), (''--sample-limit'', IntOpt), (''--scan-limit'', IntOpt),
      (''--json'', FlagOpt), (''--interval'', FloatOpt), (''--host'', TextOpt), (''--port'', IntOpt)]"

record cli_args =
  ca_redis_url :: string
  ca_prefix :: "string option"
  ca_suffix :: string
  ca_shared :: bool
  ca_sample_limit :: int
  ca_scan_limit :: int
  ca_json :: bool
  ca_interval :: rat
  ca_host :: string
  ca_port :: int

text \<open>The option \<open>--prefix\<close> is required: None says that it was not given.\<close>

definition default_args :: cli_args where
  "default_args =
     \<lparr>ca_redis_url = ''redis://localhost:6379/0'', ca_prefix = None, ca_suffix = ''allocator'', ca_shared = False,
      ca_sample_limit = 20, ca_scan_limit = 1000, ca_json = False, ca_interval = 1, ca_host = ''127.0.0.1'',
      ca_port = 8765\<rparr>"

section \<open>The words of a command line\<close>

text \<open>
  A word names an option, with the value behind its first equals sign if there is one, or it is a value, or it
  looks like an option and is none. Behind a bare \<open>--\<close> every word is a value.
\<close>

datatype cli_word = Known string "string option" | Val string | Stranger | Dashes

definition at_equals :: "string \<Rightarrow> string \<times> string option" where
  "at_equals t =
     (case dropWhile (\<lambda>c. c \<noteq> CHR ''='') t of
        [] \<Rightarrow> (t, None)
      | _ # v \<Rightarrow> (takeWhile (\<lambda>c. c \<noteq> CHR ''='') t, Some v))"

text \<open>The options a word with two dashes may abbreviate.\<close>

definition abbreviated :: "string \<Rightarrow> (string \<times> string option) list" where
  "abbreviated t =
     (if take 2 t = ''--'' then
        (case at_equals t of (p, v) \<Rightarrow> map (\<lambda>(name, _). (name, v)) (filter (\<lambda>(name, _). take (length p) name = p) option_table))
      else [])"

text \<open>A number with a minus sign is a value.\<close>

definition all_digits :: "string \<Rightarrow> bool" where
  "all_digits t \<longleftrightarrow> t \<noteq> [] \<and> list_all (\<lambda>c. char_digit c \<noteq> None) t"

definition negative_number :: "string \<Rightarrow> bool" where
  "negative_number t \<longleftrightarrow>
     (case t of
        [] \<Rightarrow> False
      | c # u \<Rightarrow> c = CHR ''-'' \<and>
          (all_digits u \<or>
           (case dropWhile (\<lambda>d. char_digit d \<noteq> None) u of [] \<Rightarrow> False | d # v \<Rightarrow> d = CHR ''.'' \<and> all_digits v)))"

text \<open>None: the abbreviation is ambiguous.\<close>

definition cli_word_of :: "string \<Rightarrow> cli_word option" where
  "cli_word_of t =
     (if t = [] \<or> hd t \<noteq> CHR ''-'' then Some (Val t)
      else if t \<in> fst ` set option_table then Some (Known t None)
      else if length t = 1 then Some (Val t)
      else if take 2 t = ''-h'' then Some (Known ''-h'' (Some (drop 2 t)))
      else if snd (at_equals t) \<noteq> None \<and> fst (at_equals t) \<in> fst ` set option_table then
        Some (Known (fst (at_equals t)) (snd (at_equals t)))
      else
        (case abbreviated t of
           _ # _ # _ \<Rightarrow> None
         | [(name, v)] \<Rightarrow> Some (Known name v)
         | [] \<Rightarrow> Some (if negative_number t \<or> CHR '' '' \<in> set t then Val t else Stranger)))"

fun cli_words :: "string list \<Rightarrow> cli_word list option" where
  "cli_words [] = Some []"
| "cli_words (t # ts) =
     (if t = ''--'' then Some (Dashes # map Val ts)
      else (case cli_word_of t of
              None \<Rightarrow> None
            | Some u \<Rightarrow> (case cli_words ts of None \<Rightarrow> None | Some us \<Rightarrow> Some (u # us))))"

section \<open>parse_args\<close>

text \<open>What \<open>int()\<close> and \<open>float()\<close> read is a parameter. None: the text is no number.\<close>

record readers =
  rd_int_text :: "string \<Rightarrow> int option"
  rd_float_text :: "string \<Rightarrow> rat option"

definition store_value :: "readers \<Rightarrow> string \<Rightarrow> string \<Rightarrow> cli_args \<Rightarrow> cli_args option" where
  "store_value X name v a =
     (if name = ''--redis-url'' then Some (a\<lparr>ca_redis_url := v\<rparr>)
      else if name = ''--prefix'' then Some (a\<lparr>ca_prefix := Some v\<rparr>)
      else if name = ''--suffix'' then Some (a\<lparr>ca_suffix := v\<rparr>)
      else if name = ''--sample-limit'' then map_option (\<lambda>n. a\<lparr>ca_sample_limit := n\<rparr>) (rd_int_text X v)
      else if name = ''--scan-limit'' then map_option (\<lambda>n. a\<lparr>ca_scan_limit := n\<rparr>) (rd_int_text X v)
      else if name = ''--interval'' then map_option (\<lambda>x. a\<lparr>ca_interval := x\<rparr>) (rd_float_text X v)
      else if name = ''--host'' then Some (a\<lparr>ca_host := v\<rparr>)
      else if name = ''--port'' then map_option (\<lambda>n. a\<lparr>ca_port := n\<rparr>) (rd_int_text X v)
      else None)"

definition store_true :: "string \<Rightarrow> cli_args \<Rightarrow> cli_args" where
  "store_true name a = (if name = ''--shared'' then a\<lparr>ca_shared := True\<rparr> else a\<lparr>ca_json := True\<rparr>)"

datatype parsed = Arguments cli_args | ExitStatus nat

text \<open>
  The flag says whether a word was left over, which is an error at the end. What follows \<open>-h\<close> in its word is
  read as further options of one letter, as in Python 3.11.
\<close>

fun consume :: "readers \<Rightarrow> cli_word list \<Rightarrow> cli_args \<Rightarrow> bool \<Rightarrow> parsed" where
  "consume X [] a extra = (if ca_prefix a = None \<or> extra then ExitStatus 2 else Arguments a)"
| "consume X (Val v # us) a extra = consume X us a True"
| "consume X (Stranger # us) a extra = consume X us a True"
| "consume X (Dashes # us) a extra = consume X us a True"
| "consume X (Known name explicit # us) a extra =
     (case map_of option_table name of
        None \<Rightarrow> ExitStatus 2
      | Some HelpOpt \<Rightarrow>
          (case explicit of
             None \<Rightarrow> ExitStatus 0
           | Some v \<Rightarrow>
               (case dropWhile (\<lambda>c. c = CHR ''h'') v of
                  [] \<Rightarrow> ExitStatus (if name = ''-h'' then 0 else 2)
                | c # _ \<Rightarrow> ExitStatus (if name = ''-h'' \<and> c \<noteq> CHR ''='' \<and> c \<noteq> CHR ''-'' then 0 else 2)))
      | Some FlagOpt \<Rightarrow> (if explicit = None then consume X us (store_true name a) extra else ExitStatus 2)
      | Some _ \<Rightarrow>
          (case explicit of
             Some v \<Rightarrow> (case store_value X name v a of None \<Rightarrow> ExitStatus 2 | Some b \<Rightarrow> consume X us b extra)
           | None \<Rightarrow>
               (case us of
                  Val v # vs \<Rightarrow> (case store_value X name v a of None \<Rightarrow> ExitStatus 2 | Some b \<Rightarrow> consume X vs b extra)
                | _ \<Rightarrow> ExitStatus 2)))"

definition parse_args :: "readers \<Rightarrow> string list \<Rightarrow> parsed" where
  "parse_args X argv = (case cli_words argv of None \<Rightarrow> ExitStatus 2 | Some us \<Rightarrow> consume X us default_args False)"

section \<open>main\<close>

text \<open>
  What the process meets: the client that \<open>Redis.from_url\<close> makes for a URL, the moment of the one snapshot, the
  page, the socket, and the requests until the interrupt. Numbers in replies are read by \<open>rd_int\<close>.
\<close>

record 's surroundings =
  su_connect :: "string \<Rightarrow> error + 's redis"
  su_moment :: "'s moment"
  su_html :: string
  su_bind :: "string \<Rightarrow> int \<Rightarrow> error + string \<times> int"
  su_requests :: "(string \<times> ('s moment \<times> bool) list) list"

text \<open>
  \<open>Finished n out served\<close>: the exit status, what \<open>main\<close> printed (the parser's usage text is left out), and the answers of the dashboard.
  \<open>Stuck\<close>: the scan of the snapshot never ends.
\<close>

datatype ending = Finished nat string "answer list" | Traceback error | Stuck

definition cli_main :: "readers \<Rightarrow> (string \<Rightarrow> int option) \<Rightarrow> texts \<Rightarrow> 's surroundings \<Rightarrow> string list \<Rightarrow> ending" where
  "cli_main X rd_int T E argv =
     (case parse_args X argv of
        ExitStatus n \<Rightarrow> Finished n [] []
      | Arguments a \<Rightarrow>
          (case su_connect E (ca_redis_url a) of
             Inl e \<Rightarrow> Traceback e
           | Inr R \<Rightarrow>
               let diagnostics = new_collector (the (ca_prefix a)) (ca_suffix a) (ca_shared a) (ca_sample_limit a)
                     (ca_scan_limit a) in
               if ca_json a then
                 (case snapshot_json R rd_int T diagnostics None (Some 2) (su_moment E) of
                    None \<Rightarrow> Stuck
                  | Some (Inl e) \<Rightarrow> Traceback e
                  | Some (Inr t) \<Rightarrow> Finished 0 (t @ [CHR 0x0A]) [])
               else
                 (case serve_dashboard (create_dashboard_server R rd_int T (su_html E) diagnostics (ca_interval a))
                         (su_bind E) (ca_host a) (ca_port a) (su_requests E) of
                    Inl e \<Rightarrow> Traceback e
                  | Inr (out, answers) \<Rightarrow> Finished 0 out answers)))"

end
