(* ===== verification/Dashboard_Proofs.thy ===== *)
theory Dashboard_Proofs
  imports Dashboard
begin

text \<open>
  The advisory scans end, a snapshot over readable statistics returns a report that JSON can carry, and the
  pressure of successive reports adds up.
\<close>

section \<open>The bounded scan\<close>

lemma scan_loop_bound:
  assumes "scan_loop page limit cursor keys = Some sc" and "length keys \<le> limit"
  shows "length (sc_keys sc) = sc_scanned sc \<and> sc_scanned sc \<le> limit"
proof -
  have "length keys \<le> limit \<longrightarrow> length (sc_keys sc) = sc_scanned sc \<and> sc_scanned sc \<le> limit"
  proof (rule scan_loop.raw_induct [where P = "\<lambda>page limit cursor keys sc.
        length keys \<le> limit \<longrightarrow> length (sc_keys sc) = sc_scanned sc \<and> sc_scanned sc \<le> limit", OF _ assms(1)], goal_cases)
    case (1 loop page limit cursor keys sc)
    then show ?case by (auto simp: Let_def split: prod.splits if_splits)
  qed
  with assms(2) show ?thesis by blast
qed

lemma scan_loop_ends:
  assumes "\<And>c. snd (page c) \<noteq> []"
  shows "\<exists>sc. scan_loop page limit cursor keys = Some sc"
proof (induction "Suc limit - length keys" arbitrary: cursor keys rule: less_induct)
  case less
  obtain cursor1 batch where page: "page cursor = (cursor1, batch)" by (cases "page cursor")
  then have batch: "batch \<noteq> []" using assms [of cursor] by simp
  show ?case
  proof (cases "length (keys @ batch) < limit")
    case True
    with batch have "Suc limit - length (keys @ batch) < Suc limit - length keys" by (cases batch) auto
    from less [OF this] page True show ?thesis by (subst scan_loop.simps) (auto simp: Let_def)
  qed (use page in \<open>subst scan_loop.simps, auto simp: Let_def\<close>)
qed

section \<open>Reports in JSON\<close>

text \<open>
  Statistics whose counters can be read, and a moment in which every reply can be used and every scan ends.
\<close>

definition stats_ok :: "(string \<Rightarrow> int option) \<Rightarrow> (string \<times> pyval) list \<Rightarrow> bool" where
  "stats_ok rd_int stats \<longleftrightarrow>
     (\<forall>(k, v)\<in>set stats. tuple_free v \<and> (case stat_calls rd_int v of Some (Inl e) \<Rightarrow> False | _ \<Rightarrow> True))"

definition is_number :: "(string \<Rightarrow> int option) \<Rightarrow> pyval option \<Rightarrow> bool" where
  "is_number rd_int v = (case int_or_zero rd_int v of Inl e \<Rightarrow> False | Inr n \<Rightarrow> True)"

definition moment_ok :: "(string \<Rightarrow> int option) \<Rightarrow> collector \<Rightarrow> 's moment \<Rightarrow> bool" where
  "moment_ok rd_int D mo \<longleftrightarrow>
     is_number rd_int (map_of (safe_info mo ''memory'') ''used_memory'') \<and>
     is_number rd_int (map_of (safe_info mo ''clients'') ''connected_clients'') \<and>
     stats_ok rd_int (safe_info mo ''commandstats'') \<and>
     (\<forall>v\<in>set (safe_slowlog (co_sample_limit D) mo). tuple_free v) \<and>
     (\<forall>pat. bounded_scan (mo_page mo pat) (co_scan_limit D) \<noteq> None)"

definition previous_ok :: "(string \<Rightarrow> int option) \<Rightarrow> report option \<Rightarrow> bool" where
  "previous_ok rd_int previous =
     (case previous of None \<Rightarrow> True | Some p \<Rightarrow> stats_ok rd_int (rd_commandstats (ds_redis p)))"

lemma tuple_free_parts:
  "tuple_free (count_val n)" "tuple_free (identity_value i)" "tuple_free (integrity_value repr g)"
  "tuple_free (pool_value d)" "tuple_free (bindings_value b)" "tuple_free (orphans_value od)"
  "tuple_free (pressure_value p)" "tuple_free (recommendation_value rc)"
  by (auto simp: count_val_def identity_value_def integrity_value_def pool_value_def bindings_value_def orphans_value_def
      pressure_value_def recommendation_value_def sample_value_def split: option.splits)

lemma tuple_free_report:
  assumes "stats_ok rd_int (rd_commandstats (ds_redis r))" and "\<forall>v\<in>set (rd_slowlog (ds_redis r)). tuple_free v"
  shows "tuple_free (report_value repr r)"
  using assms by (auto simp: report_value_def redis_value_def stats_ok_def tuple_free_parts)

lemma command_calls_readable: "stats_ok rd_int stats \<Longrightarrow> \<exists>m. command_calls rd_int stats calls = Inr m"
proof (induction stats arbitrary: calls)
  case (Cons kv stats)
  obtain k v where kv: "kv = (k, v)" by (cases kv)
  with Cons.prems have "stats_ok rd_int stats" "\<nexists>e. stat_calls rd_int v = Some (Inl e)"
    by (auto simp: stats_ok_def)
  with Cons.IH show ?case by (auto simp: kv Let_def split: option.splits sum.splits)
qed simp

lemma pressure_readable:
  assumes "previous_ok rd_int previous" and "stats_ok rd_int (rd_commandstats red)"
  shows "\<exists>p. pressure rd_int previous now red n = Inr p"
proof -
  obtain m where "command_calls rd_int (rd_commandstats red) [] = Inr m" using command_calls_readable [OF assms(2)] by blast
  with assms(1) command_calls_readable [of rd_int _ "[]"] show ?thesis
    by (fastforce simp: previous_ok_def pressure_def Let_def split: option.splits sum.splits)
qed

lemma scans_end:
  assumes "\<forall>pat. scan_keys pat \<noteq> None"
  shows "\<exists>b. collect_bindings R scan_keys A n raw s = Some b" and "\<exists>od. collect_orphans scan_keys A n raw = Some od"
proof -
  have "\<exists>b. collect_prefixes R scan_keys sh n raw s pfxs acc = Some b" for sh pfxs acc
  proof (induction pfxs arbitrary: acc)
    case (Cons pfx pfxs)
    then show ?case using assms by (cases acc) (auto simp: Let_def split: option.splits)
  qed simp
  then show "\<exists>b. collect_bindings R scan_keys A n raw s = Some b" unfolding collect_bindings_def .
  show "\<exists>od. collect_orphans scan_keys A n raw = Some od" using assms by (simp add: collect_orphans_def)
qed

lemma snapshot_returns:
  assumes "moment_ok rd_int D mo" and "previous_ok rd_int previous"
  shows "\<exists>r. take_snapshot R rd_int D previous mo = Some (Inr r) \<and> previous_ok rd_int (Some r) \<and>
    json_safe (to_dict X r)"
proof -
  let ?scan = "\<lambda>pat. bounded_scan (mo_page mo pat) (co_scan_limit D)"
  let ?raw = "collect_raw_pool R rd_int (mo_clock mo) D (mo_store mo)"
  have ok: "stats_ok rd_int (safe_info mo ''commandstats'')" "\<forall>v\<in>set (safe_slowlog (co_sample_limit D) mo). tuple_free v"
    "\<forall>pat. ?scan pat \<noteq> None" using assms(1) by (simp_all add: moment_ok_def)
  obtain b where b: "collect_bindings R ?scan D (co_sample_limit D) ?raw (mo_later mo) = Some b"
    using scans_end(1) [OF ok(3), of R D "co_sample_limit D" ?raw "mo_later mo"] by auto
  obtain od where od: "collect_orphans ?scan D (co_sample_limit D) ?raw = Some od"
    using scans_end(2) [OF ok(3), of D "co_sample_limit D" ?raw] by auto
  obtain red where red: "collect_redis rd_int (co_sample_limit D) mo = Inr red"
      "rd_commandstats red = safe_info mo ''commandstats''" "rd_slowlog red = safe_slowlog (co_sample_limit D) mo"
    using assms(1) by (auto simp: moment_ok_def is_number_def collect_redis_def Let_def split: sum.splits)
  obtain p where p: "pressure rd_int previous (mo_pressure_time mo) red (pd_total (summarize_pool ?raw)) = Inr p"
    using pressure_readable [OF assms(2)] ok(1) red(2) by metis
  obtain r where r: "take_snapshot R rd_int D previous mo = Some (Inr r)" "ds_redis r = red"
    using b od red(1) p by (simp add: take_snapshot_def Let_def)
  have "tuple_free (report_value (tx_repr X) r)" using tuple_free_report [of rd_int r] r(2) red ok by simp
  then have "json_safe (to_dict X r)" by (simp add: to_dict_def to_plain_safe)
  with r red(2) ok(1) show ?thesis by (auto simp: previous_ok_def)
qed

section \<open>The requests\<close>

lemma payload_returns:
  assumes "moment_ok rd_int D mo" and "previous_ok rd_int previous" and "\<And>i v. json_safe v \<Longrightarrow> \<exists>t. tx_dumps X i v = Inr t"
  shows "\<exists>t r. payload_text (create_dashboard_server R rd_int X html D interval) mo previous = Some (Inr t, Some r) \<and>
    to_json X None r = Inr t \<and> take_snapshot R rd_int D previous mo = Some (Inr r) \<and> previous_ok rd_int (Some r)"
proof -
  from snapshot_returns [OF assms(1,2), of R X] obtain r where
    r: "take_snapshot R rd_int D previous mo = Some (Inr r)" "previous_ok rd_int (Some r)" "json_safe (to_dict X r)" by blast
  with assms(3) [OF r(3)] show ?thesis
    by (auto simp: payload_text_def snapshot_payload_def create_dashboard_server_def to_json_def)
qed

lemma stream_runs:
  assumes "\<forall>(mo, sent)\<in>set rounds. moment_ok rd_int D mo" and "previous_ok rd_int previous"
    and "\<And>i v. json_safe v \<Longrightarrow> \<exists>t. tx_dumps X i v = Inr t" and "0 \<le> interval"
  shows "\<exists>frames p. event_stream (create_dashboard_server R rd_int X html D interval) rounds previous =
      (frames, if list_all snd rounds then Running else Closed, p) \<and>
    length frames = length (takeWhile snd rounds)"
  using assms(1,2)
proof (induction rounds arbitrary: previous)
  case (Cons round rounds)
  obtain mo sent where round: "round = (mo, sent)" by (cases round)
  with Cons.prems have "moment_ok rd_int D mo" and rest: "\<forall>(mo, sent)\<in>set rounds. moment_ok rd_int D mo" by auto
  from payload_returns [where X = X and R = R and html = html and interval = interval, OF this(1) Cons.prems(2) assms(3)] obtain t r where
    t: "payload_text (create_dashboard_server R rd_int X html D interval) mo previous = Some (Inr t, Some r)" "previous_ok rd_int (Some r)"
    by blast
  with Cons.IH [OF rest t(2)] show ?case by (cases sent) (use assms(4) in \<open>auto simp: round create_dashboard_server_def\<close>)
qed simp

section \<open>Counters over a sequence of snapshots\<close>

definition counter :: "(string \<Rightarrow> int option) \<Rightarrow> string \<Rightarrow> report \<Rightarrow> int" where
  "counter rd_int c r =
     (case command_calls rd_int (rd_commandstats (ds_redis r)) [] of Inl e \<Rightarrow> 0 | Inr calls \<Rightarrow> get_calls calls c)"

definition delta :: "string \<Rightarrow> report \<Rightarrow> int" where
  "delta c r = get_calls (pr_deltas (ds_pressure r)) c"

lemma positive_delta: "get_calls (positive_deltas pc cc) c = max 0 (get_calls cc c - get_calls pc c)"
proof -
  have one: "map_of (filter (\<lambda>(c, d). d > 0) (map (\<lambda>c. (c, f c)) cmds)) c = (if c \<in> set cmds \<and> 0 < f c then Some (f c) else None)"
    for f :: "string \<Rightarrow> int" and cmds by (induction cmds) auto
  have "c \<notin> set (map fst pc @ map fst cc) \<Longrightarrow> get_calls pc c = 0 \<and> get_calls cc c = 0"
    by (auto simp: get_calls_def dom_map_of_conv_image_fst [symmetric] split: option.splits)
  then show ?thesis
    using one [of "\<lambda>c. get_calls cc c - get_calls pc c" "sort (remdups (map fst pc @ map fst cc))"]
    by (auto simp: positive_deltas_def Let_def get_calls_def [of "filter _ _"])
qed

lemma snapshot_delta:
  assumes "take_snapshot R rd_int D (Some p) mo = Some (Inr r)" and "0 < pr_interval (ds_pressure r)"
  shows "delta c r = max 0 (counter rd_int c r - counter rd_int c p)"
    and "pr_keyspace_delta (ds_pressure r) = int (pd_total (ds_pool r)) - int (pd_total (ds_pool p))"
    and "pr_interval (ds_pressure r) = mo_pressure_time mo - ds_timestamp p"
  using assms
  by (auto simp: take_snapshot_def pressure_def no_pressure_def Let_def delta_def counter_def positive_delta
      split: option.splits sum.splits if_splits)

text \<open>By how much a sequence falls, all its falls together; a counter falls when the server resets it or INFO fails.\<close>

fun falls :: "int list \<Rightarrow> int" where
  "falls (x # y # ys) = max 0 (x - y) + falls (y # ys)"
| "falls ys = 0"

lemma falls_sorted: "sorted xs \<Longrightarrow> falls xs = 0"
  by (induction xs rule: falls.induct) simp_all

text \<open>The growth over a list of reports, each against the one before.\<close>

lemma reports_add_up:
  assumes "\<forall>r\<in>set (reports (create_dashboard_server R rd_int X html D interval) moments (Some p)). 0 < pr_interval (ds_pressure r)"
  shows "sum_list (map (delta c) (reports (create_dashboard_server R rd_int X html D interval) moments (Some p))) =
      counter rd_int c (last (p # reports (create_dashboard_server R rd_int X html D interval) moments (Some p))) - counter rd_int c p +
      falls (map (counter rd_int c) (p # reports (create_dashboard_server R rd_int X html D interval) moments (Some p))) \<and>
    sum_list (map (\<lambda>r. pr_keyspace_delta (ds_pressure r)) (reports (create_dashboard_server R rd_int X html D interval) moments (Some p))) =
      int (pd_total (ds_pool (last (p # reports (create_dashboard_server R rd_int X html D interval) moments (Some p))))) -
      int (pd_total (ds_pool p))"
  using assms
proof (induction moments arbitrary: p)
  case (Cons mo moments)
  let ?H = "create_dashboard_server R rd_int X html D interval"
  have snap: "da_snapshot ?H = take_snapshot R rd_int D" by (simp add: create_dashboard_server_def)
  show ?case
  proof (cases "\<exists>r. take_snapshot R rd_int D (Some p) mo = Some (Inr r)")
    case True
    then obtain r where r: "take_snapshot R rd_int D (Some p) mo = Some (Inr r)" by blast
    with Cons.prems have prems: "0 < pr_interval (ds_pressure r)"
      "\<forall>r\<in>set (reports ?H moments (Some r)). 0 < pr_interval (ds_pressure r)"
      by (auto simp: snap)
    from Cons.IH [OF prems(2)] snapshot_delta [OF r prems(1)] r show ?thesis by (simp add: snap max_def)
  next
    case False
    then have "reports ?H (mo # moments) (Some p) = reports ?H moments (Some p)"
      by (auto simp: snap split: option.splits sum.splits)
    with Cons show ?thesis by simp
  qed
qed simp

end
