(* ===== verification/Cli_Proofs.thy ===== *)
theory Cli_Proofs
  imports Cli Dashboard_Proofs
begin

text \<open>
  Command lines that write options in their long form, \<open>--name=value\<close>, in any order, are read back: an option
  that is left out keeps its default. \<open>si\<close> and \<open>sf\<close> print numbers.
\<close>

section \<open>The long form\<close>

definition written :: "(int \<Rightarrow> string) \<Rightarrow> (rat \<Rightarrow> string) \<Rightarrow> cli_args \<Rightarrow> string list" where
  "written si sf a =
     [''--redis-url='' @ ca_redis_url a, ''--prefix='' @ the (ca_prefix a), ''--suffix='' @ ca_suffix a,
      ''--sample-limit='' @ si (ca_sample_limit a), ''--scan-limit='' @ si (ca_scan_limit a),
      ''--interval='' @ sf (ca_interval a), ''--host='' @ ca_host a, ''--port='' @ si (ca_port a)] @
     (if ca_shared a then [''--shared''] else []) @ (if ca_json a then [''--json''] else [])"

text \<open>The arguments with the values of \<open>a\<close> for the options in \<open>W\<close>, and the defaults for the others.\<close>

definition given :: "(int \<Rightarrow> string) \<Rightarrow> (rat \<Rightarrow> string) \<Rightarrow> string set \<Rightarrow> cli_args \<Rightarrow> cli_args" where
  "given si sf W a =
     \<lparr>ca_redis_url = (if ''--redis-url='' @ ca_redis_url a \<in> W then ca_redis_url a else ca_redis_url default_args),
      ca_prefix = (if ''--prefix='' @ the (ca_prefix a) \<in> W then Some (the (ca_prefix a)) else None),
      ca_suffix = (if ''--suffix='' @ ca_suffix a \<in> W then ca_suffix a else ca_suffix default_args),
      ca_shared = (''--shared'' \<in> W),
      ca_sample_limit = (if ''--sample-limit='' @ si (ca_sample_limit a) \<in> W then ca_sample_limit a else ca_sample_limit default_args),
      ca_scan_limit = (if ''--scan-limit='' @ si (ca_scan_limit a) \<in> W then ca_scan_limit a else ca_scan_limit default_args),
      ca_json = (''--json'' \<in> W),
      ca_interval = (if ''--interval='' @ sf (ca_interval a) \<in> W then ca_interval a else ca_interval default_args),
      ca_host = (if ''--host='' @ ca_host a \<in> W then ca_host a else ca_host default_args),
      ca_port = (if ''--port='' @ si (ca_port a) \<in> W then ca_port a else ca_port default_args)\<rparr>"

lemma given_nothing: "given si sf {} a = default_args"
  by (simp add: given_def default_args_def)

lemma long_word:
  assumes "n \<in> fst ` set option_table" and "n \<noteq> ''-h''"
  shows "cli_word_of (n @ CHR ''='' # v) = Some (Known n (Some v))"
proof -
  have "list_all (\<lambda>n. CHR ''='' \<notin> set n \<and> (n = ''-h'' \<or> hd n = CHR ''-'' \<and> take 2 n = ''--'')) (map fst option_table)" by code_simp
  then have plain: "\<forall>n\<in>fst ` set option_table. CHR ''='' \<notin> set n"
    and shape: "hd n = CHR ''-''" "take 2 n = ''--''" using assms by (auto simp: list_all_iff)
  then have "n @ CHR ''='' # v \<notin> fst ` set option_table" by (metis in_set_conv_decomp)
  moreover have "n \<noteq> []" "length n \<noteq> 1" using shape(2) by (auto simp: length_Suc_conv)
  moreover have "at_equals (n @ CHR ''='' # v) = (n, Some v)"
  proof -
    from plain assms(1) have "\<And>c. c \<in> set n \<Longrightarrow> c \<noteq> CHR ''=''" by auto
    then show ?thesis by (simp add: at_equals_def)
  qed
  ultimately show ?thesis using shape assms(1) by (cases n) (auto simp: cli_word_of_def take_Cons')
qed

lemma long_words:
  "cli_word_of (''--redis-url='' @ v) = Some (Known ''--redis-url'' (Some v))"
  "cli_word_of (''--prefix='' @ v) = Some (Known ''--prefix'' (Some v))"
  "cli_word_of (''--suffix='' @ v) = Some (Known ''--suffix'' (Some v))"
  "cli_word_of (''--sample-limit='' @ v) = Some (Known ''--sample-limit'' (Some v))"
  "cli_word_of (''--scan-limit='' @ v) = Some (Known ''--scan-limit'' (Some v))"
  "cli_word_of (''--interval='' @ v) = Some (Known ''--interval'' (Some v))"
  "cli_word_of (''--host='' @ v) = Some (Known ''--host'' (Some v))"
  "cli_word_of (''--port='' @ v) = Some (Known ''--port'' (Some v))"
  using long_word [of "''--redis-url''" v] long_word [of "''--prefix''" v] long_word [of "''--suffix''" v]
    long_word [of "''--sample-limit''" v] long_word [of "''--scan-limit''" v] long_word [of "''--interval''" v]
    long_word [of "''--host''" v] long_word [of "''--port''" v]
  by (simp_all add: option_table_def)

lemma flag_words:
  "cli_word_of ''--shared'' = Some (Known ''--shared'' None)" "cli_word_of ''--json'' = Some (Known ''--json'' None)"
  by code_simp+

text \<open>One more option.\<close>

lemma consume_given:
  assumes "\<And>n. rd_int_text X (si n) = Some n" and "rd_float_text X (sf (ca_interval a)) = Some (ca_interval a)"
    and "w \<in> set (written si sf a)"
  shows "\<exists>u. w \<noteq> ''--'' \<and> cli_word_of w = Some u \<and>
    (\<forall>us W. consume X (u # us) (given si sf W a) False = consume X us (given si sf (insert w W) a) False)"
proof -
  note read = long_words [simplified] flag_words store_value_def store_true_def option_table_def given_def assms(1,2)
  from assms(3) consider "w = ''--redis-url='' @ ca_redis_url a" | "w = ''--prefix='' @ the (ca_prefix a)"
    | "w = ''--suffix='' @ ca_suffix a" | "w = ''--sample-limit='' @ si (ca_sample_limit a)"
    | "w = ''--scan-limit='' @ si (ca_scan_limit a)" | "w = ''--interval='' @ sf (ca_interval a)"
    | "w = ''--host='' @ ca_host a" | "w = ''--port='' @ si (ca_port a)" | "w = ''--shared''" | "w = ''--json''"
    by (simp only: written_def set_append Un_iff list.set insert_iff empty_iff simp_thms split: if_splits) blast+
  then show ?thesis by cases (simp_all add: read)
qed

lemma consume_written:
  assumes "\<And>n. rd_int_text X (si n) = Some n" and "rd_float_text X (sf (ca_interval a)) = Some (ca_interval a)"
    and "set ws \<subseteq> set (written si sf a)"
  shows "\<exists>us. cli_words ws = Some us \<and>
    (\<forall>W. consume X us (given si sf W a) False = consume X [] (given si sf (W \<union> set ws) a) False)"
  using assms(3)
proof (induction ws)
  case (Cons w ws)
  then have "w \<in> set (written si sf a)" and "set ws \<subseteq> set (written si sf a)" by auto
  with Cons.IH consume_given [where X = X and si = si and sf = sf, OF assms(1,2)] obtain u us where
    "w \<noteq> ''--''" "cli_word_of w = Some u" "cli_words ws = Some us"
    "\<forall>us W. consume X (u # us) (given si sf W a) False = consume X us (given si sf (insert w W) a) False"
    "\<forall>W. consume X us (given si sf W a) False = consume X [] (given si sf (W \<union> set ws) a) False" by metis
  then show ?case by simp
qed simp

lemma written_read_back:
  assumes "\<And>n. rd_int_text X (si n) = Some n" and "rd_float_text X (sf (ca_interval a)) = Some (ca_interval a)"
    and "set argv \<subseteq> set (written si sf a)" and "''--prefix='' @ the (ca_prefix a) \<in> set argv"
  shows "parse_args X argv = Arguments (given si sf (set argv) a)"
proof -
  from consume_written [where X = X and si = si and sf = sf, OF assms(1-3)] obtain us where us: "cli_words argv = Some us"
    "\<forall>W. consume X us (given si sf W a) False = consume X [] (given si sf (W \<union> set argv) a) False" by blast
  from us(2) [rule_format, of "{}"] have "consume X us default_args False = consume X [] (given si sf (set argv) a) False"
    by (simp add: given_nothing)
  moreover have "ca_prefix (given si sf (set argv) a) \<noteq> None" using assms(4) by (simp add: given_def)
  ultimately show ?thesis using us(1) by (simp add: parse_args_def)
qed

section \<open>The printed report\<close>

lemma json_report:
  assumes "parse_args X argv = Arguments a" and "ca_json a" and "su_connect E (ca_redis_url a) = Inr R"
    and "D = new_collector (the (ca_prefix a)) (ca_suffix a) (ca_shared a) (ca_sample_limit a) (ca_scan_limit a)"
    and "moment_ok rd_int D (su_moment E)" and "\<And>i v. json_safe v \<Longrightarrow> \<exists>t. tx_dumps T i v = Inr t"
  shows "\<exists>r t. take_snapshot R rd_int D None (su_moment E) = Some (Inr r) \<and> to_json T (Some 2) r = Inr t \<and>
    cli_main X rd_int T E argv = Finished 0 (t @ [CHR 0x0A]) []"
proof -
  have "previous_ok rd_int None" by (simp add: previous_ok_def)
  from snapshot_returns [OF assms(5) this, of R T] obtain r where
    r: "take_snapshot R rd_int D None (su_moment E) = Some (Inr r)" "json_safe (to_dict T r)" by blast
  from assms(6) [OF r(2), of "Some 2"] obtain t where "to_json T (Some 2) r = Inr t" by (auto simp: to_json_def)
  with r(1) assms(1-4) show ?thesis by (simp add: cli_main_def snapshot_json_def)
qed

end
