(* ===== verification/Diagnostics_Properties.thy ===== *)
theory Diagnostics_Properties
  imports Examples Allocator_Facts Cli_Proofs
begin

text \<open>
  The properties of the diagnostics: the checker accepts what the allocator maintains, up to keys it
  misreads; what it accepts is a well-formed list, up to one gap; the reports can be sent as JSON, and the
  deltas of successive reports add up.
\<close>

section \<open>Checking and counting\<close>

lemma plain_keys_list: "(\<forall>k\<in>set (map fst (entries sn)). take 1 k \<noteq> ''<'') \<Longrightarrow> plain_keys sn"
  by (force simp: plain_keys_def entry_of_def dest: map_of_SomeD)

lemma free_or_allocated:
  "length (filter (\<lambda>(k, e). is_free_node e) xs) + length (filter (\<lambda>(k, e). is_allocated_marker e) xs) = length xs"
  by (induction xs) (auto simp: is_free_node_def)

lemma linked_counts:
  assumes "linked sn fl"
  shows "pd_free (summarize_pool sn) = length fl" and "pd_free (summarize_pool sn) + pd_allocated (summarize_pool sn) = pd_total (summarize_pool sn)"
proof -
  have d: "distinct fl" "distinct (map fst (entries sn))" "\<And>k. k \<in> set fl \<Longrightarrow> entry_of sn k \<noteq> None"
    using assms by (auto simp: linked_def)
  have marker: "(k, e) \<in> set (entries sn) \<Longrightarrow> is_free_node e \<longleftrightarrow> k \<in> set fl" for k e
    using linked_entry(1) [OF assms, of k e] d(2) by (simp add: entry_of_def is_free_node_def)
  let ?fs = "filter (\<lambda>(k, e). is_free_node e) (entries sn)"
  have "set (map fst ?fs) = set fl"
  proof
    show "set (map fst ?fs) \<subseteq> set fl" using marker by auto
    show "set fl \<subseteq> set (map fst ?fs)"
    proof
      fix k assume k: "k \<in> set fl"
      with d(3) obtain e where "(k, e) \<in> set (entries sn)" by (auto simp: entry_of_def dest: map_of_SomeD)
      with marker k show "k \<in> set (map fst ?fs)" by force
    qed
  qed
  moreover have "distinct (map fst ?fs)" using d(2) by (rule distinct_map_filter)
  ultimately have "length (map fst ?fs) = length fl" using d(1) by (metis distinct_card)
  then show "pd_free (summarize_pool sn) = length fl" by (simp add: summarize_sel)
  show "pd_free (summarize_pool sn) + pd_allocated (summarize_pool sn) = pd_total (summarize_pool sn)"
    by (simp add: summarize_sel free_or_allocated)
qed

context redis_server
begin

lemma collected_report:
  assumes "good view A s" and "reads_decimals rd_int"
    and "\<forall>k\<in>set (get_free_list R A s). \<not> ends_bar k \<and> take 1 k \<noteq> ''<''"
  shows "set (check_invariants (collect_raw_pool R rd_int clk A s)) = FreeLocked ` {k. is_jammed R A k s} \<and>
    distinct (check_invariants (collect_raw_pool R rd_int clk A s)) \<and>
    walk_forward (collect_raw_pool R rd_int clk A s) = (get_free_list R A s, None) \<and>
    pd_free (summarize_pool (collect_raw_pool R rd_int clk A s)) = length (get_free_list R A s)"
proof -
  let ?sn = "collect_raw_pool R rd_int clk A s"
  from assms(1) obtain p where p: "rep A (view s) p" "wf_pool p" by (rule good_rep)
  note fl = observe(1) [OF p(1)]
  have "\<And>k. k \<in> set (free p) \<Longrightarrow> \<not> ends_bar k" and plain: "\<And>k. k \<in> set (free p) \<Longrightarrow> take 1 k \<noteq> ''<''"
    using assms(3) by (simp_all add: fl)
  from collect_linked [OF p(1) this(1) assms(2)] have c: "linked ?sn (free p)" .
  have viol: "check_invariants ?sn = map FreeLocked (filter (\<lambda>k. k \<in> set (free p) \<and> locked_in ?sn k) (map fst (entries ?sn)))"
    by (rule linked_violations [OF c plain])
  have dist: "distinct (map fst (entries ?sn))" using c by (simp add: linked_def)
  have mem: "k \<in> set (map fst (entries ?sn)) \<and> (locked_in ?sn k \<longleftrightarrow> alock p k \<noteq> None)" if "k \<in> set (free p)" for k
    using c that collect_entries(2) [OF p(1), of rd_int clk k] wf_poolD(2) [OF p(2) that]
    by (auto simp: linked_def entry_of_def map_of_eq_None_iff simp del: not_None_eq)
  have "set (filter (\<lambda>k. k \<in> set (free p) \<and> locked_in ?sn k) (map fst (entries ?sn))) = jammed p"
    unfolding set_filter jammed_def using mem by blast
  then have "set (check_invariants ?sn) = FreeLocked ` jammed p" by (simp only: viol set_map)
  moreover have "inj_on FreeLocked S" for S by (simp add: inj_on_def)
  then have "distinct (check_invariants ?sn)" using dist by (simp add: viol distinct_map distinct_filter)
  ultimately show ?thesis
    using linked_walks(1) [OF c] linked_counts(1) [OF c] by (simp add: fl is_jammed_iff [OF p(1)])
qed

end

lemma reads_tonumber: "reads_decimals tonumber"
  by (simp add: reads_decimals_def)

text \<open>The counters of \<open>summarize_pool\<close> on every snapshot.\<close>

lemma summary_counts:
  "pd_total (summarize_pool sn) = length (entries sn) \<and>
   pd_free (summarize_pool sn) + pd_allocated (summarize_pool sn) = pd_total (summarize_pool sn) \<and>
   pd_free (summarize_pool sn) = length (filter (\<lambda>(k, e). is_free_node e) (entries sn)) \<and>
   pd_locked (summarize_pool sn) = length (filter (\<lambda>(k, e). locked_in sn k) (entries sn)) \<and>
   pd_expired (summarize_pool sn) = length (filter (\<lambda>(k, e). pe_expiry e > 0 \<and> pe_expiry e \<le> sn_now sn) (entries sn)) \<and>
   pd_permanent (summarize_pool sn) = length (filter (\<lambda>(k, e). locked_in sn k \<and> ttl_in sn k = -1) (entries sn)) \<and>
   pd_reclaimable (summarize_pool sn) = length (filter (\<lambda>(k, e). is_allocated_marker e \<and> \<not> locked_in sn k) (entries sn))"
  by (simp add: summarize_sel free_or_allocated)

text \<open>A pool whose free key \<open>b\<close> was locked by hand.\<close>

definition demo_jammed :: mem where
  "demo_jammed = final_state (lock_update mem_redis demo ''b'' ''0'' None demo_taken)"

lemma good_jammed: "good mem_view demo demo_jammed"
  unfolding demo_jammed_def
  by (rule redis_server.relocks_good [OF mem_server good_taken redis_server.relocks_set [OF mem_server]])

section \<open>The properties\<close>

text \<open>
  C24: on what the allocator maintains the checker reports exactly the free keys somebody locked by hand,
  each once, and nothing else; so it raises no false alarm and misses no breach of INV-4. Its forward walk is
  the allocator's own free list, and the free counter is its length. The proviso is that no free key ends
  with the separator's bar or starts with the character the checker uses for its markers.
\<close>

theorem allocator_passes_checker:
  assumes "redis_server R view" and "good view A s" and "reads_decimals rd_int"
    and "\<forall>k\<in>set (get_free_list R A s). \<not> ends_bar k \<and> take 1 k \<noteq> ''<''"
  shows "set (check_invariants (collect_raw_pool R rd_int clk A s)) = FreeLocked ` {k. is_jammed R A k s} \<and>
    distinct (check_invariants (collect_raw_pool R rd_int clk A s)) \<and>
    walk_forward (collect_raw_pool R rd_int clk A s) = (get_free_list R A s, None) \<and>
    pd_free (summarize_pool (collect_raw_pool R rd_int clk A s)) = length (get_free_list R A s)"
  by (rule redis_server.collected_report [OF assms])

theorem allocator_passes_checker_witness:
  "set (check_invariants (collect_raw_pool mem_redis tonumber 0 demo demo_jammed)) = {FreeLocked ''b''}"
proof -
  have plain: "\<forall>k\<in>set (get_free_list mem_redis demo demo_jammed). \<not> ends_bar k \<and> take 1 k \<noteq> ''<''" by code_simp
  have fl: "get_free_list mem_redis demo demo_jammed = [''b'', ''c'']" by code_simp
  have "is_locked mem_redis demo ''b'' demo_jammed" "\<not> is_locked mem_redis demo ''c'' demo_jammed" by code_simp+
  with fl have "{k. is_jammed mem_redis demo k demo_jammed} = {''b''}" by (auto simp: is_jammed_def)
  with allocator_passes_checker [OF mem_server good_jammed reads_tonumber plain] show ?thesis by simp
qed

text \<open>
  C25: the checker is complete up to one gap. A snapshot without violations describes a doubly linked list
  without cycles whose nodes are exactly the entries that are not allocated, none of them locked, if its
  keys do not look like the checker's markers and its head pointer is not at an allocated entry.
\<close>

theorem accepted_snapshot_consistent:
  assumes "check_invariants sn = []" and "plain_keys sn" and "head_not_allocated sn"
    and "distinct (map fst (entries sn))" and "entry_of sn ALLOCATED_SENTINEL = None"
  shows "\<exists>fl. consistent sn fl"
  by (rule accepted_consistent [OF assms])

theorem accepted_snapshot_consistent_witness:
  "\<exists>fl. consistent (collect_raw_pool mem_redis tonumber 0 demo demo_taken) fl"
proof (rule accepted_snapshot_consistent)
  let ?sn = "collect_raw_pool mem_redis tonumber 0 demo demo_taken"
  show "check_invariants ?sn = []" by code_simp
  show "plain_keys ?sn" by (rule plain_keys_list) code_simp
  have "case entry_of ?sn (sn_head ?sn) of None \<Rightarrow> True | Some e \<Rightarrow> \<not> is_allocated_marker e" by code_simp
  then show "head_not_allocated ?sn" by (auto simp: head_not_allocated_def)
  show "distinct (map fst (entries ?sn))" by code_simp
  show "entry_of ?sn ALLOCATED_SENTINEL = None" by code_simp
qed

text \<open>
  C26: the advisory scan is bounded. It never returns more keys than \<open>scan_limit\<close>, its counter is the number
  of keys it returns, and with pages that are not empty it ends whatever the cursors do.
\<close>

theorem scan_is_bounded:
  "(\<forall>sc. bounded_scan page limit = Some sc \<longrightarrow>
      length (sc_keys sc) = sc_scanned sc \<and> int (sc_scanned sc) \<le> max 0 limit) \<and>
   ((\<forall>c. snd (page c) \<noteq> []) \<longrightarrow> (\<exists>sc. bounded_scan page limit = Some sc))"
  using scan_loop_bound [of page "nat limit" "''0''" "[]"] scan_loop_ends [of page "nat limit" "''0''" "[]"]
  by (auto simp: bounded_scan_def)

theorem scan_is_bounded_witness:
  "\<exists>sc. bounded_scan (\<lambda>c. (''7'', [''x'', ''y''])) 3 = Some sc \<and> sc_scanned sc \<le> 3"
  using scan_is_bounded [of "\<lambda>c. (''7'', [''x'', ''y''])" 3] by fastforce

section \<open>The dashboard\<close>

text \<open>Two moments a minute apart: a client has run EVAL five times in between.\<close>

definition demo_moment :: "mem \<Rightarrow> rat \<Rightarrow> int \<Rightarrow> mem moment" where
  "demo_moment s t n =
     \<lparr>mo_store = s, mo_later = s, mo_page = (\<lambda>pat c. (''0'', [])),
      mo_info = (\<lambda>sec. if sec = ''commandstats'' then Some [(''cmdstat_eval'', PDict [(KStr ''calls'', PInt n)])] else None),
      mo_slowlog = (\<lambda>limit. Some [PDict [(KStr ''command'', PBytes ''PING'')]]),
      mo_clock = t, mo_pressure_time = t, mo_time = t\<rparr>"

definition demo_texts :: texts where
  "demo_texts = \<lparr>tx_repr = (\<lambda>t. t), tx_decode = (\<lambda>t. t), tx_dumps = (\<lambda>i v. if json_safe v then Inr ''json'' else Inl TypeError)\<rparr>"

definition demo_collector :: collector where
  "demo_collector = new_collector ''p'' ''s'' False 20 0"

definition demo_dashboard :: "mem moment dashboard" where
  "demo_dashboard = create_dashboard_server mem_redis tonumber demo_texts ''page'' demo_collector 1"

lemma demo_moment_ok: "moment_ok tonumber demo_collector (demo_moment s t n)"
  by (auto simp: bounded_scan_def moment_ok_def demo_moment_def is_number_def safe_info_def safe_slowlog_def stats_ok_def
      demo_collector_def new_collector_def)

definition demo_previous :: report where
  "demo_previous = hd (reports demo_dashboard [demo_moment demo_pool 100 7] None)"

text \<open>
  C27: the dashboard's command deltas add up. All requests share one previous snapshot; however snapshot
  requests and event streams of any clients are interleaved, and whichever snapshots fail in between, the
  deltas of a command over the reports sum up to the growth of its counter from the first report to the
  last and all the falls of the counter in between (a reset of the server, or a report whose INFO failed and
  counts as zero): while the counter does not fall no call is reported twice or lost. The pool size deltas sum up to the growth
  of the pool. This is provided that time passes between the reports.
\<close>

theorem dashboard_deltas_add_up:
  assumes "rs = reports (create_dashboard_server R rd_int X html D interval) moments (Some p)"
    and "\<forall>r\<in>set rs. 0 < pr_interval (ds_pressure r)"
  shows "sum_list (map (delta c) rs) =
      counter rd_int c (last (p # rs)) - counter rd_int c p + falls (map (counter rd_int c) (p # rs)) \<and>
    sum_list (map (\<lambda>r. pr_keyspace_delta (ds_pressure r)) rs) =
      int (pd_total (ds_pool (last (p # rs)))) - int (pd_total (ds_pool p))"
  using assms(2) unfolding assms(1) by (rule reports_add_up)

theorem dashboard_deltas_add_up_witness:
  "sum_list (map (delta ''eval'') (reports demo_dashboard [demo_moment demo_pool 160 12, demo_moment demo_taken 170 13]
     (Some demo_previous))) = 6"
proof -
  let ?rs = "reports demo_dashboard [demo_moment demo_pool 160 12, demo_moment demo_taken 170 13] (Some demo_previous)"
  have "\<forall>r\<in>set ?rs. 0 < pr_interval (ds_pressure r)" "sorted (map (counter tonumber ''eval'') (demo_previous # ?rs))"
    "counter tonumber ''eval'' (last (demo_previous # ?rs)) - counter tonumber ''eval'' demo_previous = 6"
    by code_simp+
  with dashboard_deltas_add_up [OF refl, of mem_redis tonumber demo_texts "''page''" demo_collector 1
      "[demo_moment demo_pool 160 12, demo_moment demo_taken 170 13]" demo_previous "''eval''", folded demo_dashboard_def]
    falls_sorted [OF this(2)]
  show ?thesis by simp
qed

text \<open>
  C28: the reports reach the client. If the counters of INFO can be read, the replies contain no tuples, the
  scans end and \<open>json.dumps\<close> accepts values without bytes, data classes and keys that are not strings, then
  \<open>/api/snapshot\<close> answers with the JSON text of a report, and an event stream sends one frame per
  round and ends only when the client closes the connection, unless the interval of the server is negative.
\<close>

theorem dashboard_serves:
  assumes "\<forall>(mo, sent)\<in>set rounds. moment_ok rd_int D mo" and "previous_ok rd_int previous"
    and "\<And>i v. json_safe v \<Longrightarrow> \<exists>t. tx_dumps X i v = Inr t" and "rounds \<noteq> []"
    and "0 \<le> interval" and "H = create_dashboard_server R rd_int X html D interval"
  shows "(\<exists>r t. to_json X None r = Inr t \<and>
      do_GET H ''/api/snapshot'' rounds previous = (Answer 200 ''application/json; charset=utf-8'' t, Some r)) \<and>
    (\<exists>frames p. do_GET H ''/api/events'' rounds previous =
       (Stream frames (if list_all snd rounds then Running else Closed), p) \<and>
      length frames = length (takeWhile snd rounds))"
proof
  obtain mo sent rest where rounds: "rounds = (mo, sent) # rest" using assms(4) by (cases rounds) auto
  with assms(1) have "moment_ok rd_int D mo" by simp
  from payload_returns [where X = X and R = R and html = html and interval = interval, OF this assms(2,3)] show
    "\<exists>r t. to_json X None r = Inr t \<and>
      do_GET H ''/api/snapshot'' rounds previous = (Answer 200 ''application/json; charset=utf-8'' t, Some r)"
    by (auto simp: do_GET_def rounds assms(6))
  from stream_runs [where X = X and R = R and html = html and interval = interval, OF assms(1-3,5)] show
    "\<exists>frames p. do_GET H ''/api/events'' rounds previous =
       (Stream frames (if list_all snd rounds then Running else Closed), p) \<and> length frames = length (takeWhile snd rounds)"
    by (auto simp: do_GET_def assms(6))
qed

theorem dashboard_serves_witness:
  "\<exists>frames p. do_GET demo_dashboard ''/api/events'' [(demo_moment demo_pool 100 7, True), (demo_moment demo_taken 101 9, False)] None =
     (Stream frames Closed, p) \<and> length frames = 1"
  using dashboard_serves [OF _ _ _ _ _ demo_dashboard_def, of "[(demo_moment demo_pool 100 7, True), (demo_moment demo_taken 101 9, False)]" None]
  by (simp add: demo_moment_ok previous_ok_def demo_texts_def)

section \<open>The command line\<close>

definition demo_readers :: readers where
  "demo_readers = \<lparr>rd_int_text = tonumber, rd_float_text = (\<lambda>t. map_option of_int (tonumber t))\<rparr>"

definition demo_surroundings :: "mem surroundings" where
  "demo_surroundings =
     \<lparr>su_connect = (\<lambda>url. if url = ''redis://localhost:6379/0'' then Inr mem_redis else Inl ValueError),
      su_moment = demo_moment demo_pool 100 7, su_html = ''page'', su_bind = (\<lambda>h p. Inr (h, p)), su_requests = []\<rparr>"

definition demo_args :: cli_args where
  "demo_args = default_args\<lparr>ca_prefix := Some ''p'', ca_suffix := ''s'', ca_scan_limit := 0, ca_json := True\<rparr>"

text \<open>
  C29: the command line prints the report of the allocator it names. For options in their long form, in any
  order and any number of times, with every option but the prefix left out at will, \<open>main\<close> reads the given
  values, takes the defaults for the others, takes one snapshot of the allocator with that prefix and suffix on
  the server with that URL, prints it as JSON and returns 0; if the replies can be read as in C28.
\<close>

theorem cli_prints_report:
  assumes "\<And>n. rd_int_text X (si n) = Some n" and "rd_float_text X (sf (ca_interval a)) = Some (ca_interval a)"
    and "set argv \<subseteq> set (written si sf a)" and "''--prefix='' @ the (ca_prefix a) \<in> set argv" and "''--json'' \<in> set argv"
    and "b = given si sf (set argv) a" and "su_connect E (ca_redis_url b) = Inr R"
    and "D = new_collector (the (ca_prefix a)) (ca_suffix b) (ca_shared b) (ca_sample_limit b) (ca_scan_limit b)"
    and "moment_ok rd_int D (su_moment E)" and "\<And>i v. json_safe v \<Longrightarrow> \<exists>t. tx_dumps T i v = Inr t"
  shows "\<exists>r t. take_snapshot R rd_int D None (su_moment E) = Some (Inr r) \<and> to_json T (Some 2) r = Inr t \<and>
    cli_main X rd_int T E argv = Finished 0 (t @ [CHR 0x0A]) []"
proof (rule json_report)
  show "parse_args X argv = Arguments b"
    unfolding assms(6) by (rule written_read_back [where si = si and sf = sf, OF assms(1-4)])
  show "ca_json b" using assms(5) by (simp add: assms(6) given_def)
  show "D = new_collector (the (ca_prefix b)) (ca_suffix b) (ca_shared b) (ca_sample_limit b) (ca_scan_limit b)"
    using assms(4) by (simp add: assms(6,8) given_def)
qed (use assms(7,9,10) in simp_all)

theorem cli_prints_report_witness:
  "cli_main demo_readers tonumber demo_texts demo_surroundings
     [''--suffix=s'', ''--json'', ''--prefix=p'', ''--scan-limit=0''] = Finished 0 (''json'' @ [CHR 0x0A]) []"
proof -
  let ?argv = "[''--suffix=s'', ''--json'', ''--prefix=p'', ''--scan-limit=0'']"
  let ?b = "given tostring (\<lambda>x. tostring \<lfloor>x\<rfloor>) (set ?argv) demo_args"
  have zero: "tostring 0 = ''0''" by code_simp
  have n: "rd_int_text demo_readers (tostring n) = Some n" for n by (simp add: demo_readers_def)
  have x: "rd_float_text demo_readers (tostring \<lfloor>ca_interval demo_args\<rfloor>) = Some (ca_interval demo_args)"
    by (simp add: demo_readers_def demo_args_def default_args_def)
  have w: "set ?argv \<subseteq> set (written tostring (\<lambda>x. tostring \<lfloor>x\<rfloor>) demo_args)"
    "''--prefix='' @ the (ca_prefix demo_args) \<in> set ?argv" "''--json'' \<in> set ?argv"
    by (simp_all add: written_def demo_args_def zero)
  have b: "?b = demo_args" by (simp add: given_def demo_args_def default_args_def zero)
  then have u: "su_connect demo_surroundings (ca_redis_url ?b) = Inr mem_redis"
    by (simp add: demo_args_def default_args_def demo_surroundings_def)
  from b have c: "demo_collector = new_collector (the (ca_prefix demo_args)) (ca_suffix ?b) (ca_shared ?b)
      (ca_sample_limit ?b) (ca_scan_limit ?b)" by (simp add: demo_args_def default_args_def demo_collector_def)
  have m: "moment_ok tonumber demo_collector (su_moment demo_surroundings)"
    by (simp add: demo_surroundings_def demo_moment_ok)
  have j: "\<exists>t. tx_dumps demo_texts i v = Inr t" if "json_safe v" for i v using that by (simp add: demo_texts_def)
  from cli_prints_report [where sf = "\<lambda>x. tostring \<lfloor>x\<rfloor>", OF n x w refl u c m j] obtain r t where
    "to_json demo_texts (Some 2) r = Inr t" "cli_main demo_readers tonumber demo_texts demo_surroundings ?argv = Finished 0 (t @ [CHR 0x0A]) []"
    by blast
  moreover from this(1) have "t = ''json''" by (simp add: to_json_def demo_texts_def split: if_splits)
  ultimately show ?thesis by simp
qed

end
