(* ===== verification/Listener.thy ===== *)
theory Listener
  imports Task_Queue
begin

text \<open>
  \<open>RedisTaskQueue.listen\<close>: the loop that fetches tasks and hands them to worker threads. A listener is the
  list of submitted tasks that have not run yet, beside the world. The workers may run any of them at any
  time between two commands of the loop; \<open>listener_step\<close> is that freedom as a step relation, in which a
  fetch is one step and the run of a task is one step.
\<close>

section \<open>The listener\<close>

type_synonym ('p, 'r, 's) listener = "('p, 'r) task option list \<times> 's world"

text \<open>
  What a submitted call raises stays in its future. When the task is missing, \<open>task_fn\<close> is called on None and
  saving the task fails: what the function does to the world then is the parameter \<open>on_missing\<close>.
\<close>

definition run_submitted :: "'s redis \<Rightarrow> ('p, 'r) codec \<Rightarrow> queue_cfg \<Rightarrow> ('p, 'r, 's) task_fn \<Rightarrow> ('s world \<Rightarrow> 's world) \<Rightarrow>
    ('p, 'r) task option \<Rightarrow> 's world \<Rightarrow> 's world" where
  "run_submitted R C q task_fn on_missing task w =
     (case task of
        None \<Rightarrow> on_missing w
      | Some t \<Rightarrow> snd (final_state (execute_task_locally R C q task_fn None (t, w))))"

inductive listener_step ::
  "'s redis \<Rightarrow> ('p, 'r) codec \<Rightarrow> queue_cfg \<Rightarrow> ('p, 'r, 's) task_fn \<Rightarrow> ('s world \<Rightarrow> 's world) \<Rightarrow> string list \<Rightarrow>
    ('p, 'r, 's) listener \<Rightarrow> ('p, 'r, 's) listener \<Rightarrow> bool"
  for R C q task_fn on_missing queue_names where
  step_fetch: "r_blpop R queue_names (w_redis w) = (Some (k, task_id), s) \<Longrightarrow> get_task R C q task_id False s = (task, s1) \<Longrightarrow>
    listener_step R C q task_fn on_missing queue_names (pend, w) (pend @ [task], w\<lparr>w_redis := s1\<rparr>)"
| step_run: "listener_step R C q task_fn on_missing queue_names
    (us @ task # vs, w) (us @ vs, run_submitted R C q task_fn on_missing task w)"

text \<open>
  The inner loop: fetch until a \<open>BLPOP\<close> runs into its timeout. What the workers do in the meantime is the
  parameter \<open>work\<close>.
\<close>

partial_function (option) drain ::
  "'s redis \<Rightarrow> ('p, 'r) codec \<Rightarrow> queue_cfg \<Rightarrow> (('p, 'r, 's) listener \<Rightarrow> ('p, 'r, 's) listener) \<Rightarrow> string list \<Rightarrow>
    ('p, 'r, 's) listener \<Rightarrow> ('p, 'r, 's) listener option" where
  "drain R C q work queue_names st =
     (case st of (pend, w) \<Rightarrow>
        case r_blpop R queue_names (w_redis w) of
          (None, s) \<Rightarrow> Some (pend, w\<lparr>w_redis := s\<rparr>)
        | (Some (_, task_id), s) \<Rightarrow>
            (case get_task R C q task_id False s of
               (task, s1) \<Rightarrow> drain R C q work queue_names (work (pend @ [task], w\<lparr>w_redis := s1\<rparr>))))"

text \<open>One turn of the outer loop: drain the queues, announce the listener, sleep.\<close>

definition listen_round ::
  "'s redis \<Rightarrow> ('p, 'r) codec \<Rightarrow> queue_cfg \<Rightarrow> (('p, 'r, 's) listener \<Rightarrow> ('p, 'r, 's) listener) \<Rightarrow>
    (rat \<Rightarrow> 's world \<Rightarrow> 's world) \<Rightarrow> string list \<Rightarrow> ('p, 'r, 's) listener \<Rightarrow> (unit, ('p, 'r, 's) listener) outcome option" where
  "listen_round R C q work sleep names st =
     (case drain R C q work (map (queue_key q) names) st of
        None \<Rightarrow> None
      | Some (pend, w) \<Rightarrow>
          Some (case for_each (set_queue_listened R q) names w of
                  Abort e w1 \<Rightarrow> Abort e (pend, w1)
                | Done _ w1 \<Rightarrow> Done () (work (pend, sleep (q_interval q) w1))))"

text \<open>On leaving, the executor waits for everything that was submitted; it starts the calls in their order.\<close>

definition finish :: "'s redis \<Rightarrow> ('p, 'r) codec \<Rightarrow> queue_cfg \<Rightarrow> ('p, 'r, 's) task_fn \<Rightarrow> ('s world \<Rightarrow> 's world) \<Rightarrow>
    ('p, 'r, 's) listener \<Rightarrow> ('p, 'r, 's) listener" where
  "finish R C q task_fn on_missing st =
     (case st of (pend, w) \<Rightarrow> ([], fold (run_submitted R C q task_fn on_missing) pend w))"

text \<open>The event is set before the check that follows \<open>n\<close> rounds.\<close>

fun listen ::
  "'s redis \<Rightarrow> ('p, 'r) codec \<Rightarrow> queue_cfg \<Rightarrow> ('p, 'r, 's) task_fn \<Rightarrow> ('s world \<Rightarrow> 's world) \<Rightarrow>
    (('p, 'r, 's) listener \<Rightarrow> ('p, 'r, 's) listener) \<Rightarrow> (rat \<Rightarrow> 's world \<Rightarrow> 's world) \<Rightarrow> string list \<Rightarrow> nat \<Rightarrow>
    ('p, 'r, 's) listener \<Rightarrow> (unit, ('p, 'r, 's) listener) outcome option" where
  "listen R C q task_fn on_missing work sleep names 0 st = Some (Done () (finish R C q task_fn on_missing st))"
| "listen R C q task_fn on_missing work sleep names (Suc n) st =
     (case listen_round R C q work sleep names st of
        None \<Rightarrow> None
      | Some (Abort e st1) \<Rightarrow> Some (Abort e (finish R C q task_fn on_missing st1))
      | Some (Done _ st1) \<Rightarrow> listen R C q task_fn on_missing work sleep names n st1)"

section \<open>Functions without side effects\<close>

text \<open>\<open>f\<close> is what the task function returns or raises.\<close>

definition pure_fn :: "(('p, 'r) task \<Rightarrow> error + 'r) \<Rightarrow> ('p, 'r, 's) task_fn \<Rightarrow> ('s world \<Rightarrow> 's world) \<Rightarrow> bool" where
  "pure_fn f task_fn on_missing \<longleftrightarrow>
     (\<forall>t w. task_fn (t, w) = (case f t of Inl e \<Rightarrow> Abort e (t, w) | Inr r \<Rightarrow> Done (Some r) (t, w))) \<and>
     (\<forall>w. on_missing w = w)"

definition answered :: "(('p, 'r) task \<Rightarrow> error + 'r) \<Rightarrow> ('p, 'r) task \<Rightarrow> ('p, 'r) task" where
  "answered f t = (case f t of Inl e \<Rightarrow> t\<lparr>t_error := Some e\<rparr> | Inr r \<Rightarrow> t\<lparr>t_result := Some r\<rparr>)"

lemma answered_id [simp]: "t_id (answered f t) = t_id t" "t_save (answered f t) = t_save t"
  by (simp_all add: answered_def split: sum.split)

text \<open>The keys of the queues are used for lists, the keys of results for strings.\<close>

definition queue_typed :: "queue_cfg \<Rightarrow> string list \<Rightarrow> keyspace \<Rightarrow> bool" where
  "queue_typed q names V \<longleftrightarrow>
     (\<forall>i. str_key V (result_key q i)) \<and> (\<forall>n\<in>set names. list_key V (queue_key q n))"

text \<open>Under a result key there is a task of that id.\<close>

definition well_filed :: "('p, 'r) codec \<Rightarrow> queue_cfg \<Rightarrow> keyspace \<Rightarrow> bool" where
  "well_filed C q V \<longleftrightarrow> (\<forall>i e. strs V (result_key q i) = Some e \<longrightarrow> t_id (loads C (fst e)) = i)"

lemma queue_typed_put:
  "queue_typed q names V \<Longrightarrow> queue_typed q names (put_str (result_key q i) v ex V)"
  "queue_typed q names V \<Longrightarrow> n \<in> set names \<Longrightarrow> queue_typed q names (put_list (queue_key q n) xs V)"
  by (auto simp: queue_typed_def redis_simps list_key_def str_key_def queue_keys_differ queue_keys_differ [symmetric])

lemma filed_put:
  "codec_ok C \<Longrightarrow> well_filed C q V \<Longrightarrow> t_id t = i \<Longrightarrow> well_filed C q (put_str (result_key q i) (dumps C t) ex V)"
  "well_filed C q (put_list (queue_key q n) xs V) = well_filed C q V"
  by (auto simp: well_filed_def redis_simps queue_keys_differ codec_ok_def)

context redis_server
begin

lemma get_task_eq:
  assumes "str_key (view s) (result_key q i)"
  shows "get_task R C q i False s =
    (map_option (\<lambda>e. (loads C (fst e))\<lparr>t_save := True\<rparr>) (strs (view s) (result_key q i)), s)"
  using get [OF assms] by (simp add: get_task_def split: option.split)

text \<open>Running a submitted task stores its answer and does nothing else.\<close>

lemma run_pure:
  assumes "pure_fn f task_fn on_missing" and "0 < q_timeout q" and "t_save t"
  shows "view (w_redis (run_submitted R C q task_fn on_missing (Some t) w)) =
      put_str (result_key q (t_id t)) (dumps C ((answered f t)\<lparr>t_save := False\<rparr>)) (Some (q_timeout q)) (view (w_redis w))"
    and "w_mono (run_submitted R C q task_fn on_missing (Some t) w) = w_mono w"
    and "w_time (run_submitted R C q task_fn on_missing (Some t) w) = w_time w"
    and "run_submitted R C q task_fn on_missing None w = w"
proof -
  from set_task_effect [OF assms(2), of C "answered f t" w] obtain w1 where
    w1: "set_task R C q (answered f t, w) = Done (t_id t) ((answered f t)\<lparr>t_save := False\<rparr>, w1)" "w_mono w1 = w_mono w" "w_time w1 = w_time w"
    "view (w_redis w1) = put_str (result_key q (t_id t)) (dumps C ((answered f t)\<lparr>t_save := False\<rparr>)) (Some (q_timeout q)) (view (w_redis w))"
    by auto
  have "run_submitted R C q task_fn on_missing (Some t) w = w1"
    using assms(1,3) w1(1)
    by (cases "f t") (simp_all add: run_submitted_def execute_task_locally_def pure_fn_def answered_def task_save_def Let_def)
  with w1(2-4) show "view (w_redis (run_submitted R C q task_fn on_missing (Some t) w)) =
      put_str (result_key q (t_id t)) (dumps C ((answered f t)\<lparr>t_save := False\<rparr>)) (Some (q_timeout q)) (view (w_redis w))"
    and "w_mono (run_submitted R C q task_fn on_missing (Some t) w) = w_mono w"
    and "w_time (run_submitted R C q task_fn on_missing (Some t) w) = w_time w" by simp_all
  show "run_submitted R C q task_fn on_missing None w = w"
    using assms(1) by (simp add: run_submitted_def pure_fn_def)
qed

text \<open>What a fetch takes.\<close>

lemma fetched:
  assumes "queue_typed q names (view s)" and "r_blpop R (map (queue_key q) names) s = (Some (k, i), s')"
  shows "\<exists>n rest. n \<in> set names \<and> k = queue_key q n \<and> rlists (view s) (queue_key q n) = i # rest \<and>
    view s' = put_list (queue_key q n) rest (view s)"
proof -
  let ?ks = "map (queue_key q) names"
  have typed: "\<forall>k\<in>set ?ks. list_key (view s) k" using assms(1) by (simp add: queue_typed_def)
  obtain k0 where k0: "find (\<lambda>k. rlists (view s) k \<noteq> []) ?ks = Some k0"
  proof (cases "find (\<lambda>k. rlists (view s) k \<noteq> []) ?ks")
    case None
    then have "\<forall>k\<in>set ?ks. list_key (view s) k \<and> rlists (view s) k = []"
      using typed by (auto simp: find_None_iff)
    from blpop_empty [OF this] assms(2) show thesis by simp
  qed
  from blpop [OF typed k0] assms(2) have "k = k0" "i = hd (rlists (view s) k0)"
    "view s' = put_list k0 (tl (rlists (view s) k0)) (view s)" by auto
  moreover from k0 have "k0 \<in> set ?ks" "rlists (view s) k0 \<noteq> []" by (auto simp: find_Some_iff)
  ultimately show ?thesis by (cases "rlists (view s) k0") auto
qed

end

end
