(* ===== verification/Listener_Proofs.thy ===== *)
theory Listener_Proofs
  imports Listener
begin

text \<open>
  The two sides of the queue together. Whatever the schedule of the listener, a submitted task is fetched
  once, run once and answered, so a client that waits gets what the task function computes; and the loop of
  the listener is such a schedule, which ends when the function submits nothing itself.
\<close>

section \<open>A task on its way\<close>

text \<open>
  The task \<open>t1\<close> is in its queue, or fetched and waiting for a worker, or answered. Nothing else carries its
  id.
\<close>

definition mine :: "string \<Rightarrow> ('p, 'r) task option \<Rightarrow> bool" where
  "mine tid u \<longleftrightarrow> (case u of None \<Rightarrow> False | Some t \<Rightarrow> t_id t = tid)"

definition on_its_way :: "('p, 'r) codec \<Rightarrow> queue_cfg \<Rightarrow> (('p, 'r) task \<Rightarrow> error + 'r) \<Rightarrow> string \<Rightarrow> ('p, 'r) task \<Rightarrow>
    ('p, 'r) task option list \<Rightarrow> keyspace \<Rightarrow> bool" where
  "on_its_way C q f name t1 pend V \<longleftrightarrow>
     filter ((=) (t_id t1)) (rlists V (queue_key q name)) = [t_id t1] \<and> filter (mine (t_id t1)) pend = [] \<and>
       map_option fst (strs V (result_key q (t_id t1))) = Some (dumps C (t1\<lparr>t_save := False\<rparr>)) \<or>
     t_id t1 \<notin> set (rlists V (queue_key q name)) \<and> filter (mine (t_id t1)) pend = [Some (t1\<lparr>t_save := True\<rparr>)] \<or>
     t_id t1 \<notin> set (rlists V (queue_key q name)) \<and> filter (mine (t_id t1)) pend = [] \<and>
       strs V (result_key q (t_id t1)) =
         Some (dumps C ((answered f (t1\<lparr>t_save := True\<rparr>))\<lparr>t_save := False\<rparr>), Some (now_ms V + 1000 * q_timeout q))"

definition serving :: "('p, 'r) codec \<Rightarrow> queue_cfg \<Rightarrow> (('p, 'r) task \<Rightarrow> error + 'r) \<Rightarrow> string list \<Rightarrow> string \<Rightarrow> ('p, 'r) task \<Rightarrow>
    ('p, 'r) task option list \<Rightarrow> keyspace \<Rightarrow> bool" where
  "serving C q f names name t1 pend V \<longleftrightarrow>
     queue_typed q names V \<and> well_filed C q V \<and> (\<forall>t. Some t \<in> set pend \<longrightarrow> t_save t) \<and>
     (\<forall>n\<in>set names. n \<noteq> name \<longrightarrow> t_id t1 \<notin> set (rlists V (queue_key q n))) \<and>
     on_its_way C q f name t1 pend V"

lemma mine_simps [simp]: "\<not> mine tid None" "mine tid (Some t) \<longleftrightarrow> t_id t = tid"
  by (simp_all add: mine_def)

lemma append_single: "xs @ a # ys = [b] \<longleftrightarrow> xs = [] \<and> a = b \<and> ys = []"
  by (cases xs) auto

context redis_server
begin

text \<open>The entry \<open>i\<close> at the head of the queue \<open>n\<close> is fetched.\<close>

lemma on_its_way_fetched:
  assumes way: "on_its_way C q f name t1 pend V" and C: "codec_ok C" and filed: "well_filed C q V"
    and head: "rlists V (queue_key q n) = i # rest" and "n \<noteq> name \<Longrightarrow> i \<noteq> t_id t1"
    and task: "task = map_option (\<lambda>e. (loads C (fst e))\<lparr>t_save := True\<rparr>) (strs V (result_key q i))"
  shows "on_its_way C q f name t1 (pend @ [task]) (put_list (queue_key q n) rest V)"
proof -
  let ?V1 = "put_list (queue_key q n) rest V" and ?tid = "t_id t1"
  have cells: "strs ?V1 (result_key q j) = strs V (result_key q j)" and now: "now_ms ?V1 = now_ms V" for j
    by (simp_all add: redis_simps)
  have lists: "rlists ?V1 (queue_key q m) = (if m = n then rest else rlists V (queue_key q m))" for m
    by (simp add: redis_simps queue_keys_differ)
  show ?thesis
  proof (cases "i = ?tid")
    case True
    then have "n = name" using assms(5) by blast
    with head True have "?tid \<in> set (rlists V (queue_key q name))" by simp
    with way have one: "filter ((=) ?tid) (rlists V (queue_key q name)) = [?tid]" "filter (mine ?tid) pend = []"
      "map_option fst (strs V (result_key q ?tid)) = Some (dumps C (t1\<lparr>t_save := False\<rparr>))"
      unfolding on_its_way_def by blast+
    from one(1) head \<open>n = name\<close> True have "?tid \<notin> set rest" by (auto simp: filter_empty_conv)
    moreover from one(3) True have "task = Some (t1\<lparr>t_save := True\<rparr>)" using C by (auto simp: task codec_ok_def)
    ultimately show ?thesis using one(2) \<open>n = name\<close> unfolding on_its_way_def lists by simp
  next
    case False
    have "\<not> mine ?tid task"
      using filed False by (auto simp: task well_filed_def mine_def split: option.splits)
    moreover have "filter ((=) ?tid) (rlists ?V1 (queue_key q name)) = filter ((=) ?tid) (rlists V (queue_key q name))"
      "?tid \<in> set (rlists ?V1 (queue_key q name)) \<longleftrightarrow> ?tid \<in> set (rlists V (queue_key q name))"
      using False head by (auto simp: lists)
    ultimately show ?thesis using way unfolding on_its_way_def cells now by simp
  qed
qed

lemma serving_fetch:
  assumes inv: "serving C q f names name t1 pend (view (w_redis w))" and C: "codec_ok C"
    and pop: "r_blpop R (map (queue_key q) names) (w_redis w) = (Some (k, i), s)"
    and got: "get_task R C q i False s = (task, s1)"
  shows "serving C q f names name t1 (pend @ [task]) (view s1)"
proof -
  let ?V = "view (w_redis w)" and ?tid = "t_id t1"
  from inv have typed: "queue_typed q names ?V" and filed: "well_filed C q ?V"
    and save: "\<forall>t. Some t \<in> set pend \<longrightarrow> t_save t"
    and others: "\<forall>n\<in>set names. n \<noteq> name \<longrightarrow> ?tid \<notin> set (rlists ?V (queue_key q n))"
    and way: "on_its_way C q f name t1 pend ?V" by (simp_all add: serving_def)
  from fetched [OF typed pop] obtain n rest where
    n: "n \<in> set names" "rlists ?V (queue_key q n) = i # rest" and s: "view s = put_list (queue_key q n) rest ?V"
    by blast
  have typed1: "queue_typed q names (view s)" unfolding s by (rule queue_typed_put(2) [OF typed n(1)])
  have filed1: "well_filed C q (view s)" unfolding s by (simp only: filed_put(2) filed)
  from typed1 have "str_key (view s) (result_key q i)" by (simp add: queue_typed_def)
  from get_task_eq [OF this, of C] got have s1: "s1 = s"
    and task: "task = map_option (\<lambda>e. (loads C (fst e))\<lparr>t_save := True\<rparr>) (strs ?V (result_key q i))"
    by (simp_all add: s redis_simps)
  have "task = Some t \<Longrightarrow> t_save t" for t
    using task by (cases "strs ?V (result_key q i)") auto
  then have "\<forall>t. Some t \<in> set (pend @ [task]) \<longrightarrow> t_save t" using save by auto
  moreover have "\<forall>m\<in>set names. m \<noteq> name \<longrightarrow> ?tid \<notin> set (rlists (view s) (queue_key q m))"
    using others n by (auto simp: s redis_simps queue_keys_differ)
  moreover have "i \<noteq> ?tid" if "n \<noteq> name"
  proof -
    from others n(1) that have "?tid \<notin> set (rlists ?V (queue_key q n))" by blast
    with n(2) show ?thesis by auto
  qed
  with on_its_way_fetched [OF way C filed n(2) _ task] have "on_its_way C q f name t1 (pend @ [task]) (view s)"
    unfolding s by blast
  ultimately show ?thesis using typed1 filed1 by (simp add: serving_def s1)
qed

lemma on_its_way_run:
  assumes way: "on_its_way C q f name t1 (us @ Some t # vs) V"
  shows "on_its_way C q f name t1 (us @ vs)
    (put_str (result_key q (t_id t)) (dumps C ((answered f t)\<lparr>t_save := False\<rparr>)) (Some (q_timeout q)) V)"
proof -
  let ?V1 = "put_str (result_key q (t_id t)) (dumps C ((answered f t)\<lparr>t_save := False\<rparr>)) (Some (q_timeout q)) V"
    and ?tid = "t_id t1"
  have lists: "rlists ?V1 (queue_key q m) = rlists V (queue_key q m)" and now: "now_ms ?V1 = now_ms V" for m
    by (simp_all add: redis_simps queue_keys_differ [symmetric])
  show ?thesis
  proof (cases "t_id t = ?tid")
    case True
    then have mine: "filter (mine ?tid) (us @ Some t # vs) = filter (mine ?tid) us @ Some t # filter (mine ?tid) vs"
      by simp
    then have "filter (mine ?tid) (us @ Some t # vs) \<noteq> []" by simp
    with way have two: "?tid \<notin> set (rlists V (queue_key q name))"
      "filter (mine ?tid) (us @ Some t # vs) = [Some (t1\<lparr>t_save := True\<rparr>)]"
      unfolding on_its_way_def by blast+
    from two(2) have "filter (mine ?tid) us = [] \<and> Some t = Some (t1\<lparr>t_save := True\<rparr>) \<and> filter (mine ?tid) vs = []"
      unfolding mine append_single .
    then have rest: "filter (mine ?tid) (us @ vs) = []" and t1: "t1\<lparr>t_save := True\<rparr> = t" by auto
    have "strs ?V1 (result_key q ?tid) = Some (dumps C ((answered f t)\<lparr>t_save := False\<rparr>), Some (now_ms ?V1 + 1000 * q_timeout q))"
      by (simp add: redis_simps deadline_def True)
    with rest two(1) show ?thesis unfolding on_its_way_def lists t1 by blast
  next
    case False
    then have "strs ?V1 (result_key q ?tid) = strs V (result_key q ?tid)" by (simp add: redis_simps queue_keys_differ)
    moreover have "filter (mine ?tid) (us @ Some t # vs) = filter (mine ?tid) (us @ vs)" using False by simp
    ultimately show ?thesis using way unfolding on_its_way_def lists now by simp
  qed
qed

lemma serving_run:
  assumes inv: "serving C q f names name t1 (us @ task # vs) (view (w_redis w))" and C: "codec_ok C"
    and fn: "pure_fn f task_fn on_missing" "0 < q_timeout q"
  shows "serving C q f names name t1 (us @ vs) (view (w_redis (run_submitted R C q task_fn on_missing task w)))"
proof (cases task)
  case None
  have "run_submitted R C q task_fn on_missing task w = w"
    using None fn(1) by (simp add: run_submitted_def pure_fn_def)
  with inv None show ?thesis by (simp add: serving_def on_its_way_def)
next
  case (Some t)
  let ?V = "view (w_redis w)" and ?V1 = "view (w_redis (run_submitted R C q task_fn on_missing task w))"
  from inv have "\<forall>u. Some u \<in> set (us @ task # vs) \<longrightarrow> t_save u" unfolding serving_def by blast
  moreover have "Some t \<in> set (us @ task # vs)" unfolding Some by simp
  ultimately have t: "t_save t" by blast
  have V1: "?V1 = put_str (result_key q (t_id t)) (dumps C ((answered f t)\<lparr>t_save := False\<rparr>)) (Some (q_timeout q)) ?V"
    unfolding Some by (rule run_pure(1) [OF fn t])
  have typed: "queue_typed q names ?V1" and filed: "well_filed C q ?V1"
    using inv queue_typed_put(1) filed_put(1) [OF C, of q ?V "(answered f t)\<lparr>t_save := False\<rparr>" "t_id t"]
    by (simp_all add: V1 serving_def)
  have "on_its_way C q f name t1 (us @ vs) ?V1"
    unfolding V1 by (rule on_its_way_run) (use inv Some in \<open>unfold serving_def, blast\<close>)
  moreover have "rlists ?V1 (queue_key q m) = rlists ?V (queue_key q m)" for m
    by (simp add: V1 redis_simps queue_keys_differ [symmetric])
  then have "\<forall>u. Some u \<in> set (us @ vs) \<longrightarrow> t_save u"
    "\<forall>n\<in>set names. n \<noteq> name \<longrightarrow> t_id t1 \<notin> set (rlists ?V1 (queue_key q n))"
    using inv unfolding serving_def by auto
  ultimately show ?thesis unfolding serving_def using typed filed by blast
qed

lemma serving_steps:
  assumes "(listener_step R C q task_fn on_missing (map (queue_key q) names))\<^sup>*\<^sup>* (pend, w) (pend', w')"
    and "serving C q f names name t1 pend (view (w_redis w))" and "codec_ok C" and "pure_fn f task_fn on_missing" and "0 < q_timeout q"
  shows "serving C q f names name t1 pend' (view (w_redis w'))"
  using assms
proof (induction "(pend', w')" arbitrary: pend' w' rule: rtranclp_induct)
  case base
  then show ?case by simp
next
  case (step st)
  obtain pend1 w1 where st: "st = (pend1, w1)" by (cases st)
  from step(3) [OF st step(4-)] have inv: "serving C q f names name t1 pend1 (view (w_redis w1))" .
  from step(2) show ?case unfolding st
  proof cases
    case (step_fetch k task_id s task s1)
    with serving_fetch [OF inv \<open>codec_ok C\<close>] show ?thesis by auto
  next
    case (step_run us task vs)
    with serving_run [OF _ \<open>codec_ok C\<close> \<open>pure_fn f task_fn on_missing\<close> \<open>0 < q_timeout q\<close>] inv show ?thesis by auto
  qed
qed

text \<open>At the end of a schedule that leaves nothing in the queue and nothing unrun, the task is answered.\<close>

lemma served_at_end:
  assumes "serving C q f names name t1 [] V" and "rlists V (queue_key q name) = []"
  shows "strs V (result_key q (t_id t1)) =
    Some (dumps C ((answered f (t1\<lparr>t_save := True\<rparr>))\<lparr>t_save := False\<rparr>), Some (now_ms V + 1000 * q_timeout q))"
  using assms by (simp add: serving_def on_its_way_def)

end

section \<open>The loop is a schedule\<close>

text \<open>The workers only run submitted tasks.\<close>

definition run_step :: "'s redis \<Rightarrow> ('p, 'r) codec \<Rightarrow> queue_cfg \<Rightarrow> ('p, 'r, 's) task_fn \<Rightarrow> ('s world \<Rightarrow> 's world) \<Rightarrow>
    ('p, 'r, 's) listener \<Rightarrow> ('p, 'r, 's) listener \<Rightarrow> bool" where
  "run_step R C q task_fn on_missing st st' \<longleftrightarrow>
     (\<exists>us task vs w. st = (us @ task # vs, w) \<and> st' = (us @ vs, run_submitted R C q task_fn on_missing task w))"

definition works :: "'s redis \<Rightarrow> ('p, 'r) codec \<Rightarrow> queue_cfg \<Rightarrow> ('p, 'r, 's) task_fn \<Rightarrow> ('s world \<Rightarrow> 's world) \<Rightarrow>
    (('p, 'r, 's) listener \<Rightarrow> ('p, 'r, 's) listener) \<Rightarrow> bool" where
  "works R C q task_fn on_missing work \<longleftrightarrow> (\<forall>st. (run_step R C q task_fn on_missing)\<^sup>*\<^sup>* st (work st))"

lemma run_steps_schedule:
  "(run_step R C q task_fn on_missing)\<^sup>*\<^sup>* st st' \<Longrightarrow> (listener_step R C q task_fn on_missing ks)\<^sup>*\<^sup>* st st'"
  by (induction rule: rtranclp_induct)
    (auto simp: run_step_def intro: rtranclp.rtrancl_into_rtrancl listener_step.step_run)

lemma finish_runs: "(run_step R C q task_fn on_missing)\<^sup>*\<^sup>* (pend, w) (finish R C q task_fn on_missing (pend, w))"
proof (induction pend arbitrary: w)
  case (Cons task pend)
  have "run_step R C q task_fn on_missing (task # pend, w) (pend, run_submitted R C q task_fn on_missing task w)"
    by (auto simp: run_step_def intro: exI [of _ "[]"])
  with Cons.IH [of "run_submitted R C q task_fn on_missing task w"] show ?case
    by (auto simp: finish_def intro: converse_rtranclp_into_rtranclp)
qed (simp add: finish_def)

definition backlog :: "queue_cfg \<Rightarrow> string list \<Rightarrow> keyspace \<Rightarrow> nat" where
  "backlog q names V = (\<Sum>n\<in>set names. length (rlists V (queue_key q n)))"

definition all_saved :: "('p, 'r) task option list \<Rightarrow> bool" where
  "all_saved pend \<longleftrightarrow> (\<forall>t. Some t \<in> set pend \<longrightarrow> t_save t)"

context redis_server
begin

lemma run_steps_keep:
  assumes "(run_step R C q task_fn on_missing)\<^sup>*\<^sup>* (pend, w) (pend', w')" and "pure_fn f task_fn on_missing" and "0 < q_timeout q"
    and "queue_typed q names (view (w_redis w))" and "all_saved pend"
  shows "queue_typed q names (view (w_redis w')) \<and> all_saved pend' \<and>
    (\<forall>n. rlists (view (w_redis w')) (queue_key q n) = rlists (view (w_redis w)) (queue_key q n))"
  using assms
proof (induction "(pend', w')" arbitrary: pend' w' rule: rtranclp_induct)
  case (step st)
  obtain pend1 w1 where st: "st = (pend1, w1)" by (cases st)
  from step(3) [OF st step(4-)] have IH: "queue_typed q names (view (w_redis w1))" "all_saved pend1"
    "\<forall>n. rlists (view (w_redis w1)) (queue_key q n) = rlists (view (w_redis w)) (queue_key q n)" by blast+
  from step(2) obtain us task vs where pend1: "pend1 = us @ task # vs" and pend': "pend' = us @ vs"
    and w': "w' = run_submitted R C q task_fn on_missing task w1"
    by (auto simp: run_step_def st)
  have saved: "all_saved pend'" using IH(2) by (simp add: all_saved_def pend1 pend')
  show ?case
  proof (cases task)
    case None
    then have "w' = w1" using step.prems(1) by (simp add: w' run_submitted_def pure_fn_def)
    with IH saved show ?thesis by simp
  next
    case (Some t)
    have "Some t \<in> set pend1" unfolding pend1 Some by simp
    then have "t_save t" using IH(2) unfolding all_saved_def by blast
    from run_pure(1) [OF step.prems(1,2) this, of C w1] have
      "view (w_redis w') = put_str (result_key q (t_id t)) (dumps C ((answered f t)\<lparr>t_save := False\<rparr>)) (Some (q_timeout q)) (view (w_redis w1))"
      unfolding w' Some .
    with IH saved show ?thesis
      by (simp add: queue_typed_put(1) redis_simps queue_keys_differ [symmetric])
  qed
qed simp

text \<open>One turn of the inner loop: the fetched task is submitted and one entry less waits.\<close>

lemma drain_turn:
  assumes fn: "pure_fn f task_fn on_missing" "0 < q_timeout q" and work: "works R C q task_fn on_missing work"
    and typed: "queue_typed q names (view (w_redis w))" and "all_saved pend"
    and pop: "r_blpop R (map (queue_key q) names) (w_redis w) = (Some (k, i), s)"
  obtains task pend2 w2 where "get_task R C q i False s = (task, s)" and "work (pend @ [task], w\<lparr>w_redis := s\<rparr>) = (pend2, w2)"
    and "(listener_step R C q task_fn on_missing (map (queue_key q) names))\<^sup>*\<^sup>* (pend, w) (pend2, w2)"
    and "queue_typed q names (view (w_redis w2))" and "all_saved pend2"
    and "backlog q names (view (w_redis w2)) < backlog q names (view (w_redis w))"
proof -
  let ?V = "view (w_redis w)" and ?w1 = "w\<lparr>w_redis := s\<rparr>"
  from fetched [OF typed pop] obtain n rest where n: "n \<in> set names" "rlists ?V (queue_key q n) = i # rest"
    and s: "view s = put_list (queue_key q n) rest ?V" by blast
  have typed1: "queue_typed q names (view s)" unfolding s by (rule queue_typed_put(2) [OF typed n(1)])
  then have str: "str_key (view s) (result_key q i)" by (simp add: queue_typed_def)
  define task where "task = map_option (\<lambda>e. (loads C (fst e))\<lparr>t_save := True\<rparr>) (strs (view s) (result_key q i))"
  have got: "get_task R C q i False s = (task, s)" using get_task_eq [OF str, of C] by (simp add: task_def)
  have saved1: "all_saved (pend @ [task])"
    using assms(5) by (cases "strs (view s) (result_key q i)") (auto simp: all_saved_def task_def)
  obtain pend2 w2 where w2: "work (pend @ [task], ?w1) = (pend2, w2)" by (cases "work (pend @ [task], ?w1)")
  have runs: "(run_step R C q task_fn on_missing)\<^sup>*\<^sup>* (pend @ [task], ?w1) (pend2, w2)"
    using work unfolding works_def w2 [symmetric] by blast
  from run_steps_keep [OF runs fn, of names] typed1 saved1 have keep: "queue_typed q names (view (w_redis w2))" "all_saved pend2"
    "\<forall>n. rlists (view (w_redis w2)) (queue_key q n) = rlists (view s) (queue_key q n)" by simp_all
  have "backlog q names (view (w_redis w2)) < backlog q names ?V"
    unfolding backlog_def
  proof (rule sum_strict_mono_ex1)
    show "\<forall>m\<in>set names. length (rlists (view (w_redis w2)) (queue_key q m)) \<le> length (rlists ?V (queue_key q m))"
      using n(2) by (simp add: keep(3) s redis_simps queue_keys_differ)
    show "\<exists>m\<in>set names. length (rlists (view (w_redis w2)) (queue_key q m)) < length (rlists ?V (queue_key q m))"
      using n by (intro bexI [of _ n]) (simp_all add: keep(3) s redis_simps)
  qed simp
  moreover have "listener_step R C q task_fn on_missing (map (queue_key q) names) (pend, w) (pend @ [task], ?w1)"
    by (rule listener_step.step_fetch [OF pop got])
  then have "(listener_step R C q task_fn on_missing (map (queue_key q) names))\<^sup>*\<^sup>* (pend, w) (pend2, w2)"
    using run_steps_schedule [OF runs] by (rule converse_rtranclp_into_rtranclp)
  ultimately show thesis using that [OF got w2] keep(1,2) by blast
qed

lemma drain_schedule:
  assumes fn: "pure_fn f task_fn on_missing" "0 < q_timeout q" and work: "works R C q task_fn on_missing work"
    and "queue_typed q names (view (w_redis w))" and "all_saved pend"
  shows "\<exists>pend' w'. drain R C q work (map (queue_key q) names) (pend, w) = Some (pend', w') \<and>
    (listener_step R C q task_fn on_missing (map (queue_key q) names))\<^sup>*\<^sup>* (pend, w) (pend', w') \<and>
    queue_typed q names (view (w_redis w')) \<and> all_saved pend' \<and> (\<forall>n\<in>set names. rlists (view (w_redis w')) (queue_key q n) = [])"
  using assms(4,5)
proof (induction "backlog q names (view (w_redis w))" arbitrary: pend w rule: less_induct)
  case less
  let ?V = "view (w_redis w)" and ?ks = "map (queue_key q) names"
  have typed: "\<forall>k\<in>set ?ks. list_key ?V k" using less.prems(1) by (auto simp: queue_typed_def)
  show ?case
  proof (cases "\<forall>n\<in>set names. rlists ?V (queue_key q n) = []")
    case True
    with typed have "\<forall>k\<in>set ?ks. list_key ?V k \<and> rlists ?V k = []" by auto
    from blpop_empty [OF this] True less.prems show ?thesis
      by (subst drain.simps) auto
  next
    case False
    then obtain k0 where "find (\<lambda>k. rlists ?V k \<noteq> []) ?ks = Some k0"
      by (cases "find (\<lambda>k. rlists ?V k \<noteq> []) ?ks") (auto simp: find_None_iff)
    from blpop [OF typed this] obtain i s where pop: "r_blpop R ?ks (w_redis w) = (Some (k0, i), s)"
      by (cases "r_blpop R ?ks (w_redis w)") auto
    from drain_turn [OF fn work less.prems pop] obtain task pend2 w2 where
      turn: "get_task R C q i False s = (task, s)" "work (pend @ [task], w\<lparr>w_redis := s\<rparr>) = (pend2, w2)"
        "(listener_step R C q task_fn on_missing ?ks)\<^sup>*\<^sup>* (pend, w) (pend2, w2)"
      and next_turn: "queue_typed q names (view (w_redis w2))" "all_saved pend2" "backlog q names (view (w_redis w2)) < backlog q names ?V" .
    have "drain R C q work ?ks (pend, w) = drain R C q work ?ks (pend2, w2)"
      by (subst drain.simps) (simp add: pop turn(1,2))
    with less.hyps [OF next_turn(3,1,2)] turn(3) show ?thesis by (metis rtranclp_trans)
  qed
qed

text \<open>Draining the queues and waiting for the workers: nothing is left.\<close>

lemma drain_then_finish:
  assumes "pure_fn f task_fn on_missing" and "0 < q_timeout q" and "works R C q task_fn on_missing work"
    and "queue_typed q names (view (w_redis w))"
  shows "\<exists>st w'. drain R C q work (map (queue_key q) names) ([], w) = Some st \<and> finish R C q task_fn on_missing st = ([], w') \<and>
    (listener_step R C q task_fn on_missing (map (queue_key q) names))\<^sup>*\<^sup>* ([], w) ([], w') \<and>
    (\<forall>n\<in>set names. rlists (view (w_redis w')) (queue_key q n) = [])"
proof -
  have "all_saved []" by (simp add: all_saved_def)
  from drain_schedule [OF assms this] obtain pend w1 where d: "drain R C q work (map (queue_key q) names) ([], w) = Some (pend, w1)"
    "(listener_step R C q task_fn on_missing (map (queue_key q) names))\<^sup>*\<^sup>* ([], w) (pend, w1)"
    "queue_typed q names (view (w_redis w1))" "all_saved pend" "\<forall>n\<in>set names. rlists (view (w_redis w1)) (queue_key q n) = []" by blast
  obtain w' where f: "finish R C q task_fn on_missing (pend, w1) = ([], w')" by (simp add: finish_def)
  have runs: "(run_step R C q task_fn on_missing)\<^sup>*\<^sup>* (pend, w1) ([], w')" unfolding f [symmetric] by (rule finish_runs)
  from run_steps_keep [OF runs assms(1,2) d(3,4)] d(5) have "\<forall>n\<in>set names. rlists (view (w_redis w')) (queue_key q n) = []" by simp
  moreover have "(listener_step R C q task_fn on_missing (map (queue_key q) names))\<^sup>*\<^sup>* ([], w) ([], w')"
    using d(2) run_steps_schedule [OF runs] by (rule rtranclp_trans)
  ultimately show ?thesis using d(1) f by blast
qed

text \<open>The whole of \<open>listen\<close>, over any number of rounds.\<close>

lemma announce:
  assumes "0 < q_timeout q" and "queue_typed q names (view (w_redis w))"
  shows "\<exists>w'. for_each (set_queue_listened R q) ns w = Done () w' \<and> queue_typed q names (view (w_redis w'))"
  using assms(2)
proof (induction ns arbitrary: w)
  case (Cons n ns)
  from setex [OF assms(1), of "queue_listen_name q n" "''1''" "w_redis w"] obtain s where
    s: "r_setex R (queue_listen_name q n) ''1'' (q_timeout q) (w_redis w) = Some s"
    "view s = put_str (queue_listen_name q n) ''1'' (Some (q_timeout q)) (view (w_redis w))" by blast
  have "queue_typed q names (view (w_redis (w\<lparr>w_redis := s\<rparr>)))"
    using Cons.prems
    by (auto simp: queue_typed_def s(2) redis_simps list_key_def str_key_def queue_keys_differ)
  from Cons.IH [OF this] show ?case by (simp add: set_queue_listened_def s(1))
qed simp

lemma listen_returns:
  assumes fn: "pure_fn f task_fn on_missing" "0 < q_timeout q" and work: "works R C q task_fn on_missing work"
    and sleep: "\<And>w. queue_typed q names (view (w_redis w)) \<Longrightarrow> queue_typed q names (view (w_redis (sleep (q_interval q) w)))"
    and "queue_typed q names (view (w_redis w))" and "all_saved pend"
  shows "\<exists>w'. listen R C q task_fn on_missing work sleep names n (pend, w) = Some (Done () ([], w'))"
  using assms(5,6)
proof (induction n arbitrary: pend w)
  case 0
  then show ?case by (simp add: finish_def)
next
  case (Suc n)
  from drain_schedule [OF fn work Suc.prems] obtain pend1 w1 where
    d: "drain R C q work (map (queue_key q) names) (pend, w) = Some (pend1, w1)"
    "queue_typed q names (view (w_redis w1))" "all_saved pend1" by blast
  from announce [OF fn(2) d(2), of names] obtain w2 where
    a: "for_each (set_queue_listened R q) names w1 = Done () w2" "queue_typed q names (view (w_redis w2))" by blast
  obtain pend3 w3 where w3: "work (pend1, sleep (q_interval q) w2) = (pend3, w3)" by (cases "work (pend1, sleep (q_interval q) w2)")
  have runs: "(run_step R C q task_fn on_missing)\<^sup>*\<^sup>* (pend1, sleep (q_interval q) w2) (pend3, w3)"
    using work unfolding works_def w3 [symmetric] by blast
  have "queue_typed q names (view (w_redis w3))" "all_saved pend3"
    using run_steps_keep [OF runs fn sleep [OF a(2)] d(3)] by simp_all
  from Suc.IH [OF this] show ?case by (simp add: listen_round_def d(1) a(1) w3)
qed

end

section \<open>The client and the listener\<close>

text \<open>
  While a client sleeps for at most one polling interval, a listener of \<open>names\<close> empties the queue \<open>name\<close> and
  runs what it fetched; then time passes, less than results are kept.
\<close>

definition serves :: "'s redis \<Rightarrow> ('s \<Rightarrow> keyspace) \<Rightarrow> ('p, 'r) codec \<Rightarrow> queue_cfg \<Rightarrow> ('p, 'r, 's) task_fn \<Rightarrow> ('s world \<Rightarrow> 's world) \<Rightarrow>
    string list \<Rightarrow> string \<Rightarrow> (rat \<Rightarrow> 's world \<Rightarrow> 's world) \<Rightarrow> bool" where
  "serves R view C q task_fn on_missing names name sleep \<longleftrightarrow>
     (\<forall>d w. d \<le> q_interval q \<longrightarrow> queue_typed q names (view (w_redis w)) \<longrightarrow>
        (\<exists>w1 dt. (listener_step R C q task_fn on_missing (map (queue_key q) names))\<^sup>*\<^sup>* ([], w) ([], w1) \<and>
           rlists (view (w_redis w1)) (queue_key q name) = [] \<and> dt < 1000 * q_timeout q \<and>
           view (w_redis (sleep d w)) = elapse dt (view (w_redis w1))))"

context redis_server
begin

text \<open>Submitting a task with a fresh id puts it on its way.\<close>

lemma submit_serving:
  assumes C: "codec_ok C" and q: "0 < q_timeout q" and name: "name \<in> set names"
    and typed: "queue_typed q names (view (w_redis w))" and filed: "well_filed C q (view (w_redis w))"
    and fresh: "\<forall>n\<in>set names. t_id t1 \<notin> set (rlists (view (w_redis w)) (queue_key q n))" and save: "t_save t1"
  obtains w2 w3 where "set_task R C q (t1, w) = Done (t_id t1) (t1\<lparr>t_save := False\<rparr>, w2)"
    and "w3 = w2\<lparr>w_redis := r_rpush R (queue_key q name) (t_id t1) (w_redis w2)\<rparr>"
    and "w_mono w3 = w_mono w" and "serving C q f names name t1 [] (view (w_redis w3))"
    and "fst (get_task R C q (t_id t1) False (w_redis w3)) = Some t1"
proof -
  let ?V = "view (w_redis w)" and ?tid = "t_id t1"
  from set_task_effect [OF q, of C t1 w] obtain w2 where
    w2: "set_task R C q (t1, w) = Done ?tid (t1\<lparr>t_save := False\<rparr>, w2)" "w_mono w2 = w_mono w"
    and V2: "view (w_redis w2) = put_str (result_key q ?tid) (dumps C (t1\<lparr>t_save := False\<rparr>)) (Some (q_timeout q)) ?V"
    by auto
  define w3 where "w3 = w2\<lparr>w_redis := r_rpush R (queue_key q name) ?tid (w_redis w2)\<rparr>"
  let ?V3 = "view (w_redis w3)"
  have typed2: "queue_typed q names (view (w_redis w2))" unfolding V2 by (rule queue_typed_put(1) [OF typed])
  then have "list_key (view (w_redis w2)) (queue_key q name)" using name by (simp add: queue_typed_def)
  from rpush [OF this, of ?tid] have
    V3: "?V3 = put_list (queue_key q name) (rlists ?V (queue_key q name) @ [?tid]) (view (w_redis w2))"
    by (simp add: w3_def V2 redis_simps queue_keys_differ [symmetric])
  have typed3: "queue_typed q names ?V3" unfolding V3 by (rule queue_typed_put(2) [OF typed2 name])
  have filed3: "well_filed C q ?V3" unfolding V3 filed_put(2) V2 by (rule filed_put(1) [OF C filed]) simp
  have lists3: "rlists ?V3 (queue_key q n) = (if n = name then rlists ?V (queue_key q name) @ [?tid] else rlists ?V (queue_key q n))" for n
    unfolding V3 V2 by (simp add: redis_simps queue_keys_differ queue_keys_differ [symmetric])
  have cell3: "map_option fst (strs ?V3 (result_key q ?tid)) = Some (dumps C (t1\<lparr>t_save := False\<rparr>))"
    unfolding V3 V2 by (simp add: redis_simps)
  have "filter ((=) ?tid) (rlists ?V (queue_key q name)) = []"
    using fresh name by (auto simp: filter_empty_conv)
  then have "on_its_way C q f name t1 [] ?V3" using cell3 by (simp add: on_its_way_def lists3)
  then have "serving C q f names name t1 [] ?V3" using typed3 filed3 fresh by (simp add: serving_def lists3)
  moreover have "str_key ?V3 (result_key q ?tid)" using typed3 by (simp add: queue_typed_def)
  then have "fst (get_task R C q ?tid False (w_redis w3)) = Some t1"
    using get_task_eq [of "w_redis w3" q ?tid C] cell3 C save by (auto simp: codec_ok_def)
  ultimately show thesis using that [OF w2(1) w3_def] w2(2) by (simp add: w3_def)
qed

text \<open>When the client wakes up, the answer is there.\<close>

lemma answer_after_sleep:
  assumes C: "codec_ok C" and q: "0 < q_timeout q" and fn: "pure_fn f task_fn on_missing"
    and served: "serves R view C q task_fn on_missing names name sleep" and "d \<le> q_interval q"
    and inv: "serving C q f names name t1 [] (view (w_redis w))" and save: "t_save t1"
  shows "fst (get_task R C q (t_id t1) False (w_redis (sleep d w))) = Some ((answered f t1)\<lparr>t_save := True\<rparr>)"
proof -
  let ?V4 = "view (w_redis (sleep d w))"
  have "queue_typed q names (view (w_redis w))" using inv by (simp add: serving_def)
  with served assms(5) obtain w5 dt where
    steps: "(listener_step R C q task_fn on_missing (map (queue_key q) names))\<^sup>*\<^sup>* ([], w) ([], w5)"
    and empty: "rlists (view (w_redis w5)) (queue_key q name) = []" and dt: "dt < 1000 * q_timeout q"
    and V4: "?V4 = elapse dt (view (w_redis w5))"
    unfolding serves_def by meson
  have inv5: "serving C q f names name t1 [] (view (w_redis w5))"
    by (rule serving_steps [OF steps inv C fn q])
  have "t1\<lparr>t_save := True\<rparr> = t1" using save by simp
  with served_at_end [OF inv5 empty] dt have
    "strs ?V4 (result_key q (t_id t1)) = Some (dumps C ((answered f t1)\<lparr>t_save := False\<rparr>), Some (now_ms (view (w_redis w5)) + 1000 * q_timeout q))"
    by (simp add: V4 redis_simps live_def)
  moreover have "str_key ?V4 (result_key q (t_id t1))"
    using inv5 by (simp add: V4 redis_simps serving_def queue_typed_def)
  ultimately show ?thesis
    using get_task_eq [of "w_redis (sleep d w)" q "t_id t1" C] C by (auto simp: codec_ok_def)
qed

lemma poll_answer:
  assumes got: "fst (get_task R C q tid False (w_redis w)) = Some ((answered f t1)\<lparr>t_save := True\<rparr>)"
    and "t_result t1 = None" and "t_error t1 = None"
  shows "remote_wait R C q sleep tid once due w =
    Some (case f t1 of Inl e \<Rightarrow> Abort e (forget_if R q tid once w) | Inr r \<Rightarrow> Done (Some r) (forget_if R q tid once w))"
proof (cases "f t1")
  case (Inl e)
  then have "t_error ((answered f t1)\<lparr>t_save := True\<rparr>) = Some e" by (simp add: answered_def)
  from remote_wait_stored(1) [OF got this] Inl show ?thesis by simp
next
  case (Inr r)
  then have "t_error ((answered f t1)\<lparr>t_save := True\<rparr>) = None" "t_result ((answered f t1)\<lparr>t_save := True\<rparr>) = Some r"
    using assms(2,3) by (simp_all add: answered_def)
  from remote_wait_stored(2) [OF got this] Inr show ?thesis by simp
qed

lemma remote_served:
  assumes C: "codec_ok C" and q: "0 < q_timeout q" and fn: "pure_fn f task_fn on_missing"
    and served: "serves R view C q task_fn on_missing names name sleep" and name: "name \<in> set names"
    and typed: "queue_typed q names (view (w_redis w))" and filed: "well_filed C q (view (w_redis w))"
    and fresh: "\<forall>n\<in>set names. t_id t \<notin> set (rlists (view (w_redis w)) (queue_key q n))"
    and t: "t_name t = name" "t_result t = None" "t_error t = None" "t_save t"
    and d: "d = (case timeout of None \<Rightarrow> of_int (q_timeout q) | Some d \<Rightarrow> d)" "0 < d"
  shows "\<exists>st. execute_task_remotely R C q sleep timeout once (t, w) =
    Some (case f (t\<lparr>t_expiry := w_time w + d\<rparr>) of Inl e \<Rightarrow> Abort e st | Inr r \<Rightarrow> Done (Some r) st)"
proof -
  define t1 where "t1 = t\<lparr>t_expiry := w_time w + d\<rparr>"
  have t1: "t_id t1 = t_id t" "t_result t1 = None" "t_error t1 = None" "t_save t1" using t by (simp_all add: t1_def)
  from submit_serving [OF C q name typed filed fresh [folded t1(1)] t1(4), of f] obtain w2 w3 where
    w: "set_task R C q (t1, w) = Done (t_id t1) (t1\<lparr>t_save := False\<rparr>, w2)"
      "w3 = w2\<lparr>w_redis := r_rpush R (queue_key q name) (t_id t1) (w_redis w2)\<rparr>" "w_mono w3 = w_mono w"
    and inv: "serving C q f names name t1 [] (view (w_redis w3))"
    and first: "fst (get_task R C q (t_id t1) False (w_redis w3)) = Some t1" .
  let ?due = "w_mono w3 + d" and ?w4 = "sleep (min (q_interval q) d) w3"
  have "fst (get_task R C q (t_id t1) False (w_redis ?w4)) = Some ((answered f t1)\<lparr>t_save := True\<rparr>)"
    by (rule answer_after_sleep [OF C q fn served _ inv t1(4)]) simp
  note out = poll_answer [OF this t1(2,3), of sleep once ?due]
  have "remote_wait R C q sleep (t_id t1) once ?due w3 = remote_wait R C q sleep (t_id t1) once ?due ?w4"
    using first t1(2,3) d(2) by (subst remote_wait.simps) (simp add: Let_def)
  moreover have "execute_task_remotely R C q sleep timeout once (t, w) =
      map_option (with_task (t1\<lparr>t_save := False\<rparr>)) (remote_wait R C q sleep (t_id t1) once ?due w3)"
    using w(1) t(1) unfolding execute_task_remotely_def d(1) [symmetric] prod.case Let_def t1_def [symmetric]
    by (simp add: w(2) t1(1)) (simp add: t1_def)
  ultimately show ?thesis using out unfolding t1_def [symmetric] by (cases "f t1") auto
qed

text \<open>A query that goes to the queue: by the policy Remote, or by Auto when a listener has announced itself.\<close>

lemma query_served:
  assumes "codec_ok C" and "0 < q_timeout q" and "pure_fn f task_fn on_missing"
    and "serves R view C q task_fn on_missing names name sleep" and "name \<in> set names"
    and "queue_typed q names (view (w_redis w))" and "well_filed C q (view (w_redis w))"
    and "\<forall>n\<in>set names. ident \<notin> set (rlists (view (w_redis w)) (queue_key q n))"
    and d: "d = (case timeout of None \<Rightarrow> of_int (q_timeout q) | Some d \<Rightarrow> d)" "0 < d"
    and remote: "policy = Remote \<or> policy = Auto \<and> r_exists R (queue_listen_name q name) (w_redis w)"
  shows "\<exists>st. query R C q own_fn sleep ident name params timeout policy once w =
    Some (case f ((build_task q ident name params w)\<lparr>t_expiry := w_time w + d\<rparr>) of
            Inl e \<Rightarrow> Abort e st | Inr r \<Rightarrow> Done (Some r) st)"
proof -
  let ?t = "build_task q ident name params w"
  have t: "t_id ?t = ident" "t_name ?t = name" "t_result ?t = None" "t_error ?t = None" "t_save ?t"
    by (simp_all add: build_task_def)
  have fresh: "\<forall>n\<in>set names. t_id ?t \<notin> set (rlists (view (w_redis w)) (queue_key q n))"
    using assms(8) by (simp add: t(1))
  have "query R C q own_fn sleep ident name params timeout policy once w =
      execute_task_remotely R C q sleep timeout once (?t, w)"
    using remote by (auto simp: query_def Let_def)
  with remote_served [OF assms(1-7) fresh t(2-5) d, of once] show ?thesis by simp
qed

section \<open>From the worker to the poll\<close>

lemma executed_is_delivered:
  assumes "codec_ok C" and "0 < q_timeout q"
    and run: "task_fn (t\<lparr>t_expiry := (case timeout of None \<Rightarrow> t_expiry t | Some d \<Rightarrow> w_time w + d)\<rparr>, w) = out"
    and t1: "fst (final_state out) = t1" "t_save t1" "t_error t1 = None"
    and report: "case out of Done r _ \<Rightarrow> r \<noteq> None | Abort _ _ \<Rightarrow> True"
  shows "\<exists>t2 w2. execute_task_locally R C q task_fn timeout (t, w) =
      (case out of Done r _ \<Rightarrow> Done r (t2, w2) | Abort e _ \<Rightarrow> Abort e (t2, w2)) \<and>
    remote_wait R C q sleep (t_id t1) once due w2 =
      Some (case out of Done r _ \<Rightarrow> Done r (forget_if R q (t_id t1) once w2) | Abort e _ \<Rightarrow> Abort e (forget_if R q (t_id t1) once w2))"
proof (cases out)
  case (Done r st)
  obtain w1 where st: "st = (t1, w1)" using t1(1) Done by (cases st) simp
  from local_stores(1) [where task_fn = task_fn and t = t and timeout = timeout and w = w, OF assms(1,2) run [unfolded Done st] t1(2)] obtain t2 w2 where
    "execute_task_locally R C q task_fn timeout (t, w) = Done r (t2, w2)"
    and got: "fst (get_task R C q (t_id t1) False (w_redis w2)) = Some (t1\<lparr>t_result := r\<rparr>)" by blast
  moreover from Done report obtain x where x: "r = Some x" by auto
  moreover from remote_wait_stored(2) [OF got _ ] x t1(3) have
    "remote_wait R C q sleep (t_id t1) once due w2 = Some (Done r (forget_if R q (t_id t1) once w2))" by simp
  ultimately show ?thesis by (simp add: Done)
next
  case (Abort e st)
  obtain w1 where st: "st = (t1, w1)" using t1(1) Abort by (cases st) simp
  from local_stores(2) [where task_fn = task_fn and t = t and timeout = timeout and w = w, OF assms(1,2) run [unfolded Abort st] t1(2)] obtain t2 w2 where
    "execute_task_locally R C q task_fn timeout (t, w) = Abort e (t2, w2)"
    and got: "fst (get_task R C q (t_id t1) False (w_redis w2)) = Some (t1\<lparr>t_error := Some e\<rparr>)" by blast
  moreover from remote_wait_stored(1) [OF got] have
    "remote_wait R C q sleep (t_id t1) once due w2 = Some (Abort e (forget_if R q (t_id t1) once w2))" by simp
  ultimately show ?thesis by (simp add: Abort)
qed

end

end
