(* ===== verification/Queue_Properties.thy ===== *)
theory Queue_Properties
  imports Examples Listener_Proofs "HOL-Library.Countable"
begin

text \<open>
  The properties of the task queue. The pickled form of a task is a parameter of the model; here it is
  instantiated by a number, printed in decimals, that encodes every field of the task.
\<close>

section \<open>A concrete encoding of tasks\<close>

definition str_code :: "string \<Rightarrow> nat" where
  "str_code s = list_encode (map of_char s)"

definition code_str :: "nat \<Rightarrow> string" where
  "code_str n = map char_of (list_decode n)"

definition rat_code :: "rat \<Rightarrow> nat" where
  "rat_code x = (case quotient_of x of (a, b) \<Rightarrow> prod_encode (int_encode a, int_encode b))"

definition code_rat :: "nat \<Rightarrow> rat" where
  "code_rat n = (case prod_decode n of (a, b) \<Rightarrow> of_int (int_decode a) / of_int (int_decode b))"

fun option_code :: "('a \<Rightarrow> nat) \<Rightarrow> 'a option \<Rightarrow> nat" where
  "option_code f None = 0"
| "option_code f (Some x) = Suc (f x)"

fun code_option :: "(nat \<Rightarrow> 'a) \<Rightarrow> nat \<Rightarrow> 'a option" where
  "code_option f 0 = None"
| "code_option f (Suc n) = Some (f n)"

fun error_code :: "error \<Rightarrow> nat" where
  "error_code ValueError = prod_encode (0, 0)"
| "error_code KeyError = prod_encode (1, 0)"
| "error_code AssertionError = prod_encode (2, 0)"
| "error_code (LuaAssert m) = prod_encode (3, str_code m)"
| "error_code LuaBadArgument = prod_encode (4, 0)"
| "error_code (RedisError m) = prod_encode (5, str_code m)"
| "error_code RuntimeError = prod_encode (6, 0)"
| "error_code TimeoutError = prod_encode (7, 0)"
| "error_code AttributeError = prod_encode (8, 0)"
| "error_code (Raised m) = prod_encode (9, str_code m)"
| "error_code TypeError = prod_encode (10, 0)"
| "error_code OutOfFuel = prod_encode (11, 0)"

definition code_error :: "nat \<Rightarrow> error" where
  "code_error n = (case prod_decode n of (tag, m) \<Rightarrow>
     if tag = 0 then ValueError else if tag = 1 then KeyError else if tag = 2 then AssertionError
     else if tag = 3 then LuaAssert (code_str m) else if tag = 4 then LuaBadArgument
     else if tag = 5 then RedisError (code_str m) else if tag = 6 then RuntimeError else if tag = 7 then TimeoutError
     else if tag = 8 then AttributeError else if tag = 9 then Raised (code_str m)
     else if tag = 10 then TypeError else OutOfFuel)"

lemma code_inverse [simp]: "code_str (str_code s) = s" "code_rat (rat_code x) = x" "code_error (error_code e) = e"
  "(\<And>x. g (f x) = x) \<Longrightarrow> code_option g (option_code f z) = z"
proof -
  show str: "code_str (str_code s) = s" for s by (simp add: code_str_def str_code_def comp_def)
  show "code_rat (rat_code x) = x"
    using quotient_of_div [of x] by (cases "quotient_of x") (simp add: code_rat_def rat_code_def)
  show "code_error (error_code e) = e" by (cases e) (simp_all add: code_error_def str)
  show "(\<And>x. g (f x) = x) \<Longrightarrow> code_option g (option_code f z) = z" by (cases z) simp_all
qed

definition task_code :: "(int, int) task \<Rightarrow> nat" where
  "task_code t = list_encode [str_code (t_id t), str_code (t_name t), int_encode (t_params t), rat_code (t_expiry t),
     option_code int_encode (t_result t), option_code error_code (t_error t), rat_code (t_update_progress_time t),
     rat_code (t_current_progress t), rat_code (t_total_progress t), of_bool (t_save t)]"

definition code_task :: "nat \<Rightarrow> (int, int) task" where
  "code_task n = (let f = (\<lambda>i. list_decode n ! i) in
     \<lparr>t_id = code_str (f 0), t_name = code_str (f 1), t_params = int_decode (f 2), t_expiry = code_rat (f 3),
      t_result = code_option int_decode (f 4), t_error = code_option code_error (f 5), t_update_progress_time = code_rat (f 6),
      t_current_progress = code_rat (f 7), t_total_progress = code_rat (f 8), t_save = (f 9 \<noteq> 0)\<rparr>)"

definition pickle :: "(int, int) codec" where
  "pickle = \<lparr>dumps = (\<lambda>t. nat_string (task_code t)), loads = (\<lambda>s. code_task (the (read_digits 0 s)))\<rparr>"

lemma codec_pickle: "codec_ok pickle"
  by (simp add: codec_ok_def pickle_def read_digits_nat_string code_task_def task_code_def)

section \<open>A world without other processes\<close>

definition demo_queue :: queue_cfg where
  "demo_queue = \<lparr>q_prefix = ''p'', q_suffix = ''s'', q_timeout = 300, q_interval = 1\<rparr>"

definition demo_world :: "mem world" where
  "demo_world = \<lparr>w_redis = empty_store 0, w_time = 0, w_mono = 0\<rparr>"

definition pass_time :: "rat \<Rightarrow> mem world \<Rightarrow> mem world" where
  "pass_time d w = w\<lparr>w_redis := mem_elapse \<lfloor>1000 * max 0 d\<rfloor> (w_redis w), w_time := w_time w + max 0 d, w_mono := w_mono w + max 0 d\<rparr>"

lemma sleep_pass_time: "sleep_ok pass_time"
  by (simp add: sleep_ok_def pass_time_def)

section \<open>A listener in the background\<close>

text \<open>While a client sleeps, a listener drains the queue \<open>job\<close>, waits for its workers, and time passes.\<close>

definition double_fn :: "(int, int, mem) task_fn" where
  "double_fn st = Done (Some (2 * t_params (fst st))) st"


lemma pure_double: "pure_fn (\<lambda>t. Inr (2 * t_params t)) double_fn (\<lambda>w. w)"
  by (simp add: pure_fn_def double_fn_def)


lemma demo_typed:
  "queue_typed demo_queue [''job''] (mem_view (w_redis demo_world))"
  "well_filed pickle demo_queue (mem_view (w_redis demo_world))"
  "\<forall>n\<in>set [''job'']. ''id'' \<notin> set (rlists (mem_view (w_redis demo_world)) (queue_key demo_queue n))"
proof -
  have v: "m_str (w_redis demo_world) k = None" "m_hash (w_redis demo_world) k = []"
    "m_set (w_redis demo_world) k = []" "m_list (w_redis demo_world) k = []" for k
    by (simp_all add: demo_world_def empty_store_def m_str_def m_hash_def m_set_def m_list_def m_obj_def fun_eq_iff)
  show "queue_typed demo_queue [''job''] (mem_view (w_redis demo_world))"
    "well_filed pickle demo_queue (mem_view (w_redis demo_world))"
    "\<forall>n\<in>set [''job'']. ''id'' \<notin> set (rlists (mem_view (w_redis demo_world)) (queue_key demo_queue n))"
    by (simp_all add: queue_typed_def well_filed_def str_key_def list_key_def v)
qed

section \<open>The properties\<close>



text \<open>
  C31: a listener gets through its queues and stops. Its workers may run submitted tasks at any time and in any order,
  but the task function has no side effects, and nobody pushes to the queues meanwhile: then the inner loop ends, and
  once the submitted tasks have run, every queue is empty and nothing is pending; and \<open>listen\<close> returns after
  any number of rounds, if what happens during its sleeps leaves the kinds of keys alone.
\<close>

theorem listener_empties_queues:
  assumes "redis_server R view" and "pure_fn f task_fn on_missing" and "0 < q_timeout q"
    and "works R C q task_fn on_missing work" and "queue_typed q names (view (w_redis w))"
    and "\<And>w. queue_typed q names (view (w_redis w)) \<Longrightarrow> queue_typed q names (view (w_redis (sleep (q_interval q) w)))"
  shows "(\<exists>st w'. drain R C q work (map (queue_key q) names) ([], w) = Some st \<and>
      finish R C q task_fn on_missing st = ([], w') \<and> (\<forall>n\<in>set names. rlists (view (w_redis w')) (queue_key q n) = [])) \<and>
    (\<exists>w'. listen R C q task_fn on_missing work sleep names n ([], w) = Some (Done () ([], w')))"
proof (rule conjI)
  have "all_saved []" by (simp add: all_saved_def)
  from redis_server.listen_returns [where C = C and sleep = sleep, OF assms(1-4,6,5) this]
  show "\<exists>w'. listen R C q task_fn on_missing work sleep names n ([], w) = Some (Done () ([], w'))" .
  from redis_server.drain_then_finish [OF assms(1-5)]
  show "\<exists>st w'. drain R C q work (map (queue_key q) names) ([], w) = Some st \<and>
      finish R C q task_fn on_missing st = ([], w') \<and> (\<forall>n\<in>set names. rlists (view (w_redis w')) (queue_key q n) = [])" by blast
qed

theorem listener_empties_queues_witness:
  "\<exists>w'. listen mem_redis pickle demo_queue double_fn (\<lambda>w. w) (\<lambda>st. st) (\<lambda>d w. w) [''job''] 3 ([], demo_world) =
     Some (Done () ([], w'))"
proof -
  have q: "0 < q_timeout demo_queue" by (simp add: demo_queue_def)
  have work: "works mem_redis pickle demo_queue double_fn (\<lambda>w. w) (\<lambda>st. st)" by (simp add: works_def)
  show ?thesis
    using listener_empties_queues [where sleep = "\<lambda>d w. w", OF mem_server pure_double q work demo_typed(1)] by blast
qed

text \<open>
  C32: waiting ends. If every sleep moves the monotonic clock by at least what was asked for and the polling
  interval is positive, the polling loop returns after finitely many polls; and it raises TimeoutError
  only when the deadline has passed or the task itself has stored that error.
\<close>

theorem remote_wait_terminates:
  assumes "sleep_ok sleep" and "0 < q_interval q"
  shows "\<exists>out. remote_wait R C q sleep tid once due w = Some out \<and>
    (\<forall>w'. out = Abort TimeoutError w' \<longrightarrow> due \<le> w_mono w' \<or> timeout_reported R C q tid once w')"
  by (rule remote_wait_ends [OF assms])

theorem remote_wait_terminates_witness:
  "\<exists>out. remote_wait mem_redis pickle demo_queue pass_time ''id'' False 9 demo_world = Some out"
  using remote_wait_terminates [OF sleep_pass_time, of demo_queue mem_redis pickle "''id''" False 9 demo_world]
  by (auto simp: demo_queue_def)





text \<open>
  C34: the policy LocalFirst never gets a remote result. The failed local run leaves its error in the task
  that is then submitted, so the first poll of the remote attempt raises the local error again.
\<close>

theorem local_first_never_remote:
  assumes "redis_server R view" and "codec_ok C" and "0 < q_timeout q"
    and "task_fn (case timeout of None \<Rightarrow> build_task q ident name params w
        | Some d \<Rightarrow> (build_task q ident name params w)\<lparr>t_expiry := w_time w + d\<rparr>, w) = Abort e (t1, w1)"
    and "list_key (view (w_redis w1)) (queue_key q (t_name t1))"
  shows "\<exists>st. query R C q task_fn sleep ident name params timeout LocalFirst once w = Some (Abort e st)"
  by (rule redis_server.local_first_fails [where task_fn = task_fn and params = params and timeout = timeout and w = w and name = name and ident = ident, OF assms])

theorem local_first_never_remote_witness:
  "\<exists>st. query mem_redis pickle demo_queue (Abort ValueError) pass_time ''id'' ''job'' 3 None LocalFirst False demo_world =
     Some (Abort ValueError st)"
proof -
  let ?t = "build_task demo_queue ''id'' ''job'' 3 demo_world :: (int, int) task"
  have q: "0 < q_timeout demo_queue" by (simp add: demo_queue_def)
  have f: "Abort ValueError (case None of None \<Rightarrow> ?t | Some d \<Rightarrow> ?t\<lparr>t_expiry := w_time demo_world + d\<rparr>, demo_world) =
    Abort ValueError (?t, demo_world)" by simp
  have l: "list_key (mem_view (w_redis demo_world)) (queue_key demo_queue (t_name ?t))"
    by (simp add: list_key_def demo_world_def empty_store_def m_str_def m_hash_def m_set_def m_obj_def fun_eq_iff)
  show ?thesis
    by (rule local_first_never_remote [where task_fn = "Abort ValueError" and params = 3 and timeout = None and w = demo_world
        and name = "''job''" and ident = "''id''", OF mem_server codec_pickle q f l])
qed

end
