(* ===== verification/Health_Proofs.thy ===== *)
theory Health_Proofs
  imports Policy_Proofs
begin

text \<open>
  The health check marks keys by their locks. For a class whose methods leave the server alone the effect
  of one check is one lock operation on its key, so the checks of a pool can run in any order: the locks
  and the counts at the end do not depend on the schedule. A key marked unhealthy is not handed out.
\<close>

section \<open>Classes with a verdict\<close>

text \<open>\<open>judge\<close> is what \<open>is_healthy\<close> returns or raises; opening, closing and configuring do nothing.\<close>

definition judged :: "('o, 's) methods \<Rightarrow> ('o \<Rightarrow> error + bool) \<Rightarrow> bool" where
  "judged M judge \<longleftrightarrow>
     (\<forall>x s. m_open M x s = Done () s \<and> m_close M x s = Done () s \<and> (\<forall>k. m_set_config M x k s = Done () s) \<and>
        m_is_healthy M x s = (case judge x of Inl e \<Rightarrow> Abort e s | Inr b \<Rightarrow> Done b s))"

definition verdict :: "('o \<Rightarrow> error + bool) \<Rightarrow> 'o option \<Rightarrow> error + bool" where
  "verdict judge obj = (case obj of None \<Rightarrow> Inr True | Some x \<Rightarrow> judge x)"

lemma judged_obj:
  assumes "judged M judge"
  shows "obj_open M ao s = Done () s" "obj_close M ao s = Done () s" "new_object M k obj s = Done \<lparr>ao_key = k, ao_obj = obj, ao_released = False\<rparr> s"
    "obj_is_healthy M ao s = (case verdict judge (ao_obj ao) of Inl e \<Rightarrow> Abort e s | Inr b \<Rightarrow> Done b s)"
  using assms
  by (simp_all add: judged_def obj_open_def obj_close_def new_object_def obj_is_healthy_def verdict_def Let_def split: option.split)

lemma judged_objects:
  "judged M judge \<Longrightarrow> make_objects M obj_fn ks s =
     Done (map (\<lambda>k. \<lparr>ao_key = k, ao_obj = obj_fn k, ao_released = False\<rparr>) ks) s"
  by (induction ks arbitrary: s) (simp_all add: judged_obj(3))

section \<open>One check\<close>

definition unname :: "('o, 's) methods \<Rightarrow> 'a lock_cfg_scheme \<Rightarrow> 'o option \<Rightarrow> apool \<Rightarrow> apool" where
  "unname M A obj p = (case Option.bind obj (m_name M) of None \<Rightarrow> p | Some n \<Rightarrow> drop_lock (py_soft_bind_name A n) p)"

definition mark :: "('o, 's) methods \<Rightarrow> 'a config_scheme \<Rightarrow> ('o \<Rightarrow> error + bool) \<Rightarrow> int \<Rightarrow> string \<Rightarrow> 'o option \<Rightarrow> apool \<Rightarrow> apool" where
  "mark M A judge d k obj p =
     (if verdict judge obj = Inr True then (if shared A then drop_lock k p else p)
      else set_lock k (''1'', Some (anow p + 1000 * d)) (unname M A obj p))"

lemma unname_sel [simp]: "free (unname M A obj p) = free p" "members (unname M A obj p) = members p"
  "abind (unname M A obj p) = abind p" "anow (unname M A obj p) = anow p"
  by (simp_all add: unname_def split: option.split)

lemma mark_sel [simp]: "free (mark M A judge d k obj p) = free p" "members (mark M A judge d k obj p) = members p"
  "abind (mark M A judge d k obj p) = abind p" "anow (mark M A judge d k obj p) = anow p"
  by (simp_all add: mark_def)

lemma mark_lock:
  assumes "\<forall>n. Option.bind obj (m_name M) = Some n \<longrightarrow> py_soft_bind_name A n \<noteq> j"
  shows "alock (mark M A judge d k obj p) j =
    (if j \<noteq> k then alock p j
     else if verdict judge obj = Inr True then (if shared A then None else alock p k)
     else Some (''1'', Some (anow p + 1000 * d)))"
  using assms by (auto simp: mark_def unname_def split: option.split)

context redis_server
begin

lemma set_unhealthy_effect:
  assumes rep: "rep A (view s) p" and "0 < d"
  shows "\<exists>s'. set_unhealthy M R A (Some d) ao s = Done () s' \<and>
    rep A (view s') (set_lock (ao_key ao) (''1'', Some (anow p + 1000 * d)) (unname M A (ao_obj ao) p))"
proof -
  have mark: "\<exists>s'. lock_update R A (ao_key ao) ''1'' (Some d) s1 = Done () s' \<and>
      rep A (view s') (set_lock (ao_key ao) (''1'', Some (anow q + 1000 * d)) q)" if q: "rep A (view s1) q" for s1 q
  proof -
    have "ex_ok (Some d)" using assms(2) by simp
    from update_effect [OF this] obtain s' where
      "lock_update R A (ao_key ao) ''1'' (Some d) s1 = Done () s'"
      "view s' = put_lock A (ao_key ao) ''1'' (Some d) (view s1)" by blast
    with rep_put(1) [OF q, of "ao_key ao" "''1''" "Some d"] rep_now [OF q] show ?thesis
      by (auto simp: put_lock_def deadline_def)
  qed
  show ?thesis
  proof (cases "obj_name M ao")
    case None
    with mark [OF rep] show ?thesis by (simp add: set_unhealthy_def unname_def obj_name_def)
  next
    case (Some n)
    from unlock_effect [OF rep_lock_ok [OF rep], of "py_soft_bind_name A n"] obtain s1 where
      s1: "unlock R A (py_soft_bind_name A n) s = Done (holder A (view s) (py_soft_bind_name A n) \<noteq> None) s1"
        "view s1 = erase (key_str A (py_soft_bind_name A n)) (view s)" by blast
    then have "rep A (view s1) (unname M A (ao_obj ao) p)"
      using rep_put(4) [OF rep] Some by (simp add: unname_def obj_name_def)
    from mark [OF this] s1(1) Some show ?thesis
      by (simp add: set_unhealthy_def unbind_soft_bind_def)
  qed
qed

lemma check_once_effect:
  assumes M: "judged M judge" and rep: "rep A (view s) p" and "0 < d"
  shows "\<exists>s'. check_health_once M R A (Some d) ao s =
      (case verdict judge (ao_obj ao) of Inl e \<Rightarrow> Abort e s' | Inr b \<Rightarrow> Done b s') \<and>
    rep A (view s') (mark M A judge d (ao_key ao) (ao_obj ao) p)"
proof -
  note obj = judged_obj [OF M]
  from set_unhealthy_effect [OF rep assms(3), of M ao] obtain s1 where
    bad: "set_unhealthy M R A (Some d) ao s = Done () s1"
      "rep A (view s1) (set_lock (ao_key ao) (''1'', Some (anow p + 1000 * d)) (unname M A (ao_obj ao) p))" by blast
  from unlock_effect [OF rep_lock_ok [OF rep], of "ao_key ao"] obtain s2 where
    ok: "unlock R A (ao_key ao) s = Done (holder A (view s) (ao_key ao) \<noteq> None) s2"
      "view s2 = erase (key_str A (ao_key ao)) (view s)" by blast
  then have ok': "rep A (view s2) (drop_lock (ao_key ao) p)" using rep_put(4) [OF rep] by simp
  show ?thesis
  proof (cases "verdict judge (ao_obj ao)")
    case (Inl e)
    with bad show ?thesis by (simp add: check_health_once_def obj mark_def Let_def)
  next
    case (Inr b)
    with bad ok(1) ok' rep show ?thesis
      by (cases b) (auto simp: check_health_once_def obj mark_def Let_def)
  qed
qed

end

section \<open>All checks, in any order\<close>

lemma mark_lock_at:
  assumes ks: "distinct ks"
    and names: "\<forall>j\<in>set ks. \<forall>k\<in>set ks. \<forall>n. Option.bind (obj_fn k) (m_name M) = Some n \<longrightarrow> py_soft_bind_name A n \<noteq> j"
    and i: "i < length ks" and j: "j < length ks"
  shows "alock (mark M A judge d (ks ! i) (obj_fn (ks ! i)) p) (ks ! j) =
    (if j \<noteq> i then alock p (ks ! j)
     else if verdict judge (obj_fn (ks ! i)) = Inr True then (if shared A then None else alock p (ks ! i))
     else Some (''1'', Some (anow p + 1000 * d)))"
proof -
  have "ks ! j = ks ! i \<longleftrightarrow> j = i" using ks i j by (simp add: nth_eq_iff_index_eq)
  moreover have "\<forall>n. Option.bind (obj_fn (ks ! i)) (m_name M) = Some n \<longrightarrow> py_soft_bind_name A n \<noteq> ks ! j"
    using names nth_mem [OF j] nth_mem [OF i] by blast
  ultimately show ?thesis by (simp add: mark_lock)
qed

context redis_server
begin

text \<open>The objects of the keys, whose names lead to no lock of a member.\<close>

lemma run_checks_effect:
  assumes M: "judged M judge" and rep: "rep A (view s) p" and d: "0 < d"
    and inputs: "inputs = map (\<lambda>k. \<lparr>ao_key = k, ao_obj = obj_fn k, ao_released = False\<rparr>) ks" and ks: "distinct ks"
    and names: "\<forall>j\<in>set ks. \<forall>k\<in>set ks. \<forall>n. Option.bind (obj_fn k) (m_name M) = Some n \<longrightarrow> py_soft_bind_name A n \<noteq> j"
    and sched: "distinct sched" "\<forall>i\<in>set sched. i < length ks"
  shows "\<exists>rs s' q. run_checks M R A (Some d) inputs sched s = (rs, s') \<and> rep A (view s') q \<and>
    (\<forall>i. rs i = (if i \<in> set sched then Some (verdict judge (obj_fn (ks ! i))) else None)) \<and>
    free q = free p \<and> members q = members p \<and> anow q = anow p \<and>
    (\<forall>j<length ks. alock q (ks ! j) =
       (if j \<notin> set sched then alock p (ks ! j)
        else if verdict judge (obj_fn (ks ! j)) = Inr True then (if shared A then None else alock p (ks ! j))
        else Some (''1'', Some (anow p + 1000 * d))))"
  using rep sched
proof (induction sched arbitrary: s p)
  case Nil
  then show ?case by auto
next
  case (Cons i sched)
  let ?k = "ks ! i"
  let ?p1 = "mark M A judge d ?k (obj_fn ?k) p"
  from Cons.prems have i: "i < length ks" "i \<notin> set sched" by simp_all
  then have input: "inputs ! i = \<lparr>ao_key = ?k, ao_obj = obj_fn ?k, ao_released = False\<rparr>" "i < length inputs"
    by (simp_all add: inputs)
  from check_once_effect [OF M Cons.prems(1) d, of "inputs ! i"] obtain s1 where
    s1: "check_health_once M R A (Some d) (inputs ! i) s =
        (case verdict judge (obj_fn ?k) of Inl e \<Rightarrow> Abort e s1 | Inr b \<Rightarrow> Done b s1)" "rep A (view s1) ?p1"
    by (auto simp: input)
  from Cons.prems have "distinct sched" "\<forall>i\<in>set sched. i < length ks" by simp_all
  from Cons.IH [OF s1(2) this] obtain rs s' q where
    IH: "run_checks M R A (Some d) inputs sched s1 = (rs, s')" "rep A (view s') q"
      "\<forall>j. rs j = (if j \<in> set sched then Some (verdict judge (obj_fn (ks ! j))) else None)"
      "free q = free p" "members q = members p" "anow q = anow p"
    and locks: "\<forall>j<length ks. alock q (ks ! j) =
       (if j \<notin> set sched then alock ?p1 (ks ! j)
        else if verdict judge (obj_fn (ks ! j)) = Inr True then (if shared A then None else alock ?p1 (ks ! j))
        else Some (''1'', Some (anow p + 1000 * d)))" by auto
  have run: "run_checks M R A (Some d) inputs (i # sched) s = (rs(i \<mapsto> verdict judge (obj_fn ?k)), s')"
    using input s1(1) IH(1) by (cases "verdict judge (obj_fn ?k)") simp_all
  have here: "alock ?p1 (ks ! j) =
      (if j \<noteq> i then alock p (ks ! j)
       else if verdict judge (obj_fn ?k) = Inr True then (if shared A then None else alock p ?k)
       else Some (''1'', Some (anow p + 1000 * d)))" if "j < length ks" for j
    by (rule mark_lock_at [OF ks names i(1) that])
  have "\<forall>j. (rs(i \<mapsto> verdict judge (obj_fn ?k))) j = (if j \<in> set (i # sched) then Some (verdict judge (obj_fn (ks ! j))) else None)"
    using IH(3) by simp
  moreover have "\<forall>j<length ks. alock q (ks ! j) =
       (if j \<notin> set (i # sched) then alock p (ks ! j)
        else if verdict judge (obj_fn (ks ! j)) = Inr True then (if shared A then None else alock p (ks ! j))
        else Some (''1'', Some (anow p + 1000 * d)))"
    using locks here i(2) by auto
  ultimately show ?case using run IH(2,4-6) by blast
qed

end

text \<open>The results in the order of the keys: the first exception, or all the answers.\<close>

fun all_results :: "(error + bool) list \<Rightarrow> error + bool list" where
  "all_results [] = Inr []"
| "all_results (Inl e # vs) = Inl e"
| "all_results (Inr b # vs) = (case all_results vs of Inl e \<Rightarrow> Inl e | Inr bs \<Rightarrow> Inr (b # bs))"

lemma await_all: "await_results rs arrives is =
    all_results (map (\<lambda>i. case (if arrives i then rs i else None) of None \<Rightarrow> Inl TimeoutError | Some v \<Rightarrow> v) is)"
proof (induction "is")
  case (Cons i "is")
  then show ?case by (cases "if arrives i then rs i else None") (auto split: sum.split)
qed simp

text \<open>What the caller finds at the place of the \<open>i\<close>-th key: a check that was cancelled, or whose result is late, times out.\<close>

definition awaited :: "('o \<Rightarrow> error + bool) \<Rightarrow> (string \<Rightarrow> 'o option) \<Rightarrow> string list \<Rightarrow> nat list \<Rightarrow> (nat \<Rightarrow> bool) \<Rightarrow> nat \<Rightarrow> error + bool" where
  "awaited judge obj_fn ks sched arrives i =
     (if arrives i \<and> i \<in> set sched then verdict judge (obj_fn (ks ! i)) else Inl TimeoutError)"

lemma count_other: "length bs - length (filter (\<lambda>b. b) bs) = length (filter (\<lambda>b. \<not> b) bs)"
  by (induction bs) (auto simp: Suc_diff_le length_filter_le)

context redis_server
begin

lemma check_health_effect:
  assumes M: "judged M judge" and rep: "rep A (view s) p" and "0 < max_threads" and ks: "ks = pool_keys R A s"
    and names: "\<forall>j\<in>set ks. \<forall>k\<in>set ks. \<forall>n. Option.bind (obj_fn k) (m_name M) = Some n \<longrightarrow> py_soft_bind_name A n \<noteq> j"
    and sched: "distinct sched" "set sched \<subseteq> {..<length ks}"
  shows "\<exists>s' q. check_health M R A max_threads obj_fn sched arrives s =
      (case all_results (map (awaited judge obj_fn ks sched arrives) [0..<length ks]) of
         Inl e \<Rightarrow> Abort e s'
       | Inr bs \<Rightarrow> Done (length (filter (\<lambda>b. b) bs), length (filter (\<lambda>b. \<not> b) bs)) s') \<and>
    rep A (view s') q \<and> free q = free p \<and> members q = members p \<and> anow q = anow p \<and>
    (\<forall>i<length ks. alock q (ks ! i) =
       (if i \<notin> set sched then alock p (ks ! i)
        else if verdict judge (obj_fn (ks ! i)) = Inr True then (if shared A then None else alock p (ks ! i))
        else Some (''1'', Some (anow p + 3600 * 1000))))"
proof -
  let ?inputs = "map (\<lambda>k. \<lparr>ao_key = k, ao_obj = obj_fn k, ao_released = False\<rparr>) ks"
  have dist: "distinct ks" by (simp add: ks pool_keys_def hkeys_distinct)
  have dur: "(0 :: int) < 3600" by simp
  have idx: "\<forall>i\<in>set sched. i < length ks" using sched(2) by auto
  from run_checks_effect [OF M rep dur refl dist names sched(1) idx] obtain rs s' q where
    run: "run_checks M R A (Some 3600) ?inputs sched s = (rs, s')" "rep A (view s') q"
      "\<forall>i. rs i = (if i \<in> set sched then Some (verdict judge (obj_fn (ks ! i))) else None)"
      "free q = free p" "members q = members p" "anow q = anow p"
    and locks: "\<forall>j<length ks. alock q (ks ! j) =
       (if j \<notin> set sched then alock p (ks ! j)
        else if verdict judge (obj_fn (ks ! j)) = Inr True then (if shared A then None else alock p (ks ! j))
        else Some (''1'', Some (anow p + 1000 * 3600)))" by blast
  have "(\<lambda>i. case (if arrives i then rs i else None) of None \<Rightarrow> Inl TimeoutError | Some v \<Rightarrow> v) = awaited judge obj_fn ks sched arrives"
    using run(3) by (simp add: awaited_def fun_eq_iff)
  then have "await_results rs arrives [0..<length ks] = all_results (map (awaited judge obj_fn ks sched arrives) [0..<length ks])"
    by (simp add: await_all)
  then have "check_health M R A max_threads obj_fn sched arrives s =
      (case all_results (map (awaited judge obj_fn ks sched arrives) [0..<length ks]) of
         Inl e \<Rightarrow> Abort e s'
       | Inr bs \<Rightarrow> Done (length (filter (\<lambda>b. b) bs), length (filter (\<lambda>b. \<not> b) bs)) s')"
    using assms(3) run(1)
    by (simp add: check_health_def ks [symmetric] judged_objects [OF M] Let_def count_other split: sum.split)
  moreover have "\<forall>i<length ks. alock q (ks ! i) =
       (if i \<notin> set sched then alock p (ks ! i)
        else if verdict judge (obj_fn (ks ! i)) = Inr True then (if shared A then None else alock p (ks ! i))
        else Some (''1'', Some (anow p + 3600 * 1000)))" using locks by simp
  ultimately show ?thesis using run(2,4-6) by blast
qed

text \<open>A key marked unhealthy, free or not, is not handed out while the mark lasts.\<close>

lemma unhealthy_not_allocated:
  assumes "good view A s" and "0 < d" and "set_unhealthy M R A (Some d) ao s = Done () s1"
    and "calm_trace R view A far pairs (ao_key ao) s1 es s2" and "table_order pairs"
    and "now_ms (view s2) < now_ms (view s) + 1000 * d"
  shows "Allocated (Some (ao_key ao)) \<notin> set es \<and> good view A s2 \<and> holder A (view s2) (ao_key ao) = Some ''1''"
proof -
  from assms(1) obtain p where p: "rep A (view s) p" by (auto simp: good_def)
  from set_unhealthy_effect [OF p assms(2), of M ao] assms(3) have
    q: "rep A (view s1) (set_lock (ao_key ao) (''1'', Some (anow p + 1000 * d)) (unname M A (ao_obj ao) p))" by auto
  have lock: "alock (set_lock (ao_key ao) (''1'', Some (anow p + 1000 * d)) (unname M A (ao_obj ao) p)) (ao_key ao) =
      Some (''1'', Some (anow p + 1000 * d))" by simp
  have "in_time (view s2) (Some (anow p + 1000 * d))" using assms(6) rep_now [OF p] by (simp add: in_time_def)
  from trace_lock_survives [OF assms(4) q assms(5) lock this] show ?thesis
    by (auto simp: good_def holder_def rep_lock)
qed

end

end
