(* ===== verification/Policy_Turns.thy ===== *)
theory Policy_Turns
  imports Policy_Proofs Allocator_Facts
begin

text \<open>
  A call of \<open>DefaultRedisAllocatorPolicy.malloc\<close> is not one step: it runs up to four scripts on the server,
  and other processes run theirs in between. Here the call is cut into its turns, each with one script at
  most; run one after another they are \<open>policy_malloc\<close>. A crowd is any number of processes, each with its
  own policy, whose turns alternate in any order with each other and with any other operation on the pool.
\<close>

section \<open>The turns of one call\<close>

text \<open>The arguments of a call, with what its environment does for it.\<close>

record ('q, 'o) mcall =
  mc_chooser :: "'q chooser"
  mc_cached :: bool
  mc_timeout :: timeout
  mc_obj :: "'o option"
  mc_cache_timeout :: timeout

text \<open>Where a call is; the key that was allocated is kept until it is wrapped.\<close>

datatype 'o stage =
    Entering
  | Refreshing
  | Collecting
  | Allocating
  | Wrapping string
  | Returned "'o aobject option"
  | Failed error

definition policy_turn :: "('o, 's) methods \<Rightarrow> 's redis \<Rightarrow> 'a config_scheme \<Rightarrow> policy_cfg \<Rightarrow> ('q, 'o) mcall \<Rightarrow>
    'o stage \<times> ('q, 'o) policy_state \<times> 's \<Rightarrow> 'o stage \<times> ('q, 'o) policy_state \<times> 's" where
  "policy_turn M R A P mc st =
     (case st of (stage, ps, s) \<Rightarrow>
        case stage of
          Entering \<Rightarrow>
            if mc_cached mc \<or> ps_updater ps = None then (Collecting, ps, s)
            else
              (case lock R A (update_lock_key A) ''1'' (Some (update_interval P)) s of
                 Abort e s1 \<Rightarrow> (Failed e, ps, s1)
               | Done acquired s1 \<Rightarrow> (if acquired then Refreshing else Collecting, ps, s1))
        | Refreshing \<Rightarrow>
            (case refresh_pool R A P (mc_chooser mc) True 1 (ps, s) of
               Abort e (ps1, s1) \<Rightarrow> (Failed e, ps1, s1)
             | Done _ (ps1, s1) \<Rightarrow> (Collecting, ps1, s1))
        | Collecting \<Rightarrow>
            (case gc R A (gc_count P) s of Abort e s1 \<Rightarrow> (Failed e, ps, s1) | Done _ s1 \<Rightarrow> (Allocating, ps, s1))
        | Allocating \<Rightarrow>
            (case malloc_key R A (c_far (mc_chooser mc)) (mc_timeout mc) (Option.bind (mc_obj mc) (m_name M)) (mc_cache_timeout mc) s of
               Abort e s1 \<Rightarrow> (Failed e, ps, s1)
             | Done None s1 \<Rightarrow> (Returned None, ps, s1)
             | Done (Some key) s1 \<Rightarrow> (Wrapping key, ps, s1))
        | Wrapping key \<Rightarrow>
            (case new_object M key (mc_obj mc) s of
               Abort e s1 \<Rightarrow> (Failed e, ps, s1)
             | Done ao s1 \<Rightarrow>
                 (let uid = obj_unique_id M ao; objects = live_objects (c_alive (mc_chooser mc)) ps in
                  case (if auto_close P
                        then (case map_of objects uid of None \<Rightarrow> Done () s1 | Some old \<Rightarrow> obj_close M old s1)
                        else Done () s1) of
                    Abort e s2 \<Rightarrow> (Failed e, ps, s2)
                  | Done _ s2 \<Rightarrow> (Returned (Some ao), ps\<lparr>ps_objects := AList.update uid ao objects\<rparr>, s2)))
        | Returned r \<Rightarrow> st
        | Failed e \<Rightarrow> st)"

text \<open>The answer of a call that has come to its end.\<close>

fun call_outcome :: "'o stage \<times> ('q, 'o) policy_state \<times> 's \<Rightarrow>
    ('o aobject option, ('q, 'o) policy_state \<times> 's) outcome option" where
  "call_outcome (Returned r, st) = Some (Done r st)"
| "call_outcome (Failed e, st) = Some (Abort e st)"
| "call_outcome _ = None"

fun turns_left :: "'o stage \<Rightarrow> nat" where
  "turns_left Entering = 5"
| "turns_left Refreshing = 4"
| "turns_left Collecting = 3"
| "turns_left Allocating = 2"
| "turns_left (Wrapping k) = 1"
| "turns_left (Returned r) = 0"
| "turns_left (Failed e) = 0"

lemma turns_left_0: "turns_left g = 0 \<longleftrightarrow> (\<exists>r. g = Returned r) \<or> (\<exists>e. g = Failed e)"
  by (cases g) auto

text \<open>Every turn of its own brings a call nearer to its end; one that has ended stays as it is.\<close>

lemma turn_decreases: "0 < turns_left g \<Longrightarrow> turns_left (fst (policy_turn M R A P mc (g, ps, s))) < turns_left g"
  by (cases g) (auto simp: policy_turn_def Let_def split: outcome.split option.split prod.split)

text \<open>A call that runs alone for at most \<open>n\<close> turns.\<close>

fun call_alone :: "('o, 's) methods \<Rightarrow> 's redis \<Rightarrow> 'a config_scheme \<Rightarrow> policy_cfg \<Rightarrow> ('q, 'o) mcall \<Rightarrow> nat \<Rightarrow>
    'o stage \<times> ('q, 'o) policy_state \<times> 's \<Rightarrow> ('o aobject option, ('q, 'o) policy_state \<times> 's) outcome option" where
  "call_alone M R A P mc 0 st = call_outcome st"
| "call_alone M R A P mc (Suc n) st = call_alone M R A P mc n (policy_turn M R A P mc st)"

lemma call_alone_ended [simp]:
  "call_alone M R A P mc n (Returned r, st) = Some (Done r st)" "call_alone M R A P mc n (Failed e, st) = Some (Abort e st)"
  by (induction n) (simp_all add: policy_turn_def split: prod.split)

text \<open>What is left of a call from one turn on, when \<open>n\<close> turns or more remain.\<close>

lemma alone_wrapping:
  "call_alone M R A P mc (Suc n) (Wrapping key, ps, s) =
     Some (case new_object M key (mc_obj mc) s of
       Abort e s2 \<Rightarrow> Abort e (ps, s2)
     | Done ao s2 \<Rightarrow>
         (let uid = obj_unique_id M ao; objects = live_objects (c_alive (mc_chooser mc)) ps in
          case (if auto_close P
                then (case map_of objects uid of None \<Rightarrow> Done () s2 | Some old \<Rightarrow> obj_close M old s2)
                else Done () s2) of
            Abort e s3 \<Rightarrow> Abort e (ps, s3)
          | Done _ s3 \<Rightarrow> Done (Some ao) (ps\<lparr>ps_objects := AList.update uid ao objects\<rparr>, s3)))"
  by (simp add: policy_turn_def Let_def split: outcome.split)

lemma alone_collecting:
  "call_alone M R A P mc (Suc (Suc (Suc n))) (Collecting, ps, s) =
     Some (case then_do (gc R A (gc_count P) s)
         (\<lambda>_. malloc_key R A (c_far (mc_chooser mc)) (mc_timeout mc) (Option.bind (mc_obj mc) (m_name M)) (mc_cache_timeout mc)) of
       Abort e s1 \<Rightarrow> Abort e (ps, s1)
     | Done None s1 \<Rightarrow> Done None (ps, s1)
     | Done (Some key) s1 \<Rightarrow> the (call_alone M R A P mc (Suc 0) (Wrapping key, ps, s1)))"
proof -
  have g: "call_alone M R A P mc (Suc m) (Collecting, ps, s) =
      (case gc R A (gc_count P) s of Abort e s1 \<Rightarrow> Some (Abort e (ps, s1)) | Done _ s1 \<Rightarrow> call_alone M R A P mc m (Allocating, ps, s1))" for m
    by (simp add: policy_turn_def split: outcome.split)
  have a: "call_alone M R A P mc (Suc m) (Allocating, ps, s1) =
      (case malloc_key R A (c_far (mc_chooser mc)) (mc_timeout mc) (Option.bind (mc_obj mc) (m_name M)) (mc_cache_timeout mc) s1 of
         Abort e s2 \<Rightarrow> Some (Abort e (ps, s2))
       | Done None s2 \<Rightarrow> Some (Done None (ps, s2))
       | Done (Some key) s2 \<Rightarrow> call_alone M R A P mc m (Wrapping key, ps, s2))" for m s1
    by (simp add: policy_turn_def split: outcome.split option.split)
  define wrapped where "wrapped key s1 = the (call_alone M R A P mc (Suc 0) (Wrapping key, ps, s1))" for key s1
  have w: "call_alone M R A P mc (Suc m) (Wrapping key, ps, s1) = Some (wrapped key s1)" for m key s1
    by (simp only: alone_wrapping option.sel wrapped_def)
  show ?thesis
  proof (cases "gc R A (gc_count P) s")
    case (Done u s1)
    then show ?thesis
      unfolding g a w wrapped_def [symmetric]
      by (cases "malloc_key R A (c_far (mc_chooser mc)) (mc_timeout mc) (Option.bind (mc_obj mc) (m_name M)) (mc_cache_timeout mc) s1")
        (simp_all split: option.split)
  qed (simp add: g del: call_alone.simps)
qed

text \<open>The call as one step is the call run turn by turn with nobody in between.\<close>

lemma alone_is_policy_malloc:
  "call_alone M R A P mc 5 (Entering, ps, s) =
     Some (policy_malloc M R A P (mc_chooser mc) (mc_cached mc) (mc_timeout mc) (mc_obj mc) (mc_cache_timeout mc) (ps, s))"
proof -
  let ?pm = "\<lambda>ps s. case then_do (gc R A (gc_count P) s)
       (\<lambda>_. malloc_key R A (c_far (mc_chooser mc)) (mc_timeout mc) (Option.bind (mc_obj mc) (m_name M)) (mc_cache_timeout mc)) of
       Abort e s1 \<Rightarrow> Abort e (ps, s1)
     | Done None s1 \<Rightarrow> Done None (ps, s1)
     | Done (Some key) s1 \<Rightarrow> the (call_alone M R A P mc (Suc 0) (Wrapping key, ps, s1))"
  have "call_alone M R A P mc (Suc (Suc (Suc (Suc (Suc 0))))) (Entering, ps, s) =
      Some (then_do (try_refresh_pool R A P (mc_chooser mc) (mc_cached mc) (ps, s)) (\<lambda>_ (ps, s). ?pm ps s))"
    (is "?l = _")
  proof -
    have l: "?l = call_alone M R A P mc (Suc (Suc (Suc (Suc 0)))) (policy_turn M R A P mc (Entering, ps, s))"
      by (rule call_alone.simps)
    have c: "call_alone M R A P mc (Suc (Suc (Suc m))) (Collecting, ps, s) = Some (?pm ps s)" for m ps s
      by (rule alone_collecting)
    have r: "call_alone M R A P mc (Suc m) (Refreshing, ps, s1) =
        (case refresh_pool R A P (mc_chooser mc) True 1 (ps, s1) of
           Abort e st \<Rightarrow> Some (Abort e st) | Done _ (ps1, s2) \<Rightarrow> call_alone M R A P mc m (Collecting, ps1, s2))" for m s1
      by (simp add: policy_turn_def split: outcome.split prod.split)
    show ?thesis
      unfolding l
      by (simp add: policy_turn_def try_refresh_pool_def c r del: call_alone.simps split: outcome.split prod.split)
  qed
  moreover have "policy_malloc M R A P (mc_chooser mc) (mc_cached mc) (mc_timeout mc) (mc_obj mc) (mc_cache_timeout mc) (ps, s) =
      then_do (try_refresh_pool R A P (mc_chooser mc) (mc_cached mc) (ps, s)) (\<lambda>_ (ps, s). ?pm ps s)"
    by (simp only: policy_malloc_def alone_wrapping option.sel)
  ultimately show ?thesis by (simp add: numeral_eq_Suc)
qed

section \<open>What a turn does to the pool\<close>

definition turn_event :: "('o, 's) methods \<Rightarrow> 's redis \<Rightarrow> 'a config_scheme \<Rightarrow> ('q, 'o) mcall \<Rightarrow>
    'o stage \<times> ('q, 'o) policy_state \<times> 's \<Rightarrow> event option" where
  "turn_event M R A mc st =
     (case st of (stage, ps, s) \<Rightarrow>
        case stage of
          Entering \<Rightarrow> if mc_cached mc \<or> ps_updater ps = None then None else Some (Relocked (update_lock_key A))
        | Refreshing \<Rightarrow>
            (case ps_updater ps of
               None \<Rightarrow> None
             | Some u \<Rightarrow>
                 (case updater_calls (c_fetch (mc_chooser mc)) 1 u of
                    (Inl e, u1) \<Rightarrow> None
                  | (Inr keys, u1) \<Rightarrow>
                      if keys = [] then None
                      else Some ((if updater_len u1 = 1 then Assigned else Extended) (c_shuffle (mc_chooser mc) keys))))
        | Collecting \<Rightarrow> Some Collected
        | Allocating \<Rightarrow>
            Some (case malloc_key R A (c_far (mc_chooser mc)) (mc_timeout mc) (Option.bind (mc_obj mc) (m_name M)) (mc_cache_timeout mc) s of
               Done r s1 \<Rightarrow> Allocated r | Abort e s1 \<Rightarrow> MallocFailed)
        | _ \<Rightarrow> None)"

text \<open>A call whose environment is that of the pool's transitions, and whose fetches avoid the names that break it.\<close>

definition plain_call :: "rat \<Rightarrow> (string list \<Rightarrow> string list) \<Rightarrow> ('q, 'o) mcall \<Rightarrow> bool" where
  "plain_call far pairs mc \<longleftrightarrow>
     fetches_plain (mc_chooser mc) \<and> c_far (mc_chooser mc) = far \<and> c_pairs (mc_chooser mc) = pairs"

lemma quiet_methods:
  assumes "quiet_config M"
  shows "new_object M k obj s = Done ao s1 \<Longrightarrow> s1 = s \<and> ao_key ao = k" "new_object M k obj s = Abort e s1 \<Longrightarrow> s1 = s"
    "obj_close M old s = Done u s1 \<Longrightarrow> s1 = s" "obj_close M old s = Abort e s1 \<Longrightarrow> s1 = s"
proof -
  have "final_state (m_set_config M x k s) = s" for x using assms by (simp add: quiet_config_def)
  then have set: "m_set_config M x k s = Done u s1 \<Longrightarrow> s1 = s" "m_set_config M x k s = Abort e s1 \<Longrightarrow> s1 = s" for x u e s1
    by (metis final_state.simps)+
  show "new_object M k obj s = Done ao s1 \<Longrightarrow> s1 = s \<and> ao_key ao = k" "new_object M k obj s = Abort e s1 \<Longrightarrow> s1 = s"
    by (cases obj; cases "m_set_config M (the obj) k s"; auto simp: new_object_def Let_def dest: set)+
  have "final_state (obj_close M old s) = s"
    using assms by (simp add: obj_close_def quiet_config_def split: option.split)
  then show "obj_close M old s = Done u s1 \<Longrightarrow> s1 = s" "obj_close M old s = Abort e s1 \<Longrightarrow> s1 = s" by auto
qed

lemma refreshing_turn:
  assumes "plain_call far pairs mc"
  shows "case turn_event M R A mc (Refreshing, ps, s) of
      None \<Rightarrow> snd (snd (policy_turn M R A P mc (Refreshing, ps, s))) = s
    | Some e \<Rightarrow> alloc_step R view A far pairs s e (snd (snd (policy_turn M R A P mc (Refreshing, ps, s))))"
proof (cases "ps_updater ps")
  case None
  then show ?thesis by (simp add: turn_event_def policy_turn_def refresh_pool_def)
next
  case (Some u)
  let ?ch = "mc_chooser mc"
  obtain r u1 where calls: "updater_calls (c_fetch ?ch) 1 u = (r, u1)" by fastforce
  show ?thesis
  proof (cases "\<exists>keys. r = Inr keys \<and> keys \<noteq> []")
    case False
    with Some calls show ?thesis
      by (cases r) (auto simp: turn_event_def policy_turn_def refresh_pool_def simp del: updater_calls.simps One_nat_def)
  next
    case True
    then obtain keys where keys: "r = Inr keys" "keys \<noteq> []" by blast
    let ?keys = "c_shuffle ?ch keys"
    have plain: "fetches_plain ?ch" and pairs: "c_pairs ?ch = pairs" using assms by (simp_all add: plain_call_def)
    have "set ?keys \<subseteq> fetchable ?ch"
      using updater_calls_keys [of ?ch 1 u keys u1] calls keys(1) plain by (simp add: fetches_plain_def)
    moreover have "\<not> starts_bar k" if "k \<in> fetchable ?ch" for k
      using that plain unfolding fetches_plain_def fetchable_def by blast
    ultimately have bars: "no_bars (map PyStr ?keys)" unfolding no_bars_def by auto
    have names: "map key_name (map PyStr ?keys) = ?keys" by (rule key_names)
    note steps = alloc_step.step_assign [OF bars, of R view A far pairs s "expiry_duration P", unfolded names]
      alloc_step.step_extend [OF bars, of R view A far pairs s "Some (expiry_duration P)", unfolded names]
    have "turn_event M R A mc (Refreshing, ps, s) = Some ((if updater_len u1 = 1 then Assigned else Extended) ?keys)"
      using Some calls keys by (simp add: turn_event_def del: updater_calls.simps One_nat_def)
    moreover have "snd (snd (policy_turn M R A P mc (Refreshing, ps, s))) =
        final_state (if updater_len u1 = 1 then assign R A pairs (Some (map PyStr ?keys)) (expiry_duration P) s
          else extend_pool R A (Some (map PyStr ?keys)) (Some (expiry_duration P)) s)"
      using Some calls keys pairs
      by (simp add: policy_turn_def refresh_pool_def Let_def del: updater_calls.simps One_nat_def split: outcome.split)
    ultimately show ?thesis using steps by simp
  qed
qed

text \<open>A turn is one operation on the pool, or leaves the server alone.\<close>

lemma turn_step:
  assumes "quiet_config M" and "plain_call far pairs mc"
  shows "case turn_event M R A mc (g, ps, s) of
      None \<Rightarrow> snd (snd (policy_turn M R A P mc (g, ps, s))) = s
    | Some e \<Rightarrow> alloc_step R view A far pairs s e (snd (snd (policy_turn M R A P mc (g, ps, s))))"
proof (cases g)
  case Entering
  have "snd (snd (policy_turn M R A P mc (Entering, ps, s))) =
      (if mc_cached mc \<or> ps_updater ps = None then s
       else final_state (lock R A (update_lock_key A) ''1'' (Some (update_interval P)) s))"
    by (simp add: policy_turn_def split: outcome.split)
  with Entering show ?thesis by (simp add: turn_event_def alloc_step.step_lock)
next
  case Refreshing
  show ?thesis unfolding Refreshing by (rule refreshing_turn [OF assms(2)])
next
  case Collecting
  have "snd (snd (policy_turn M R A P mc (Collecting, ps, s))) = final_state (gc R A (gc_count P) s)"
    by (simp add: policy_turn_def split: outcome.split)
  with Collecting show ?thesis by (simp add: turn_event_def alloc_step.step_gc)
next
  case Allocating
  have "c_far (mc_chooser mc) = far" using assms(2) by (simp add: plain_call_def)
  with Allocating show ?thesis
    by (auto simp: turn_event_def policy_turn_def split: outcome.split option.split
        intro: alloc_step.step_malloc alloc_step.step_malloc_fails)
next
  case (Wrapping k)
  have "snd (snd (policy_turn M R A P mc (Wrapping k, ps, s))) = s"
    by (auto simp: policy_turn_def Let_def split: outcome.splits option.splits dest!: quiet_methods [OF assms(1)])
  with Wrapping show ?thesis by (simp add: turn_event_def)
qed (simp_all add: turn_event_def policy_turn_def)

section \<open>A crowd of processes\<close>

text \<open>
  A process has a policy of its own and makes one call after another. The trace of a crowd has one entry for
  each operation on the pool: the state before it and the event.
\<close>

record ('q, 'o) client =
  cl_policy :: policy_cfg
  cl_state :: "('q, 'o) policy_state"
  cl_call :: "('q, 'o) mcall"
  cl_stage :: "'o stage"

definition client_turn :: "('o, 's) methods \<Rightarrow> 's redis \<Rightarrow> 'a config_scheme \<Rightarrow> ('q, 'o) client \<Rightarrow> 's \<Rightarrow> ('q, 'o) client \<times> 's" where
  "client_turn M R A c s =
     (case policy_turn M R A (cl_policy c) (cl_call c) (cl_stage c, cl_state c, s) of
        (stage, ps, s1) \<Rightarrow> (c\<lparr>cl_stage := stage, cl_state := ps\<rparr>, s1))"

definition client_event :: "('o, 's) methods \<Rightarrow> 's redis \<Rightarrow> 'a config_scheme \<Rightarrow> ('q, 'o) client \<Rightarrow> 's \<Rightarrow> event option" where
  "client_event M R A c s = turn_event M R A (cl_call c) (cl_stage c, cl_state c, s)"

definition client_plain :: "rat \<Rightarrow> (string list \<Rightarrow> string list) \<Rightarrow> ('q, 'o) client \<Rightarrow> bool" where
  "client_plain far pairs c \<longleftrightarrow> plain_call far pairs (cl_call c)"

text \<open>The key a process holds by its last call.\<close>

fun stage_key :: "'o stage \<Rightarrow> string option" where
  "stage_key (Wrapping k) = Some k"
| "stage_key (Returned (Some ao)) = Some (ao_key ao)"
| "stage_key _ = None"

abbreviation client_key :: "('q, 'o) client \<Rightarrow> string option" where
  "client_key c \<equiv> stage_key (cl_stage c)"

inductive crowd for M R view A far pairs where
  crowd_nil: "crowd M R view A far pairs cs s [] cs s"
| crowd_turn: "crowd M R view A far pairs cs s es cs1 s1 \<Longrightarrow> i < length cs1 \<Longrightarrow> client_turn M R A (cs1 ! i) s1 = (c, s2) \<Longrightarrow>
    crowd M R view A far pairs cs s (es @ map (Pair s1) (case client_event M R A (cs1 ! i) s1 of None \<Rightarrow> [] | Some e \<Rightarrow> [e])) (cs1[i := c]) s2"
| crowd_call: "crowd M R view A far pairs cs s es cs1 s1 \<Longrightarrow> i < length cs1 \<Longrightarrow> turns_left (cl_stage (cs1 ! i)) = 0 \<Longrightarrow>
    plain_call far pairs mc \<Longrightarrow>
    crowd M R view A far pairs cs s es (cs1[i := (cs1 ! i)\<lparr>cl_call := mc, cl_stage := Entering\<rparr>]) s1"
| crowd_other: "crowd M R view A far pairs cs s es cs1 s1 \<Longrightarrow> alloc_step R view A far pairs s1 e s2 \<Longrightarrow>
    crowd M R view A far pairs cs s (es @ [(s1, e)]) cs1 s2"

lemma client_turn_step:
  assumes "quiet_config M" and "client_plain far pairs c" and "client_turn M R A c s = (c', s')"
  shows "case client_event M R A c s of None \<Rightarrow> s' = s | Some e \<Rightarrow> alloc_step R view A far pairs s e s'"
    and "client_plain far pairs c'"
proof -
  have "s' = snd (snd (policy_turn M R A (cl_policy c) (cl_call c) (cl_stage c, cl_state c, s)))" "cl_call c' = cl_call c"
    using assms(3) by (auto simp: client_turn_def split: prod.splits)
  with turn_step [OF assms(1), where mc = "cl_call c" and g = "cl_stage c" and ps = "cl_state c" and P = "cl_policy c" and s = s and
      far = far and pairs = pairs and R = R and A = A and view = view] assms(2)
  show "case client_event M R A c s of None \<Rightarrow> s' = s | Some e \<Rightarrow> alloc_step R view A far pairs s e s'"
    and "client_plain far pairs c'"
    by (simp_all add: client_plain_def client_event_def split: option.splits)
qed

text \<open>Seen from the server a crowd is a trace of operations.\<close>

lemma crowd_calm:
  assumes "crowd M R view A far pairs cs s es cs' s'" and "quiet_config M" and "\<forall>c\<in>set cs. client_plain far pairs c"
    and "\<forall>(u, e)\<in>set es. \<not> disturbs R A k u e"
  shows "calm_trace R view A far pairs k s (map snd es) s' \<and> (\<forall>c\<in>set cs'. client_plain far pairs c)"
  using assms
proof (induction rule: crowd.induct)
  case (crowd_nil cs s)
  then show ?case by (simp add: calm_trace.calm_nil)
next
  case (crowd_turn cs s es cs1 s1 i c s2)
  then have IH: "calm_trace R view A far pairs k s (map snd es) s1" "\<forall>c\<in>set cs1. client_plain far pairs c" by auto
  then have "client_plain far pairs (cs1 ! i)" using crowd_turn.hyps(2) by simp
  note turn = client_turn_step [OF crowd_turn.prems(1) this crowd_turn.hyps(3)]
  have "\<forall>c\<in>set (cs1[i := c]). client_plain far pairs c"
    using IH(2) turn(2) by (auto dest: set_update_subset_insert [THEN subsetD])
  with turn(1) IH(1) crowd_turn.prems(3) show ?case
    by (auto split: option.splits intro: calm_trace.calm_step)
next
  case (crowd_call cs s es cs1 s1 i mc)
  then show ?case
    by (auto simp: client_plain_def dest!: set_update_subset_insert [THEN subsetD])
next
  case (crowd_other cs s es cs1 s1 e s2)
  then show ?case by (auto intro: calm_trace.calm_step)
qed

text \<open>Some turns of one process with nobody in between.\<close>

fun client_turns :: "('o, 's) methods \<Rightarrow> 's redis \<Rightarrow> 'a config_scheme \<Rightarrow> nat \<Rightarrow> ('q, 'o) client \<Rightarrow> 's \<Rightarrow>
    ('s \<times> event) list \<times> ('q, 'o) client \<times> 's" where
  "client_turns M R A 0 c s = ([], c, s)"
| "client_turns M R A (Suc n) c s =
     (case client_turn M R A c s of (c1, s1) \<Rightarrow>
        case client_turns M R A n c1 s1 of (es, c2, s2) \<Rightarrow>
          (map (Pair s) (case client_event M R A c s of None \<Rightarrow> [] | Some e \<Rightarrow> [e]) @ es, c2, s2))"

lemma crowd_turns:
  assumes "crowd M R view A far pairs cs s es cs1 s1" and "i < length cs1" and "client_turns M R A n (cs1 ! i) s1 = (es1, c, s2)"
  shows "crowd M R view A far pairs cs s (es @ es1) (cs1[i := c]) s2"
  using assms
proof (induction n arbitrary: es cs1 s1 es1)
  case 0
  from 0(3) have "c = cs1 ! i" "s2 = s1" "es1 = []" by auto
  with 0(1) show ?case by simp
next
  case (Suc n)
  obtain c1 u where turn: "client_turn M R A (cs1 ! i) s1 = (c1, u)" by fastforce
  obtain es2 where rest: "client_turns M R A n c1 u = (es2, c, s2)"
    "es1 = map (Pair s1) (case client_event M R A (cs1 ! i) s1 of None \<Rightarrow> [] | Some e \<Rightarrow> [e]) @ es2"
    using Suc.prems(3) turn by (auto split: prod.splits)
  from Suc.IH [OF crowd_turn [OF Suc.prems(1,2) turn]] Suc.prems(2) rest show ?case by simp
qed

text \<open>A process gets a key only by its own allocation.\<close>

lemma turn_key:
  assumes "quiet_config M" and "stage_key (fst (policy_turn M R A P mc (g, ps, s))) = Some k"
  shows "stage_key g = Some k \<or> turn_event M R A mc (g, ps, s) = Some (Allocated (Some k))"
  using assms(2) quiet_methods(1) [OF assms(1)]
  by (cases g) (auto simp: policy_turn_def turn_event_def Let_def split: outcome.splits option.splits if_splits prod.splits)

lemma crowd_key:
  assumes "crowd M R view A far pairs cs s es cs' s'" and "quiet_config M" and "Allocated (Some k) \<notin> snd ` set es"
  shows "length cs' = length cs" and "j < length cs' \<Longrightarrow> client_key (cs' ! j) = Some k \<Longrightarrow> client_key (cs ! j) = Some k"
  using assms
proof (induction arbitrary: j rule: crowd.induct)
  case (crowd_turn cs s es cs1 s1 i c s2)
  {
    case 1
    with crowd_turn.IH(1) show ?case by (auto simp: image_Un)
  next
    case 2
    have "client_key (cs1 ! j) = Some k"
    proof (cases "j = i")
      case True
      with 2(2) crowd_turn.hyps(2,3) have "stage_key (fst (policy_turn M R A (cl_policy (cs1 ! i)) (cl_call (cs1 ! i))
          (cl_stage (cs1 ! i), cl_state (cs1 ! i), s1))) = Some k"
        by (auto simp: client_turn_def split: prod.splits)
      from turn_key [OF 2(3) this] 2(4) True show ?thesis by (auto simp: client_event_def)
    qed (use 2(2) in simp)
    with crowd_turn.IH(2) [of j] 2 show ?case by (auto simp: image_Un)
  }
next
  case (crowd_call cs s es cs1 s1 i mc)
  {
    case 1
    with crowd_call.IH(1) show ?case by simp
  next
    case 2
    then have "client_key (cs1 ! j) = Some k" by (cases "j = i") auto
    with crowd_call.IH(2) [of j] 2 show ?case by simp
  }
qed (simp_all add: image_Un)

context redis_server
begin

text \<open>One process is given a key; until the deadline nobody else is, whoever takes turns.\<close>

lemma crowd_exclusive:
  assumes "good view A s" and "table_order pairs" and "\<not> shared A" and "quiet_config M"
    and "\<forall>c\<in>set cs. client_plain far pairs c" and "i < length cs" and "cl_stage (cs ! i) = Allocating"
    and "client_turn M R A (cs ! i) s = (c, s1)" and "cl_stage c = Wrapping k"
    and "crowd M R view A far pairs (cs[i := c]) s1 es cs2 s2" and "\<forall>(u, e)\<in>set es. \<not> disturbs R A k u e"
    and "py_int (to_seconds far (mc_timeout (cl_call (cs ! i)))) \<le> 0 \<or>
      now_ms (view s2) < now_ms (view s) + 1000 * py_int (to_seconds far (mc_timeout (cl_call (cs ! i))))"
  shows "Allocated (Some k) \<notin> snd ` set es \<and> is_locked R A k s2 \<and> k \<notin> set (get_free_list R A s2) \<and>
    (\<forall>j<length cs2. client_key (cs2 ! j) = Some k \<longrightarrow> j = i \<or> client_key (cs ! j) = Some k)"
proof -
  let ?mc = "cl_call (cs ! i)"
  have plain: "client_plain far pairs (cs ! i)" using assms(5,6) by simp
  then have "c_far (mc_chooser ?mc) = far" by (simp add: client_plain_def plain_call_def)
  with assms(7-9) have got: "malloc_key R A far (mc_timeout ?mc) (Option.bind (mc_obj ?mc) (m_name M)) (mc_cache_timeout ?mc) s = Done (Some k) s1"
    by (auto simp: client_turn_def policy_turn_def split: outcome.splits option.splits)
  have "client_plain far pairs c" by (rule client_turn_step(2) [OF assms(4) plain assms(8)])
  then have "\<forall>c\<in>set (cs[i := c]). client_plain far pairs c"
    using assms(5) by (auto dest: set_update_subset_insert [THEN subsetD])
  with crowd_calm [OF assms(10,4) _ assms(11)] have calm: "calm_trace R view A far pairs k s1 (map snd es) s2" by blast
  from exclusive_trace [OF assms(1-3) got calm assms(12)] have
    excl: "Allocated (Some k) \<notin> snd ` set es" "is_locked R A k s2" "k \<notin> set (get_free_list R A s2)" by simp_all
  have "j = i \<or> client_key (cs ! j) = Some k" if "j < length cs2" "client_key (cs2 ! j) = Some k" for j
    using crowd_key(2) [OF assms(10,4) excl(1) that] by (cases "j = i") simp_all
  with excl show ?thesis by blast
qed

end

end
