(* ===== verification/Policy_Properties.thy ===== *)
theory Policy_Properties
  imports Examples Allocator_Facts Health_Proofs Policy_Turns
begin

text \<open>
  The properties of the Python layer: the refreshing of the pool by one process at a time, the health
  checks, allocation through the policy and the release of an object.
\<close>

section \<open>Releasing an object\<close>

context redis_server
begin

text \<open>A release gives the key back if it is still locked and a member, and unlocks it in any case.\<close>

lemma release_once:
  assumes "good view (A :: 'a config_scheme) s" and "quiet_config M" and "\<not> ao_released ao" and "\<not> is_jammed R A (ao_key ao) s"
  shows "\<exists>s2. obj_release M R A t (ao, s) =
      (case obj_close M ao s of
         Done _ _ \<Rightarrow> Done () (ao\<lparr>ao_released := True\<rparr>, s2) | Abort e _ \<Rightarrow> Abort e (ao\<lparr>ao_released := True\<rparr>, s2)) \<and>
    good view A s2 \<and>
    get_free_list R A s2 = get_free_list R A s @ (if is_locked R A (ao_key ao) s \<and> contains R A (ao_key ao) s then [ao_key ao] else []) \<and>
    (\<forall>k. is_locked R A k s2 \<longleftrightarrow> is_locked R A k s \<and> k \<noteq> ao_key ao) \<and>
    obj_release M R A t (ao\<lparr>ao_released := True\<rparr>, s2) = Done () (ao\<lparr>ao_released := True\<rparr>, s2)"
proof -
  have quiet: "final_state (obj_close M ao s) = s"
    using assms(2) by (simp add: obj_close_def quiet_config_def split: option.split)
  have "\<forall>k\<in>set [ao_key ao]. \<not> is_jammed R A k s" using assms(4) by simp
  from free_observed [OF assms(1) this, of t] obtain s2 where
    s2: "free_keys R A [ao_key ao] t s = Done () s2" "good view A s2"
      "get_free_list R A s2 = get_free_list R A s @ new_keys {k. \<not> (is_locked R A k s \<and> contains R A k s)} [ao_key ao]"
      "\<forall>k. is_locked R A k s2 \<longleftrightarrow> is_locked R A k s \<and> k \<noteq> ao_key ao" by auto
  have "obj_release M R A t (ao, s) = (case obj_close M ao s of
         Done _ _ \<Rightarrow> Done () (ao\<lparr>ao_released := True\<rparr>, s2) | Abort e _ \<Rightarrow> Abort e (ao\<lparr>ao_released := True\<rparr>, s2))"
    using assms(3) s2(1) quiet by (simp add: obj_release_def Let_def)
  moreover have "obj_release M R A t (ao\<lparr>ao_released := True\<rparr>, s2) = Done () (ao\<lparr>ao_released := True\<rparr>, s2)"
    by (simp add: obj_release_def)
  moreover have "get_free_list R A s2 = get_free_list R A s @
      (if is_locked R A (ao_key ao) s \<and> contains R A (ao_key ao) s then [ao_key ao] else [])"
    using s2(3) by simp
  ultimately show ?thesis using s2(2,4) by blast
qed

lemma with_object_once:
  assumes "quiet_config M" and "obj_open M ao s = Done () s0" and fin: "final_state (body (ao, x, s0)) = (ao1, x1, s1)"
    and "good view (A :: 'a config_scheme) s1" and "\<not> is_jammed R A (ao_key ao1) s1"
  shows "(ao_released ao1 \<longrightarrow> with_object M R A body (ao, x, s) = body (ao, x, s0)) \<and>
    (\<not> ao_released ao1 \<longrightarrow>
      (\<exists>s2. with_object M R A body (ao, x, s) =
          (case obj_close M ao1 s1 of
             Abort e _ \<Rightarrow> Abort e (ao1\<lparr>ao_released := True\<rparr>, x1, s2)
           | Done _ _ \<Rightarrow>
               (case body (ao, x, s0) of
                  Done b _ \<Rightarrow> Done b (ao1\<lparr>ao_released := True\<rparr>, x1, s2) | Abort e _ \<Rightarrow> Abort e (ao1\<lparr>ao_released := True\<rparr>, x1, s2))) \<and>
        good view A s2 \<and>
        get_free_list R A s2 = get_free_list R A s1 @
          (if is_locked R A (ao_key ao1) s1 \<and> contains R A (ao_key ao1) s1 then [ao_key ao1] else []) \<and>
        (\<forall>k. is_locked R A k s2 \<longleftrightarrow> is_locked R A k s1 \<and> k \<noteq> ao_key ao1) \<and>
        obj_release M R A t (ao1\<lparr>ao_released := True\<rparr>, s2) = Done () (ao1\<lparr>ao_released := True\<rparr>, s2)))"
proof (intro conjI impI)
  assume "ao_released ao1"
  with assms(2) fin show "with_object M R A body (ao, x, s) = body (ao, x, s0)"
    by (cases "body (ao, x, s0)") (simp_all add: with_object_def obj_release_def Let_def)
next
  assume "\<not> ao_released ao1"
  from release_once [OF assms(4,1) this assms(5), of "-1"] obtain s2 where
    rel: "obj_release M R A (-1) (ao1, s1) =
      (case obj_close M ao1 s1 of
         Done _ _ \<Rightarrow> Done () (ao1\<lparr>ao_released := True\<rparr>, s2) | Abort e _ \<Rightarrow> Abort e (ao1\<lparr>ao_released := True\<rparr>, s2))"
    and s2: "good view A s2" "get_free_list R A s2 = get_free_list R A s1 @
        (if is_locked R A (ao_key ao1) s1 \<and> contains R A (ao_key ao1) s1 then [ao_key ao1] else [])"
      "\<forall>k. is_locked R A k s2 \<longleftrightarrow> is_locked R A k s1 \<and> k \<noteq> ao_key ao1" by blast
  have "obj_release M R A t (ao1\<lparr>ao_released := True\<rparr>, s2) = Done () (ao1\<lparr>ao_released := True\<rparr>, s2)"
    by (simp add: obj_release_def)
  moreover have "with_object M R A body (ao, x, s) =
          (case obj_close M ao1 s1 of
             Abort e _ \<Rightarrow> Abort e (ao1\<lparr>ao_released := True\<rparr>, x1, s2)
           | Done _ _ \<Rightarrow>
               (case body (ao, x, s0) of
                  Done b _ \<Rightarrow> Done b (ao1\<lparr>ao_released := True\<rparr>, x1, s2) | Abort e _ \<Rightarrow> Abort e (ao1\<lparr>ao_released := True\<rparr>, x1, s2)))"
    using assms(2) fin rel by (simp add: with_object_def Let_def split: outcome.split)
  ultimately show "\<exists>s2. with_object M R A body (ao, x, s) =
          (case obj_close M ao1 s1 of
             Abort e _ \<Rightarrow> Abort e (ao1\<lparr>ao_released := True\<rparr>, x1, s2)
           | Done _ _ \<Rightarrow>
               (case body (ao, x, s0) of
                  Done b _ \<Rightarrow> Done b (ao1\<lparr>ao_released := True\<rparr>, x1, s2) | Abort e _ \<Rightarrow> Abort e (ao1\<lparr>ao_released := True\<rparr>, x1, s2))) \<and>
        good view A s2 \<and>
        get_free_list R A s2 = get_free_list R A s1 @
          (if is_locked R A (ao_key ao1) s1 \<and> contains R A (ao_key ao1) s1 then [ao_key ao1] else []) \<and>
        (\<forall>k. is_locked R A k s2 \<longleftrightarrow> is_locked R A k s1 \<and> k \<noteq> ao_key ao1) \<and>
        obj_release M R A t (ao1\<lparr>ao_released := True\<rparr>, s2) = Done () (ao1\<lparr>ao_released := True\<rparr>, s2)"
    using s2 by blast
qed

end

section \<open>Refreshing the pool\<close>

context redis_server
begin

lemma refresh_pool_observed:
  assumes "good view A s" and plain: "fetches_plain ch"
    and upd: "ps_updater ps = Some u" and idx: "u_index u < length (u_params u)"
    and keys: "keys = concat (map (\<lambda>i. projr (nth_fetch (c_fetch ch) u i)) [0..<n])"
  shows "(\<forall>i<n. \<forall>e. (\<forall>j<i. \<not> isl (nth_fetch (c_fetch ch) u j)) \<and> nth_fetch (c_fetch ch) u i = Inl e \<longrightarrow>
      refresh_pool R A P ch shuffle n (ps, s) = Abort e (ps\<lparr>ps_updater := Some (moved_on (Suc i) u)\<rparr>, s)) \<and>
    ((\<forall>i<n. \<not> isl (nth_fetch (c_fetch ch) u i)) \<longrightarrow>
      (\<exists>s'. refresh_pool R A P ch shuffle n (ps, s) =
          (if validate_keys (map PyStr keys) = None then Done () else Abort ValueError) (ps\<lparr>ps_updater := Some (moved_on n u)\<rparr>, s') \<and>
        (keys = [] \<or> validate_keys (map PyStr keys) \<noteq> None \<longrightarrow> s' = s) \<and>
        (keys \<noteq> [] \<and> validate_keys (map PyStr keys) = None \<longrightarrow> good view A s' \<and>
          set (pool_keys R A s') = (if length (u_params u) = 1 then set keys else set (pool_keys R A s) \<union> set keys))))"
    (is "?raises \<and> (?ok \<longrightarrow> ?installed)")
proof (intro conjI impI)
  show ?raises using updater_round_robin(2) [OF idx] upd by (fastforce simp: refresh_pool_def)
  assume ?ok
  with updater_round_robin(1) [OF idx] keys have calls: "updater_calls (c_fetch ch) n u = (Inr keys, moved_on n u)" by simp
  have "\<forall>k\<in>set keys. \<not> starts_bar k"
    using updater_calls_keys [OF calls] plain unfolding fetches_plain_def fetchable_def by blast
  then have safe: "validate_keys (map PyStr keys) = None \<longleftrightarrow> (\<forall>k\<in>set keys. safe_key k)"
    by (auto simp: validate_keys_iff safe_key_def)
  let ?keys = "if shuffle then c_shuffle ch keys else keys"
  have same: "set ?keys = set keys" using plain by (simp add: fetches_plain_def)
  then have valid: "validate_keys (map PyStr ?keys) = None \<longleftrightarrow> validate_keys (map PyStr keys) = None"
    by (simp add: validate_keys_iff)
  have obs: "set (pool_keys R A t) = hash_members A (view t)" if "good view A t" for t
  proof -
    from that obtain p where p: "rep A (view t) p" by (rule good_rep)
    then show ?thesis by (simp add: observe(2) [OF p] rep_members)
  qed
  show ?installed
  proof (cases "keys \<noteq> [] \<and> validate_keys (map PyStr keys) \<noteq> None")
    case True
    with valid have invalid: "validate_keys (map PyStr ?keys) \<noteq> None" by simp
    with True upd calls show ?thesis by (auto simp: refresh_pool_def Let_def extend_refuses [OF invalid])
  next
    case False
    then have "\<forall>k\<in>set keys. safe_key k" using safe by auto
    from refresh_pool_effect [OF assms(1) plain upd calls this, of P shuffle] obtain s' where
      s': "refresh_pool R A P ch shuffle n (ps, s) = Done () (ps\<lparr>ps_updater := Some (moved_on n u)\<rparr>, s')" "good view A s'"
        "hash_members A (view s') =
          (if keys = [] then hash_members A (view s)
           else if updater_len u = 1 then set keys else hash_members A (view s) \<union> set keys)" by blast
    have "keys = [] \<Longrightarrow> s' = s" using s'(1) upd calls by (simp add: refresh_pool_def)
    with s' False obs [OF s'(2)] obs [OF assms(1)] show ?thesis by (intro exI [of _ s']) (auto simp: updater_len_def)
  qed
qed

end

section \<open>A concrete class\<close>

text \<open>Objects without state, one of which fails to close.\<close>

definition demo_methods :: "(bool, mem) methods" where
  "demo_methods = \<lparr>m_name = (\<lambda>_. None), m_unique_id = (\<lambda>_. ''u''), m_set_config = (\<lambda>_ _ s. Done () s),
     m_open = (\<lambda>_ s. Done () s), m_close = (\<lambda>b s. if b then Done () s else Abort RuntimeError s),
     m_is_healthy = (\<lambda>b s. Done b s)\<rparr>"

definition demo_chooser :: "nat chooser" where
  "demo_chooser = \<lparr>c_pairs = (\<lambda>xs. xs), c_shuffle = (\<lambda>xs. xs), c_fetch = (\<lambda>n. if n = 0 then Inr [''a'', ''d''] else if n = 1 then Inr [''c''] else Inl (Raised ''fetch'')),
     c_alive = (\<lambda>_. True), c_far = 0\<rparr>"

definition demo_policy :: policy_cfg where
  "demo_policy = \<lparr>gc_count = 5, update_interval = 300, expiry_duration = -1, auto_close = False\<rparr>"

definition idle :: "(nat, bool) policy_state" where
  "idle = \<lparr>ps_updater = None, ps_objects = []\<rparr>"

lemma demo_class: "quiet_config demo_methods" "fetches_plain demo_chooser" "fetchable demo_chooser = {''a'', ''c'', ''d''}"
proof -
  show "quiet_config demo_methods" by (simp add: quiet_config_def demo_methods_def)
  show "fetches_plain demo_chooser"
    by (auto simp: fetches_plain_def demo_chooser_def table_order_def starts_bar_def split: if_splits)
  have "c_fetch demo_chooser 0 = Inr [''a'', ''d'']" "c_fetch demo_chooser 1 = Inr [''c'']"
    by (simp_all add: demo_chooser_def)
  then show "fetchable demo_chooser = {''a'', ''c'', ''d''}"
    by (fastforce simp: fetchable_def demo_chooser_def split: if_splits)
qed

text \<open>A class that is judged by its content.\<close>

definition calm_methods :: "(bool, mem) methods" where
  "calm_methods = demo_methods\<lparr>m_close := (\<lambda>_ s. Done () s)\<rparr>"

lemma calm_judged: "judged calm_methods Inr"
  by (simp add: judged_def calm_methods_def demo_methods_def)

section \<open>The properties\<close>

text \<open>
  C35: at most one refresh in an interval. A refresh that got the update lock, on a state where nobody held
  it, keeps every call of every process from refreshing until the interval is over: the call returns and
  changes nothing. This holds whatever the processes do in between short of touching that lock, and also
  when the refresh raised: a failing fetch blocks the refreshing of the pool for the interval.
\<close>

theorem refresh_at_most_once:
  assumes "redis_server R view" and "good view A s" and "fetches_plain ch" and "update_lock_key A \<notin> fetchable ch"
    and "0 < update_interval P" and "\<not> is_locked R A (update_lock_key A) s" and "ps_updater ps \<noteq> None"
    and "alloc_trace R view A far pairs (snd (final_state (try_refresh_pool R A P ch False (ps, s)))) es s2"
    and "table_order pairs" and "\<forall>e\<in>set es. \<not> touches (update_lock_key A) e"
    and "now_ms (view s2) < now_ms (view s) + 1000 * update_interval P" and "0 < update_interval P2"
  shows "try_refresh_pool R A P2 ch2 cached (ps2, s2) = Done () (ps2, s2)"
  by (rule redis_server.refresh_once [OF assms])

text \<open>The fetch of the first call raises; a second process then does nothing.\<close>

definition failing_ps :: "(nat, bool) policy_state" where
  "failing_ps = idle\<lparr>ps_updater := Some \<lparr>u_params = [2], u_index = 0\<rparr>\<rparr>"

theorem refresh_at_most_once_witness:
  "let s2 = snd (final_state (try_refresh_pool mem_redis demo demo_policy demo_chooser False (failing_ps, demo_pool))) in
   try_refresh_pool mem_redis demo demo_policy demo_chooser False
     (idle\<lparr>ps_updater := Some \<lparr>u_params = [0], u_index = 0\<rparr>\<rparr>, s2) =
   Done () (idle\<lparr>ps_updater := Some \<lparr>u_params = [0], u_index = 0\<rparr>\<rparr>, s2)"
proof -
  let ?s2 = "snd (final_state (try_refresh_pool mem_redis demo demo_policy demo_chooser False (failing_ps, demo_pool)))"
  have k: "update_lock_key demo \<notin> fetchable demo_chooser"
    by (simp add: demo_class(3) update_lock_key_def demo_def pool_str_def)
  have p: "0 < update_interval demo_policy" by (simp add: demo_policy_def)
  have l: "\<not> is_locked mem_redis demo (update_lock_key demo) demo_pool" by code_simp
  have u: "ps_updater failing_ps \<noteq> None" by (simp add: failing_ps_def)
  have "m_now ?s2 = 5000" by code_simp
  then have t: "now_ms (mem_view ?s2) < now_ms (mem_view demo_pool) + 1000 * update_interval demo_policy"
    by (simp add: demo_clock demo_policy_def)
  have tr: "alloc_trace mem_redis mem_view demo 0 (\<lambda>xs. xs) ?s2 [] ?s2" by (rule alloc_trace.trace_nil)
  show ?thesis
    unfolding Let_def
    by (rule refresh_at_most_once [OF mem_server good_demo demo_class(2) k p l u tr table_order_id _ t p]) simp
qed

text \<open>
  C36: a refresh takes the next \<open>n\<close> parameters of the updater in turn, starting over at the end. If every fetch
  returns, the updater has moved on by \<open>n\<close>; if a fetch raises, it has moved past that parameter, the exception goes to the
  caller and the pool is not touched. The keys that were fetched become members: with a single parameter the pool
  is exactly these keys, with several they are added. Without any key nothing changes, and when one of them
  is invalid the refresh raises ValueError and leaves the pool alone. No fetch returns a key that starts with a bar.
\<close>

theorem refresh_installs_keys:
  assumes "redis_server R view" and "good view A s" and "fetches_plain ch"
    and "ps_updater ps = Some u" and "u_index u < length (u_params u)"
    and "keys = concat (map (\<lambda>i. projr (nth_fetch (c_fetch ch) u i)) [0..<n])"
  shows "(\<forall>i<n. \<forall>e. (\<forall>j<i. \<not> isl (nth_fetch (c_fetch ch) u j)) \<and> nth_fetch (c_fetch ch) u i = Inl e \<longrightarrow>
      refresh_pool R A P ch shuffle n (ps, s) = Abort e (ps\<lparr>ps_updater := Some (moved_on (Suc i) u)\<rparr>, s)) \<and>
    ((\<forall>i<n. \<not> isl (nth_fetch (c_fetch ch) u i)) \<longrightarrow>
      (\<exists>s'. refresh_pool R A P ch shuffle n (ps, s) =
          (if validate_keys (map PyStr keys) = None then Done () else Abort ValueError) (ps\<lparr>ps_updater := Some (moved_on n u)\<rparr>, s') \<and>
        (keys = [] \<or> validate_keys (map PyStr keys) \<noteq> None \<longrightarrow> s' = s) \<and>
        (keys \<noteq> [] \<and> validate_keys (map PyStr keys) = None \<longrightarrow> good view A s' \<and>
          set (pool_keys R A s') = (if length (u_params u) = 1 then set keys else set (pool_keys R A s) \<union> set keys))))"
  by (rule redis_server.refresh_pool_observed [OF assms])

text \<open>The updater has two parameters; the first gives \<open>a\<close> and \<open>d\<close>.\<close>

theorem refresh_installs_keys_witness:
  "\<exists>s'. refresh_pool mem_redis demo demo_policy demo_chooser True 1
      (idle\<lparr>ps_updater := Some \<lparr>u_params = [0, 1], u_index = 0\<rparr>\<rparr>, demo_pool) =
      Done () (idle\<lparr>ps_updater := Some \<lparr>u_params = [0, 1], u_index = 1\<rparr>\<rparr>, s') \<and>
    set (pool_keys mem_redis demo s') = {''a'', ''b'', ''c'', ''d''}"
proof -
  let ?u = "\<lparr>u_params = [0, 1], u_index = 0\<rparr> :: nat updater"
  have f: "nth_fetch (c_fetch demo_chooser) ?u 0 = Inr [''a'', ''d'']" by (simp add: nth_fetch_def demo_chooser_def)
  have u: "ps_updater (idle\<lparr>ps_updater := Some ?u\<rparr>) = Some ?u" "u_index ?u < length (u_params ?u)" by simp_all
  have k: "[''a'', ''d''] = concat (map (\<lambda>i. projr (nth_fetch (c_fetch demo_chooser) ?u i)) [0..<1])"
    by (simp add: nth_fetch_def demo_chooser_def)
  have v: "validate_keys (map PyStr [''a'', ''d'']) = None" by code_simp
  have old: "set (pool_keys mem_redis demo demo_pool) = {''a'', ''b'', ''c''}" by code_simp
  have m: "moved_on 1 ?u = \<lparr>u_params = [0, 1], u_index = 1\<rparr>" by (simp add: moved_on_def)
  from refresh_installs_keys [OF mem_server good_demo demo_class(2) u k, of demo_policy True] f v old m show ?thesis
    by auto
qed

text \<open>
  C37: allocation through the policy is exclusive also while other processes work in between. A call is a
  sequence of turns (entering with the update lock, refreshing, collecting, allocating, wrapping), and the turns
  of any number of processes alternate in any order with each other and with any other operation. From the
  moment a call was given \<open>k\<close> and until its timeout (for ever if that is not positive) no turn and no operation allocates
  \<open>k\<close> again, \<open>k\<close> is locked and outside the free list, and no process comes to hold \<open>k\<close> that did not
  do so before; as long as nobody frees or relocks \<open>k\<close>, and nobody, no refresh either, adds it back after it left the
  pool. The allocator is exclusive, the classes' \<open>set_config\<close> and \<open>close\<close> leave the server alone, no fetch returns a
  key that starts with a bar, and the other operations are those of \<open>alloc_step\<close>: no such key is added and no key freed that is
  locked while it is in the free list.
\<close>

theorem policy_calls_exclusive:
  assumes "redis_server R view" and "good view A s" and "table_order pairs" and "\<not> shared A" and "quiet_config M"
    and "\<forall>c\<in>set cs. client_plain far pairs c" and "i < length cs" and "cl_stage (cs ! i) = Allocating"
    and "client_turn M R A (cs ! i) s = (c, s1)" and "cl_stage c = Wrapping k"
    and "crowd M R view A far pairs (cs[i := c]) s1 es cs2 s2" and "\<forall>(u, e)\<in>set es. \<not> disturbs R A k u e"
    and "py_int (to_seconds far (mc_timeout (cl_call (cs ! i)))) \<le> 0 \<or>
      now_ms (view s2) < now_ms (view s) + 1000 * py_int (to_seconds far (mc_timeout (cl_call (cs ! i))))"
  shows "Allocated (Some k) \<notin> snd ` set es \<and> is_locked R A k s2 \<and> k \<notin> set (get_free_list R A s2) \<and>
    (\<forall>j<length cs2. client_key (cs2 ! j) = Some k \<longrightarrow> j = i \<or> client_key (cs ! j) = Some k)"
  by (rule redis_server.crowd_exclusive [OF assms])

text \<open>
  The first process is given \<open>a\<close>; then the second makes a whole call, in which it refreshes the pool to \<open>a\<close>
  and \<open>d\<close>, and is given \<open>d\<close>.
\<close>

definition plain_mcall :: "(nat, bool) mcall" where
  "plain_mcall = \<lparr>mc_chooser = demo_chooser, mc_cached = False, mc_timeout = Seconds 10, mc_obj = Some True, mc_cache_timeout = NoTimeout\<rparr>"

definition first_client :: "(nat, bool) client" where
  "first_client = \<lparr>cl_policy = demo_policy, cl_state = idle, cl_call = plain_mcall, cl_stage = Allocating\<rparr>"

definition second_client :: "(nat, bool) client" where
  "second_client = \<lparr>cl_policy = demo_policy, cl_state = idle\<lparr>ps_updater := Some \<lparr>u_params = [0], u_index = 0\<rparr>\<rparr>,
     cl_call = plain_mcall, cl_stage = Entering\<rparr>"

theorem policy_calls_exclusive_witness:
  "\<exists>c s1 es c2 s2. client_turn demo_methods mem_redis demo first_client demo_pool = (c, s1) \<and> cl_stage c = Wrapping ''a'' \<and>
    crowd demo_methods mem_redis mem_view demo 0 (\<lambda>xs. xs) [c, second_client] s1 es [c, c2] s2 \<and>
    client_key c2 = Some ''d'' \<and> is_locked mem_redis demo ''a'' s2 \<and> Assigned [''a'', ''d''] \<in> snd ` set es"
proof -
  let ?c = "fst (client_turn demo_methods mem_redis demo first_client demo_pool)"
  let ?s1 = "snd (client_turn demo_methods mem_redis demo first_client demo_pool)"
  let ?run = "client_turns demo_methods mem_redis demo 5 second_client ?s1"
  let ?es = "fst ?run"
  have c: "client_turn demo_methods mem_redis demo first_client demo_pool = (?c, ?s1)" by simp
  have stage: "case cl_stage ?c of Wrapping k \<Rightarrow> k = ''a'' | _ \<Rightarrow> False" by code_simp
  then have g: "cl_stage ?c = Wrapping ''a''" by (simp split: stage.splits)
  have run: "client_turns demo_methods mem_redis demo 5 ([?c, second_client] ! 1) ?s1 = (?es, fst (snd ?run), snd (snd ?run))" by simp
  have crowd: "crowd demo_methods mem_redis mem_view demo 0 (\<lambda>xs. xs) [?c, second_client] ?s1 ?es [?c, fst (snd ?run)] (snd (snd ?run))"
    using crowd_turns [OF crowd_nil _ run] by simp
  have calm: "list_all (\<lambda>(u, e). \<not> disturbs mem_redis demo ''a'' u e) ?es" by code_simp
  have d: "client_key (fst (snd ?run)) = Some ''d''" by code_simp
  have assigned: "Assigned [''a'', ''d''] \<in> set (map snd ?es)" by code_simp
  have time: "m_now (snd (snd ?run)) = 5000" by code_simp
  let ?cs = "[first_client, second_client]"
  have plain: "\<forall>c\<in>set ?cs. client_plain 0 (\<lambda>xs. xs) c"
    using demo_class(2) by (simp add: client_plain_def plain_call_def first_client_def second_client_def plain_mcall_def demo_chooser_def)
  have i: "0 < length ?cs" "cl_stage (?cs ! 0) = Allocating" by (simp_all add: first_client_def)
  have e: "\<not> shared demo" by (simp add: demo_def)
  have c0: "client_turn demo_methods mem_redis demo (?cs ! 0) demo_pool = (?c, ?s1)" by simp
  have crowd0: "crowd demo_methods mem_redis mem_view demo 0 (\<lambda>xs. xs) (?cs[0 := ?c]) ?s1 ?es [?c, fst (snd ?run)] (snd (snd ?run))"
    using crowd by simp
  have calm0: "\<forall>(u, e)\<in>set ?es. \<not> disturbs mem_redis demo ''a'' u e" using calm by (simp add: list_all_iff)
  have "py_int (to_seconds 0 (Seconds 10)) = 10" by code_simp
  then have "now_ms (mem_view (snd (snd ?run))) < now_ms (mem_view demo_pool) + 1000 * py_int (to_seconds 0 (mc_timeout (cl_call (?cs ! 0))))"
    using time demo_clock(1) by (simp add: first_client_def plain_mcall_def)
  from policy_calls_exclusive [OF mem_server good_demo table_order_id e demo_class(1) plain i c0 g crowd0 calm0 disjI2 [OF this]]
  have "is_locked mem_redis demo ''a'' (snd (snd ?run))" by blast
  with c g crowd d assigned show ?thesis by (metis set_map)
qed

text \<open>
  C38: the \<open>with\<close> statement gives the key of its object back exactly once, whatever its body does with the object
  and however it ends. If the body has released the object, the statement ends as the body did and does nothing
  more. Otherwise the key the object has by then is unlocked and, if it was still locked and a member,
  goes to the tail of the free list, even when closing the object fails; the failure of closing is raised if there is
  one, and otherwise the statement ends as its body did; a release after that does nothing. The key must not
  be locked while it is in the free list, and the classes' methods leave the server alone when they close.
\<close>

theorem with_object_returns_key_once:
  assumes "redis_server R view" and "quiet_config M" and "obj_open M ao s = Done () s0"
    and "final_state (body (ao, x, s0)) = (ao1, x1, s1)"
    and "good view (A :: 'a config_scheme) s1" and "\<not> is_jammed R A (ao_key ao1) s1"
  shows "(ao_released ao1 \<longrightarrow> with_object M R A body (ao, x, s) = body (ao, x, s0)) \<and>
    (\<not> ao_released ao1 \<longrightarrow>
      (\<exists>s2. with_object M R A body (ao, x, s) =
          (case obj_close M ao1 s1 of
             Abort e _ \<Rightarrow> Abort e (ao1\<lparr>ao_released := True\<rparr>, x1, s2)
           | Done _ _ \<Rightarrow>
               (case body (ao, x, s0) of
                  Done b _ \<Rightarrow> Done b (ao1\<lparr>ao_released := True\<rparr>, x1, s2) | Abort e _ \<Rightarrow> Abort e (ao1\<lparr>ao_released := True\<rparr>, x1, s2))) \<and>
        good view A s2 \<and>
        get_free_list R A s2 = get_free_list R A s1 @
          (if is_locked R A (ao_key ao1) s1 \<and> contains R A (ao_key ao1) s1 then [ao_key ao1] else []) \<and>
        (\<forall>k. is_locked R A k s2 \<longleftrightarrow> is_locked R A k s1 \<and> k \<noteq> ao_key ao1) \<and>
        obj_release M R A t (ao1\<lparr>ao_released := True\<rparr>, s2) = Done () (ao1\<lparr>ao_released := True\<rparr>, s2)))"
  by (rule redis_server.with_object_once [where body = body, OF assms])

text \<open>The body raises, and closing the object fails after it: that failure is what the caller sees.\<close>

theorem with_object_returns_key_once_witness:
  "\<exists>ao' s2. with_object demo_methods mem_redis demo (\<lambda>st. Abort ValueError st :: (unit, bool aobject \<times> unit \<times> mem) outcome)
       (\<lparr>ao_key = ''a'', ao_obj = Some False, ao_released = False\<rparr>, (), demo_taken) = Abort RuntimeError (ao', (), s2) \<and>
     get_free_list mem_redis demo s2 = get_free_list mem_redis demo demo_taken @ [''a'']"
proof -
  let ?ao = "\<lparr>ao_key = ''a'', ao_obj = Some False, ao_released = False\<rparr>"
  let ?body = "\<lambda>st :: bool aobject \<times> unit \<times> mem. Abort ValueError st :: (unit, bool aobject \<times> unit \<times> mem) outcome"
  have h: "\<not> ao_released ?ao" by simp
  have o: "obj_open demo_methods ?ao demo_taken = Done () demo_taken" by (simp add: obj_open_def demo_methods_def)
  have b: "final_state (?body (?ao, (), demo_taken)) = (?ao, (), demo_taken)" by simp
  have k: "\<not> is_jammed mem_redis demo (ao_key ?ao) demo_taken" by code_simp
  have held: "is_locked mem_redis demo (ao_key ?ao) demo_taken \<and> contains mem_redis demo (ao_key ?ao) demo_taken" by code_simp
  have c: "obj_close demo_methods ?ao demo_taken = Abort RuntimeError demo_taken"
    by (simp add: obj_close_def demo_methods_def)
  from with_object_returns_key_once [where body = ?body, OF mem_server demo_class(1) o b good_taken k, of "-1"] h held show ?thesis
    unfolding c outcome.case aobject.select_convs by auto
qed

text \<open>
  C39: what \<open>check_health\<close> returns and does depends only on which checks ran and which results arrived in time, not on the
  order in which the thread pool ran them. In any order of any part of the checks, each at most once, the call
  returns the numbers of healthy and unhealthy keys if every check ran, returned and arrived; otherwise it raises at the
  first key, in the order of the pool, whose check raised or whose result is missing or late: the exception of
  the check, or TimeoutError. The keys whose check ran are marked all the same: unhealthy and raising ones are locked for
  an hour, healthy ones are unlocked in shared mode and untouched in exclusive mode. The other locks of members,
  members, free list and clock are as before. This is for classes whose methods leave the server alone, and names
  whose binding is not the lock of a member.
\<close>

theorem check_health_any_order:
  assumes "redis_server R view" and "judged M judge" and "rep A (view s) p" and "0 < max_threads" and "ks = pool_keys R A s"
    and "\<forall>j\<in>set ks. \<forall>k\<in>set ks. \<forall>n. Option.bind (obj_fn k) (m_name M) = Some n \<longrightarrow> py_soft_bind_name A n \<noteq> j"
    and "distinct sched" and "set sched \<subseteq> {..<length ks}"
  shows "\<exists>s' q. check_health M R A max_threads obj_fn sched arrives s =
      (case all_results (map (awaited judge obj_fn ks sched arrives) [0..<length ks]) of
         Inl e \<Rightarrow> Abort e s'
       | Inr bs \<Rightarrow> Done (length (filter (\<lambda>b. b) bs), length (filter (\<lambda>b. \<not> b) bs)) s') \<and>
    rep A (view s') q \<and> free q = free p \<and> members q = members p \<and> anow q = anow p \<and>
    (\<forall>i<length ks. alock q (ks ! i) =
       (if i \<notin> set sched then alock p (ks ! i)
        else if verdict judge (obj_fn (ks ! i)) = Inr True then (if shared A then None else alock p (ks ! i))
        else Some (''1'', Some (anow p + 3600 * 1000))))"
  by (rule redis_server.check_health_effect [OF assms])

text \<open>
  Three keys, of which \<open>b\<close> is unhealthy: all checked, from the last to the first; and the check of \<open>a\<close> cancelled and
  the result of \<open>c\<close> late. In both cases \<open>b\<close> is locked.
\<close>

theorem check_health_any_order_witness:
  "(\<exists>s' q. check_health calm_methods mem_redis demo 8 (\<lambda>k. Some (k \<noteq> ''b'')) [2, 1, 0] (\<lambda>_. True) demo_pool = Done (2, 1) s' \<and>
      rep demo (mem_view s') q \<and> alock q ''b'' = Some (''1'', Some 3605000) \<and> ''b'' \<in> set (free q)) \<and>
   (\<exists>s' q. check_health calm_methods mem_redis demo 8 (\<lambda>k. Some (k \<noteq> ''b'')) [2, 1] (\<lambda>i. i < 2) demo_pool = Abort TimeoutError s' \<and>
      rep demo (mem_view s') q \<and> alock q ''b'' = Some (''1'', Some 3605000))"
proof -
  let ?obj = "\<lambda>k. Some (k \<noteq> ''b'')" and ?ks = "[''a'', ''b'', ''c'']"
  from good_demo obtain p where p: "rep demo (mem_view demo_pool) p" by (auto simp: good_def)
  have keys: "?ks = pool_keys mem_redis demo demo_pool" by code_simp
  have names: "\<forall>j\<in>set ?ks. \<forall>k\<in>set ?ks. \<forall>n. Option.bind (?obj k) (m_name calm_methods) = Some n \<longrightarrow> py_soft_bind_name demo n \<noteq> j"
    by (simp add: calm_methods_def demo_methods_def)
  have sched: "distinct [2, 1, 0 :: nat]" "set [2, 1, 0] \<subseteq> {..<length ?ks}" "distinct [2, 1 :: nat]" "set [2, 1] \<subseteq> {..<length ?ks}"
    by auto
  have "get_free_list mem_redis demo demo_pool = ?ks" by code_simp
  then have free: "''b'' \<in> set (free p)" using redis_server.observe(1) [OF mem_server p] by simp
  have now: "anow p = 5000" using rep_now [OF p] demo_clock(1) by simp
  have upt: "[0..<length ?ks] = [0, 1, 2]" by code_simp
  have all: "all_results (map (awaited Inr ?obj ?ks [2, 1, 0] (\<lambda>_. True)) [0, 1, 2]) = Inr [True, False, True]"
    and some: "all_results (map (awaited Inr ?obj ?ks [2, 1] (\<lambda>i. i < 2)) [0, 1, 2]) = Inl TimeoutError"
    by (simp_all add: awaited_def verdict_def)
  have mt: "(0 :: int) < 8" and b: "1 < length ?ks" "?ks ! 1 = ''b''" by simp_all
  note check = check_health_any_order [OF mem_server calm_judged p mt keys names, unfolded upt]
  from check [OF sched(1,2), of "\<lambda>_. True", unfolded all] obtain s1 q1 where
    1: "check_health calm_methods mem_redis demo 8 ?obj [2, 1, 0] (\<lambda>_. True) demo_pool = Done (2, 1) s1"
      "rep demo (mem_view s1) q1" "free q1 = free p" and l1: "\<forall>i<length ?ks. alock q1 (?ks ! i) =
       (if i \<notin> set [2, 1, 0] then alock p (?ks ! i)
        else if verdict Inr (?obj (?ks ! i)) = Inr True then (if shared demo then None else alock p (?ks ! i))
        else Some (''1'', Some (anow p + 3600 * 1000)))" by auto
  from check [OF sched(3,4), of "\<lambda>i. i < 2", unfolded some] obtain s2 q2 where
    2: "check_health calm_methods mem_redis demo 8 ?obj [2, 1] (\<lambda>i. i < 2) demo_pool = Abort TimeoutError s2"
      "rep demo (mem_view s2) q2" and l2: "\<forall>i<length ?ks. alock q2 (?ks ! i) =
       (if i \<notin> set [2, 1] then alock p (?ks ! i)
        else if verdict Inr (?obj (?ks ! i)) = Inr True then (if shared demo then None else alock p (?ks ! i))
        else Some (''1'', Some (anow p + 3600 * 1000)))" by auto
  have "alock q1 ''b'' = Some (''1'', Some 3605000)" "alock q2 ''b'' = Some (''1'', Some 3605000)"
    using l1 [rule_format, OF b(1)] l2 [rule_format, OF b(1)] by (simp_all add: verdict_def now)
  with 1 2 free show ?thesis by auto
qed

text \<open>
  C40: a key that was marked unhealthy, whether it is free or in use, in exclusive and in shared mode, is not
  handed out while the mark lasts: over any sequence of operations of any clients that do not disturb the
  key (an extend that names it while it belongs to the pool is allowed), no malloc returns it and it stays locked.
  The operations are those of \<open>alloc_step\<close>, which leaves out the two calls that destroy the list.
\<close>

theorem unhealthy_not_handed_out:
  assumes "redis_server R view" and "good view A s" and "0 < d" and "set_unhealthy M R A (Some d) ao s = Done () s1"
    and "calm_trace R view A far pairs (ao_key ao) s1 es s2" and "table_order pairs"
    and "now_ms (view s2) < now_ms (view s) + 1000 * d"
  shows "Allocated (Some (ao_key ao)) \<notin> set es \<and> good view A s2 \<and> holder A (view s2) (ao_key ao) = Some ''1''"
  by (rule redis_server.unhealthy_not_allocated [OF assms])

text \<open>The free key \<open>b\<close> is marked while \<open>a\<close> is taken: the next malloc passes over it to \<open>c\<close>.\<close>

theorem unhealthy_not_handed_out_witness:
  "\<exists>s1 s2. set_unhealthy calm_methods mem_redis demo (Some 60) \<lparr>ao_key = ''b'', ao_obj = None, ao_released = False\<rparr> demo_taken =
      Done () s1 \<and> alloc_step mem_redis mem_view demo 0 (\<lambda>xs. xs) s1 (Allocated (Some ''c'')) s2 \<and>
    holder demo (mem_view s2) ''b'' = Some ''1''"
proof -
  let ?ao = "\<lparr>ao_key = ''b'', ao_obj = None, ao_released = False\<rparr> :: bool aobject"
  let ?s1 = "final_state (set_unhealthy calm_methods mem_redis demo (Some 60) ?ao demo_taken)"
  let ?s2 = "final_state (malloc_key mem_redis demo 0 (Seconds 10) None NoTimeout ?s1)"
  have "case set_unhealthy calm_methods mem_redis demo (Some 60) ?ao demo_taken of Done _ _ \<Rightarrow> True | Abort _ _ \<Rightarrow> False" by code_simp
  then have s1: "set_unhealthy calm_methods mem_redis demo (Some 60) ?ao demo_taken = Done () ?s1"
    by (simp split: outcome.splits)
  have "case malloc_key mem_redis demo 0 (Seconds 10) None NoTimeout ?s1 of Done r _ \<Rightarrow> r = Some ''c'' | Abort _ _ \<Rightarrow> False" by code_simp
  then have s2: "malloc_key mem_redis demo 0 (Seconds 10) None NoTimeout ?s1 = Done (Some ''c'') ?s2"
    by (simp split: outcome.splits)
  note st = alloc_step.step_malloc [OF s2, of mem_view "\<lambda>xs. xs"]
  have "\<not> disturbs mem_redis demo ''b'' ?s1 (Allocated (Some ''c''))" by (simp add: disturbs_def touches_def)
  from calm_trace.calm_step [OF calm_trace.calm_nil st this]
  have tr: "calm_trace mem_redis mem_view demo 0 (\<lambda>xs. xs) ''b'' ?s1 [Allocated (Some ''c'')] ?s2" by simp
  have "m_now ?s2 = 5000" "m_now demo_taken = 5000" by code_simp+
  then have t: "now_ms (mem_view ?s2) < now_ms (mem_view demo_taken) + 1000 * 60" by simp
  have d: "(0 :: int) < 60" by simp
  from unhealthy_not_handed_out [OF mem_server good_taken d s1 _ table_order_id t, of _ "[Allocated (Some ''c'')]"] tr s1 st show ?thesis
    by auto
qed

end
