(* ===== verification/Known_Defects.thy ===== *)
theory Known_Defects
  imports Allocator_Facts Examples Diagnostics_Properties Policy_Proofs Queue_Properties
begin

text \<open>
  Runs of the model on the in-memory server that show defects no property of the development states.
\<close>

section \<open>A key that starts with a bar\<close>

text \<open>
  A key that starts with a bar passes the validation of \<open>extend\<close> and breaks the list: with the pool
  \<open>a\<close>, \<open>|b\<close> the value of \<open>a\<close> reads back with the next key \<open>b\<close>, and the first \<open>malloc_key\<close> dies on an assertion of
  the script.
\<close>

lemma bar_key_breaks_malloc:
  "validate_keys [PyStr ''a'', PyStr ''|b''] = None \<and>
   (case extend_pool mem_redis demo (Some [PyStr ''a'', PyStr ''|b'']) None (empty_store 0) of
      Done _ s \<Rightarrow>
        (case malloc_key mem_redis demo 0 (Seconds 10) None NoTimeout s of
           Done _ _ \<Rightarrow> False | Abort e _ \<Rightarrow> e = LuaAssert ''next value should not be nil'')
    | Abort _ _ \<Rightarrow> False)"
  by code_simp

section \<open>Freeing a free key that was locked by hand\<close>

text \<open>
  Freeing a key that was locked by hand while it was in the free list fails on an assertion of the
  script, when the pool has another member, after the lock was deleted; with a single member it writes a
  free list whose only entry is its own neighbour.
\<close>

lemma free_of_relocked_key:
  "(case free_keys mem_redis demo [''b''] 0 (final_state (lock_update mem_redis demo ''b'' ''0'' None demo_pool)) of
      Done _ _ \<Rightarrow> False | Abort e _ \<Rightarrow> e = LuaAssert ''item should be allocated or free'') \<and>
   (let s = final_state (extend_pool mem_redis demo (Some [PyStr ''a'']) None (empty_store 0)) in
     case free_keys mem_redis demo [''a''] 0 (final_state (lock_update mem_redis demo ''a'' ''0'' None s)) of
       Done _ s' \<Rightarrow> pool_get mem_redis demo ''a'' s' = Some ''a||a||-1'' | Abort _ _ \<Rightarrow> False)"
  by code_simp

section \<open>A key that leaves the pool and comes back\<close>

text \<open>
  The key \<open>a\<close> is in use for ten seconds. An \<open>assign\<close> that does not list it (an updater whose source left it out
  once) drops it and keeps its lock; the \<open>extend\<close> that lists it again deletes the lock as a residue, as the README
  says (and against the docstring of a test, by which the lock protects the key until it expires). With no
  time gone by, the second of the next two mallocs hands \<open>a\<close> out to another client.
\<close>

lemma evicted_key_handed_out_again:
  "malloc_key mem_redis demo 0 (Seconds 10) None NoTimeout demo_pool = Done (Some ''a'') demo_taken"
  "(let s1 = final_state (assign mem_redis demo (\<lambda>xs. xs) (Some [PyStr ''d'']) (-1) demo_taken);
        s2 = final_state (extend_pool mem_redis demo (Some [PyStr ''a'']) None s1);
        s3 = final_state (malloc_key mem_redis demo 0 (Seconds 10) None NoTimeout s2) in
     is_locked mem_redis demo ''a'' s1 \<and> \<not> is_locked mem_redis demo ''a'' s2 \<and>
     (case malloc_key mem_redis demo 0 (Seconds 10) None NoTimeout s3 of
        Done r s4 \<Rightarrow> r = Some ''a'' \<and> m_now s4 = m_now demo_taken | Abort _ _ \<Rightarrow> False))"
  by (rule demo_taken_run) code_simp

section \<open>The checker\<close>

text \<open>A damaged pool: both pointers at the allocated entry \<open>a\<close>.\<close>

definition gap_store :: mem where
  "gap_store = \<lparr>m_now = 0, m_objs =
     [(pool_str demo, MHash [(''a'', ''#ALLOCATED||#ALLOCATED||-1'')]),
      (pool_pointer_str demo True, MStr ''a'' None), (pool_pointer_str demo False, MStr ''a'' None)]\<rparr>"

text \<open>
  The gap is real. With both pointers at an allocated entry and no free entry the checker reports no
  violation, and the next \<open>malloc_key\<close> dies on an assertion of the script.
\<close>

lemma checker_gap:
  "check_invariants (collect_raw_pool mem_redis tonumber 0 demo gap_store) = [] \<and>
   (case malloc_key mem_redis demo 0 (Seconds 10) None NoTimeout gap_store of
      Done _ _ \<Rightarrow> False | Abort e _ \<Rightarrow> e = LuaAssert ''next value should not be nil'')"
  by code_simp

text \<open>The allocator and the checker on a fresh pool with some valid keys.\<close>

lemma fresh_pool:
  assumes "\<forall>k\<in>set ks. safe_key k"
    and "let s = final_state (extend_pool mem_redis demo (Some (map PyStr ks)) (Some (-1)) (empty_store 0)) in
      get_free_list mem_redis demo s = ks \<and> check_invariants (collect_raw_pool mem_redis tonumber 0 demo s) \<noteq> []"
  shows "(\<exists>s. extend_pool mem_redis demo (Some (map PyStr ks)) (Some (-1)) (empty_store 0) = Done () s \<and> good mem_view demo s \<and>
     get_free_list mem_redis demo s = ks \<and> check_invariants (collect_raw_pool mem_redis tonumber 0 demo s) \<noteq> [])"
proof -
  from redis_server.allocator_extend [OF mem_server good_empty [of demo 0] assms(1), where t = "Some (-1)"] obtain s where
    "extend_pool mem_redis demo (Some (map PyStr ks)) (Some (-1)) (empty_store 0) = Done () s" "good mem_view demo s"
    by blast
  with assms(2) show ?thesis by (simp add: Let_def)
qed

text \<open>
  The checker raises false alarms. The keys \<open>a|\<close> and \<open><a\<close> pass the validation, and pools that
  hold them are well-formed: the allocator reads its values back as it wrote them. The checker splits a
  value at another separator and takes a leading \<open><\<close> for a marker of its own, so it reports violations,
  and the health is \<open>corrupt\<close>.
\<close>

lemma checker_false_alarms:
  "(\<exists>s. extend_pool mem_redis demo (Some (map PyStr [''a|'', ''b''])) (Some (-1)) (empty_store 0) = Done () s \<and> good mem_view demo s \<and>
     get_free_list mem_redis demo s = [''a|'', ''b''] \<and> check_invariants (collect_raw_pool mem_redis tonumber 0 demo s) \<noteq> []) \<and>
   (\<exists>s. extend_pool mem_redis demo (Some (map PyStr [''<a''])) (Some (-1)) (empty_store 0) = Done () s \<and> good mem_view demo s \<and>
     get_free_list mem_redis demo s = [''<a''] \<and> check_invariants (collect_raw_pool mem_redis tonumber 0 demo s) \<noteq> [])"
  by (intro conjI fresh_pool) code_simp+

section \<open>An expired key is handed out through a soft binding\<close>

text \<open>
  The key \<open>a\<close> lives for one second. It is bound to the name \<open>n\<close> and freed for another second; two
  seconds later it has expired, and a malloc with the name still returns it.
\<close>

definition expiring_store :: mem where
  "expiring_store =
     (let s1 = final_state (extend_pool mem_redis demo (Some [PyStr ''a'']) (Some 1) (empty_store 0));
          s2 = final_state (malloc_key mem_redis demo 0 (Seconds 10) (Some ''n'') (Seconds 60) s1);
          s3 = final_state (free_keys mem_redis demo [''a''] 1 s2) in
      mem_elapse 2000 s3)"

lemma expired_key_handed_out:
  "is_expired mem_redis (pool_get mem_redis demo ''a'' expiring_store) expiring_store \<and>
   (case malloc_key mem_redis demo 0 (Seconds 10) (Some ''n'') (Seconds 60) expiring_store of
      Done r s \<Rightarrow> r = Some ''a'' \<and> contains mem_redis demo ''a'' s | Abort e s \<Rightarrow> False) \<and>
   (case malloc_key mem_redis demo 0 (Seconds 10) None NoTimeout expiring_store of
      Done r s \<Rightarrow> r = None | Abort e s \<Rightarrow> False)"
  by code_simp

section \<open>A scan that returns a field twice\<close>

text \<open>
  HSCAN may return a field more than once. When the first visit removes an expired item, the second finds
  no value, the script fails and the cursor stays where it was.
\<close>

definition repeating_redis :: "mem redis" where
  "repeating_redis = mem_redis\<lparr>r_hscan := (\<lambda>k c n m. (''7'', m_hash m k @ m_hash m k))\<rparr>"

lemma repeated_field_stops_gc:
  "(case gc repeating_redis demo 10 expiring_store of
      Done _ s \<Rightarrow> False
    | Abort e s \<Rightarrow> e = LuaAssert ''value should not be nil'' \<and> get_cursor repeating_redis demo s = ''0'')"
  by code_simp

section \<open>A task that returns None\<close>

text \<open>The result None is stored, and the waiter cannot tell it from no result: it times out.\<close>

context redis_server
begin

lemma stored_none_times_out:
  assumes "fst (get_task R C q tid False (w_redis w)) = Some t" and "t_result t = None" and "t_error t = None"
    and "due \<le> w_mono w"
  shows "remote_wait R C q sleep tid once due w = Some (Abort TimeoutError w)"
  using assms by (subst remote_wait.simps) (simp add: Let_def)

lemma none_result_times_out:
  assumes "codec_ok C" and "0 < q_timeout q" and "t_save t" and "t_error t = None"
    and "task_fn (t, w) = Done None (t, w)"
  shows "\<exists>t2 w2. execute_task_locally R C q task_fn None (t, w) = Done None (t2, w2) \<and>
    fst (get_task R C q (t_id t) False (w_redis w2)) = Some (t\<lparr>t_result := None\<rparr>) \<and>
    (due \<le> w_mono w2 \<longrightarrow> remote_wait R C q sleep (t_id t) once due w2 = Some (Abort TimeoutError w2))"
proof -
  have "task_fn (t\<lparr>t_expiry := (case None of None \<Rightarrow> t_expiry t | Some d \<Rightarrow> w_time w + d)\<rparr>, w) = Done None (t, w)"
    using assms(5) by simp
  from local_stores(1) [where task_fn = task_fn and t = t and timeout = None and w = w, OF assms(1,2) this assms(3)]
  obtain t2 w2 where run: "execute_task_locally R C q task_fn None (t, w) = Done None (t2, w2)"
    and got: "fst (get_task R C q (t_id t) False (w_redis w2)) = Some (t\<lparr>t_result := None\<rparr>)" by blast
  moreover have "due \<le> w_mono w2 \<Longrightarrow> remote_wait R C q sleep (t_id t) once due w2 = Some (Abort TimeoutError w2)"
    by (rule stored_none_times_out [OF got]) (use assms(4) in simp_all)
  ultimately show ?thesis by blast
qed

end

section \<open>Refreshing everything without an updater\<close>

lemma refresh_all_without_updater:
  assumes "ps_updater ps = None"
  shows "\<exists>s1. clear R A s = Done () s1 \<and> refresh_pool_all R A P ch (ps, s) = Abort AttributeError (ps, s1)"
  using assms by (simp add: refresh_pool_all_def clear_def)

end
