(* ===== verification/Spec2Isabelle.thy ===== *)
theory Spec2Isabelle
  imports Allocator_Properties Lock_Properties Diagnostics_Properties Queue_Properties Policy_Properties
    Known_Defects
begin

text \<open>
  A verification library for the Python package \<open>redis_allocator\<close> (\<open>src/redis_allocator/\<close>): distributed
  allocation of named keys over a Redis server, with locks, lock pools, a task queue and diagnostics.

  \<^bold>\<open>The program.\<close> All state that processes share is in Redis. \<open>RedisAllocator\<close> (\<open>allocator.py\<close>) keeps, for
  one prefix and suffix, a hash with one entry \<open>prev||next||expiry\<close> per pool member, a head and a tail
  pointer of the free list the entries form, one string key per locked member, one string key per soft
  binding of a name to a member, and a cursor of the incremental collector. Its operations are Lua scripts,
  which the server runs one at a time, over a common prologue of Lua functions. \<open>RedisLock\<close> and
  \<open>RedisLockPool\<close> (\<open>lock.py\<close>) are the classes it extends; \<open>ThreadLock\<close> and \<open>ThreadLockPool\<close> implement the
  same interfaces in the memory of one process. \<open>DefaultRedisAllocatorPolicy\<close> and \<open>RedisAllocatorObject\<close>
  are the Python layer over the scripts: refreshing the pool from an updater, collecting, allocating,
  releasing, checking health. \<open>RedisTaskQueue\<close> (\<open>task_queue.py\<close>) passes pickled tasks between processes
  through Redis lists and result keys. \<open>diagnostics/\<close> takes an atomic snapshot of one allocator, checks
  the structure of its free list, and gives reports as JSON, over HTTP or on the command line.

  \<^bold>\<open>How the code is modelled.\<close> Effectful code is a function of a state that returns an \<open>outcome\<close>
  (\<open>Prelude\<close>): \<open>Done\<close> with a value or \<open>Abort\<close> with an error, and in both cases the state it leaves, so that a
  script that fails half way leaves the writes it made. The server is a parameter: a record \<open>redis\<close> of
  commands (\<open>Redis_API\<close>), and every property holds for each server that satisfies the locale \<open>redis_server\<close>,
  the documented effect of each command on a typed key space with deadlines in milliseconds.
  \<open>Mem_Redis\<close> has an executable server and the interpretation of the locale on it; examples run there.
  A Lua nil and a Python None are \<open>None\<close>; a Lua assertion is \<open>LuaAssert\<close> with its message.

  \<^bold>\<open>Theories and code.\<close>
  \<^item> \<open>Prelude\<close>, \<open>Links\<close>: outcomes, errors, decimal numerals, neighbours of an element in a list.
  \<^item> \<open>Pool_Encoding\<close>: key names of an instance (\<open>_key_str\<close>, \<open>_pool_str\<close>, \<open>_pool_pointer_str\<close>,
    \<open>_soft_bind_name\<close>, \<open>_gc_cursor_str\<close>), \<open>join_pool_value\<close> and \<open>split_pool_value\<close> with Lua's greedy
    pattern, \<open>_validate_keys\<close>.
  \<^item> \<open>Pool_Scripts\<close>: every function of \<open>_lua_required_string\<close>, under the name it has there; branches that are
    long in Lua have a definition of their own (\<open>take_head\<close>, \<open>unlink_prev\<close>, \<open>unlink_next\<close>).
  \<^item> \<open>Allocator\<close>: the scripts and methods \<open>clear\<close>, \<open>extend\<close> (here \<open>extend_pool\<close>), \<open>shrink\<close>, \<open>assign\<close>, \<open>keys\<close>
    (\<open>pool_keys\<close>), \<open>get_free_list\<close>, \<open>malloc_key\<close>, \<open>free_keys\<close>, \<open>gc\<close> and the soft binding methods.
  \<^item> \<open>Redis_Lock\<close>, \<open>Lock_Pool\<close>, \<open>Thread_Lock\<close>: the classes of \<open>lock.py\<close>, with the thread health check pool.
    A method \<open>update\<close> is \<open>lock_update\<close> or \<open>thread_lock_update\<close>; the methods of the two pools start with \<open>rp_\<close>
    and \<open>tp_\<close>. The twelve conditional methods are \<open>setgt\<close> to \<open>delne\<close>.
  \<^item> \<open>Policy\<close>: \<open>RedisAllocatorObject\<close> (definitions \<open>obj_\<close> and \<open>set_healthy\<close>, \<open>set_unhealthy\<close>),
    \<open>RedisAllocatorUpdater\<close>, \<open>DefaultRedisAllocatorPolicy\<close>, and \<open>malloc\<close> and \<open>free\<close> on objects. \<open>check_health\<close>
    takes the schedule of its thread pool (which checks run, and in which order) and the arrival of its results as
    arguments. \<open>with_object\<close> is the \<open>with\<close> statement on an object; its body may change the object, the caller's
    state and the server.
  \<^item> \<open>Policy_Turns\<close>: a call of \<open>DefaultRedisAllocatorPolicy.malloc\<close> cut into turns of one script each (\<open>policy_turn\<close>),
    equal to \<open>policy_malloc\<close> when run alone, and the interleaving of the calls of many processes (\<open>crowd\<close>).
  \<^item> \<open>Task_Queue\<close>: \<open>RedisTask\<close> and \<open>RedisTaskQueue\<close> without \<open>listen\<close>; \<open>Listener\<close>: \<open>listen\<close>, once as the loops of
    the code (\<open>drain\<close>, \<open>listen_round\<close>, \<open>listen\<close>), with what the workers do in between as an argument, and once as
    the step relation \<open>listener_step\<close>, in which a fetch or the run of a submitted task is one step.
  \<^item> \<open>Diagnostics\<close>, \<open>Collector\<close>, \<open>Report\<close>: \<open>invariants.py\<close>, the reads of \<open>collector.py\<close>, and its report with
    the data classes of \<open>models.py\<close>; \<open>_pressure\<close> is \<open>pressure\<close>, \<open>snapshot\<close> is \<open>take_snapshot\<close>.
  \<^item> \<open>Py_Values\<close>, \<open>Dashboard\<close>: \<open>_to_plain\<close> on a datatype of Python values, the report as such a value, and
    the request handler of \<open>dashboard.py\<close>, which keeps the previous report for all its clients.
  \<^item> \<open>Cli\<close>: \<open>cli.py\<close>, with \<open>argparse\<close> on the options of \<open>build_parser\<close>: abbreviations, values behind an equals sign
    or in the next word, words that look like options, required options, exit statuses.

  \<^bold>\<open>Specifications and proofs.\<close> \<open>Pool_View\<close> reduces the key space to what one instance sees and gives the
  effect of every primitive step on it (\<open>pool_simps\<close>). \<open>Pool_Spec\<close> has the abstract pool \<open>apool\<close>: the free
  list as a list, members with expiry, locks, bindings and clock; \<open>conc\<close> is its one encoding as the hash
  and the pointers, and \<open>rep A V p\<close> relates a key space to it. \<open>Pool_Refine\<close> shows that each Lua function
  simulates its function on abstract pools, \<open>Allocator_Spec\<close> states the operations on them and their
  invariants \<open>inv_pool\<close>, and \<open>Allocator_Refine\<close> shows that the scripts implement them: no Lua assertion fails
  and the result and the state are the specified ones. A key can be locked by hand while it is free
  (\<open>jammed\<close>): the health check does so to take it out of use. \<open>inv_pool J p\<close> says that the pool is well-formed and
  at most the keys \<open>J\<close> are in that state. \<open>Allocator_System\<close> makes the operations of any
  clients, the lock operations on any key and the passing of time the steps of a transition system (\<open>alloc_step\<close>,
  \<open>alloc_trace\<close>) with invariants by rule induction. \<open>Allocator_Facts\<close> turns this into what a caller observes,
  without \<open>apool\<close>; \<open>good view A s\<close> says that the state represents some well-formed pool.
  An event \<open>disturbs\<close> a key if it may change its lock: a free, a lock by hand, or adding the key while it is not a member;
  \<open>calm_trace\<close> is a trace without such events, over which a lock lives until its deadline.
  \<open>Diagnostics_Proofs\<close> relates the checker to that encoding in both directions, \<open>Dashboard_Proofs\<close> shows that snapshots
  return and that their deltas add up, \<open>Cli_Proofs\<close> that a command line in long form is read back. \<open>Policy_Proofs\<close>
  carries the promises of the scripts to the Python layer, \<open>Health_Proofs\<close> shows that the schedule of a health
  check does not matter, and \<open>Listener_Proofs\<close> follows one task through any schedule of a listener, and the loops of
  \<open>listen\<close> to their end.

  The interfaces between components are locales. \<open>redis_server\<close> is the server. \<open>lock_service\<close>
  (\<open>Lock_Contract\<close>) is what \<open>BaseLock\<close> promises: exclusion between owners, proved once and given for
  \<open>RedisLock\<close> on every server and for \<open>ThreadLock\<close>. \<open>key_pool\<close> (\<open>Lock_Pool\<close>) is what \<open>BaseLockPool\<close> promises
  of its members and counts, given for \<open>RedisLockPool\<close>, \<open>ThreadLockPool\<close> and \<open>RedisAllocator\<close>.

  Two calls that the code accepts destroy the free list: adding a key that starts with a bar and freeing a key that
  is locked while it is free. They are not steps of \<open>alloc_step\<close>, and each property over traces says so.

  The properties C1 to C40 are in \<open>Allocator_Properties\<close> (C1 to C16: exclusive allocation over any
  sequence of operations, the reachable invariant, the refinement, the effect of each operation, the error
  cases, the encoding), \<open>Lock_Properties\<close> (C17 to C23), \<open>Diagnostics_Properties\<close> (C24 to C29: the checker, the
  dashboard, the command line), \<open>Queue_Properties\<close> (C30 to C34: a client is served by a listener, the
  loops end) and \<open>Policy_Properties\<close> (C35 to C40: at most one refresh in an interval, health checks,
  allocation by processes whose calls interleave, and release; C36 follows the updater through \<open>nth_fetch\<close> and
  \<open>moved_on\<close>, C39 covers results that are missing or late through \<open>awaited\<close>), each followed by its application to a
  concrete state of \<open>Examples\<close>. Some state how the code fails: the soft binding methods write keys nothing
  reads (C15), a bound malloc without a timeout loses a key (C16), progress reports lose the result of a task
  (C33, for every function that reaches a successful report), a local failure is reported as the failure of the remote run (C34). \<open>Known_Defects\<close> has concrete runs:
  a key that starts with a bar breaks the encoding, freeing a free key that was locked by hand fails,
  a key in use that leaves the pool and comes back is handed out twice, the checker accepts a broken state and rejects sound ones, an expired key is handed out
  through a soft binding, a collection is stopped by a field that HSCAN returns twice, a result None times
  out, a full refresh without an updater fails half way.

  \<^bold>\<open>Bounds and fuel.\<close> \<open>pop_from_head\<close> in Lua is a recursion that drops expired and locked heads. Here it has
  \<open>pop_fuel\<close>, one more than the number of members; each call takes one member off the free list, and C3
  and C11 show that a well-formed pool never exhausts it (\<open>OutOfFuel\<close> would be an error). The loop of
  \<open>get_free_list\<close> has the bound HLEN in the code itself. The walks of the checker have one more round than
  entries, again the bound of the code. \<open>remote_wait\<close> and \<open>scan_loop\<close> are partial functions, whose end is
  C32 and C26; C26 assumes that no page of the scan is empty, C28 and C29 that the scans end. \<open>drain\<close> is a partial
  function, too, and C31 shows that it ends; \<open>listen\<close> takes the number of rounds until its event is set.

  \<^bold>\<open>Parameters.\<close> Beside the server: the time stamp of the year 2099 that stands for no timeout (\<open>far\<close>), the
  orders in which Lua walks a table (\<open>pairs\<close>) and Python a set (\<open>iter\<close>), the reading and printing of numbers,
  \<open>pickle\<close> (a codec), the caller's objects, fetch and task functions, what other processes do during a
  sleep, what the workers of a listener do, the schedule and the timeouts of the health checks, which objects the garbage
  collector has left alive, the random choices of the policy, and what a snapshot
  meets outside the package (\<open>moment\<close>: the replies to INFO, SLOWLOG and SCAN, the clock), \<open>repr\<close>, the decoding
  of bytes and \<open>json.dumps\<close>.

  \<^bold>\<open>Simplifications.\<close> Integers are exact, where Lua has doubles: sums of time stamps and timeouts stay far below
  the first integer a double misses. An operation of the server is atomic, and an operation on a \<open>ThreadLock\<close>
  is atomic under its RLock and reads the clock once. A health check, and the run of a submitted task, is one step:
  checks and tasks are interleaved as wholes. In a crowd each process has a policy object of its own, and one call at a time. The requests of the dashboard are served one after another, in
  the order in which its lock lets their snapshots through.

  \<^bold>\<open>Not modelled.\<close> The sockets of the dashboard and its page, the usage texts of the command line, the
  package exports, \<open>docs/\<close> and \<open>tests/\<close>: input and output without a state of their own. Hashes of locks, the
  registration with \<open>atexit\<close>, and logging are left out.
\<close>

end
